(* ===== verification/Prelude.thy ===== *)
theory Prelude
  imports Main "HOL-Library.Word" "HOL-Library.Monad_Syntax"
begin

text \<open>
  Shared vocabulary of the development: machine words, pointers into typed heaps, the kernel
  services the extension calls (a parameter of the model), little-endian byte access, and the
  theorem collections the component theories extend.

  Conventions. A computation of the program that may touch memory has type \<open>'a option\<close>:
  \<open>None\<close> means that the execution dereferences a null or dangling pointer or leaves the bounds
  of a buffer (undefined behaviour in C++). An allocation that fails is not a fault: it is an
  ordinary branch of the code and is a value of the result.
\<close>

section \<open>Words, pointers, heaps\<close>

type_synonym u8 = "8 word"
type_synonym u16 = "16 word"
type_synonym u32 = "32 word"
type_synonym u64 = "64 word"
type_synonym s32 = "32 word" \<comment> \<open>SInt32, read with sint\<close>

type_synonym addr = nat
type_synonym ptr = "addr option" \<comment> \<open>None is NULL\<close>
type_synonym 'o heap = "addr \<rightharpoonup> 'o" \<comment> \<open>None: not allocated (or freed)\<close>

named_theorems kernel_simps \<open>what the documented kernel services compute\<close>
named_theorems heap_simps \<open>loads and stores of typed heaps\<close>
named_theorems layout_simps \<open>struct layouts and field access\<close>
named_theorems code_simps \<open>numeric codes of the message protocol\<close>

text \<open>\<open>p->field\<close> and \<open>p->field = v\<close>: both fault on a null or dangling pointer.\<close>

fun deref :: "'o heap \<Rightarrow> ptr \<Rightarrow> 'o option" where
  "deref h None = None"
| "deref h (Some a) = h a"

fun modify :: "ptr \<Rightarrow> ('o \<Rightarrow> 'o) \<Rightarrow> 'o heap \<Rightarrow> 'o heap option" where
  "modify None f h = None"
| "modify (Some a) f h = (case h a of None \<Rightarrow> None | Some x \<Rightarrow> Some (h(a \<mapsto> f x)))"

lemma modify_Some [heap_simps, simp]: "h a = Some x \<Longrightarrow> modify (Some a) f h = Some (h(a \<mapsto> f x))"
  by simp

lemma modify_eq_Some:
  "modify p f h = Some h' \<longleftrightarrow> (\<exists>a x. p = Some a \<and> h a = Some x \<and> h' = h(a \<mapsto> f x))"
  by (cases p) (auto split: option.splits)

lemma map_comp_upd_same: "h a = Some x \<Longrightarrow> f x = f y \<Longrightarrow> map_option f ((h(a \<mapsto> y)) b) = map_option f (h b)"
  by simp

section \<open>The kernel services used\<close>

text \<open>
  The extension runs inside the kernel and calls it for memory, time and atomic updates. That
  code is not part of the repository; it enters as one value of type \<open>kernel\<close>:
  \<^item> \<open>grants k site n\<close>: whether the allocation of kind \<open>site\<close> made for the \<open>n\<close>-th object of
    its class returns memory (\<open>False\<close>: the call returns NULL);
  \<^item> \<open>garbage k site n i\<close>: the byte at offset \<open>i\<close> of a freshly allocated, not yet written block;
  \<^item> \<open>uptime k i\<close>: what the \<open>i\<close>-th call of \<open>clock_get_uptime\<close> stores;
  \<^item> \<open>OSIncrementAtomic\<close>, \<open>OSDecrementAtomic\<close>, \<open>OSBitOrAtomic\<close>: the result of the call and the
    value left in memory, for the value found there.
\<close>

datatype alloc_site =
    NewRule | NewProcessName | NewFilePath | NewFromAddress
  | NewMessage | NewNode | NewClient | NewClientLocks | NewClientThread
  | NewCookie | NewSockAddr | NewDeferred | NewApplication | NewLock

record kernel =
  grants :: "alloc_site \<Rightarrow> nat \<Rightarrow> bool"
  garbage :: "alloc_site \<Rightarrow> nat \<Rightarrow> nat \<Rightarrow> u8"
  uptime :: "nat \<Rightarrow> u64"
  OSIncrementAtomic :: "s32 \<Rightarrow> s32 \<times> s32"
  OSDecrementAtomic :: "s32 \<Rightarrow> s32 \<times> s32"
  OSBitOrAtomic :: "u32 \<Rightarrow> u32 \<Rightarrow> u32 \<times> u32"

text \<open>
  The documented behaviour of the three atomics (libkern/OSAtomic.h): each returns the value
  found before the operation and stores the updated one.
\<close>

unbundle bit_operations_syntax

definition atomics_documented :: "kernel \<Rightarrow> bool" where
  "atomics_documented k \<longleftrightarrow>
     (\<forall>v. OSIncrementAtomic k v = (v, v + 1)) \<and>
     (\<forall>v. OSDecrementAtomic k v = (v, v - 1)) \<and>
     (\<forall>m v. OSBitOrAtomic k m v = (v, v OR m))"

lemma atomics_documentedD [kernel_simps, simp]:
  assumes "atomics_documented k"
  shows "OSIncrementAtomic k v = (v, v + 1)"
    and "OSDecrementAtomic k v = (v, v - 1)"
    and "OSBitOrAtomic k m u = (u, u OR m)"
  using assms by (auto simp: atomics_documented_def)

text \<open>A concrete kernel for the witnesses: every allocation succeeds, memory comes zeroed.\<close>

definition plain_kernel :: kernel where
  "plain_kernel = \<lparr>grants = (\<lambda>_ _. True), garbage = (\<lambda>_ _ _. 0), uptime = (\<lambda>i. of_nat (Suc i)),
     OSIncrementAtomic = (\<lambda>v. (v, v + 1)), OSDecrementAtomic = (\<lambda>v. (v, v - 1)),
     OSBitOrAtomic = (\<lambda>m v. (v, v OR m))\<rparr>"

lemma plain_kernel_documented [simp]: "atomics_documented plain_kernel"
  by (simp add: atomics_documented_def plain_kernel_def)

lemma plain_kernel_grants [simp]: "grants plain_kernel s n"
  by (simp add: plain_kernel_def)

lemma plain_kernel_uptime [simp]: "uptime plain_kernel i = of_nat (Suc i)"
  by (simp add: plain_kernel_def)

lemma plain_kernel_garbage [simp]: "garbage plain_kernel s n i = 0"
  by (simp add: plain_kernel_def)

section \<open>Bytes\<close>

text \<open>Both target architectures (i386, x86_64) are little-endian.\<close>

fun le_nat :: "u8 list \<Rightarrow> nat" where
  "le_nat [] = 0"
| "le_nat (b # bs) = unat b + 256 * le_nat bs"

fun nat_le :: "nat \<Rightarrow> nat \<Rightarrow> u8 list" where
  "nat_le 0 v = []"
| "nat_le (Suc n) v = of_nat v # nat_le n (v div 256)"

lemma length_nat_le [simp]: "length (nat_le n v) = n"
  by (induction n arbitrary: v) auto

lemma unat_of_nat_u8: "unat (of_nat v :: u8) = v mod 256"
  by (simp add: unat_of_nat)

lemma le_nat_nat_le [simp]: "le_nat (nat_le n v) = v mod 256 ^ n"
proof (induction n arbitrary: v)
  case (Suc n)
  have "le_nat (nat_le (Suc n) v) = v mod 256 + 256 * (v div 256 mod 256 ^ n)"
    by (simp add: Suc.IH unat_of_nat_u8)
  then show ?case by (simp add: mod_mult2_eq)
qed simp

lemma le_nat_bound: "le_nat bs < 256 ^ length bs"
proof (induction bs)
  case (Cons b bs)
  have "unat b < 256" using unsigned_less [of b] by simp
  with Cons show ?case by (simp add: algebra_simps)
qed simp

text \<open>Reading and writing \<open>n\<close> bytes at an offset; leaving the buffer is a fault.\<close>

definition peek :: "nat \<Rightarrow> nat \<Rightarrow> u8 list \<Rightarrow> u8 list option" where
  "peek off n m = (if off + n \<le> length m then Some (take n (drop off m)) else None)"

definition poke :: "nat \<Rightarrow> u8 list \<Rightarrow> u8 list \<Rightarrow> u8 list option" where
  "poke off bs m =
     (if off + length bs \<le> length m
      then Some (take off m @ bs @ drop (off + length bs) m) else None)"

lemma poke_length: "poke off bs m = Some m' \<Longrightarrow> length m' = length m"
  by (auto simp: poke_def split: if_splits)

lemma poke_defined: "off + length bs \<le> length m \<Longrightarrow> \<exists>m'. poke off bs m = Some m'"
  by (simp add: poke_def)

lemma peek_poke_same: "poke off bs m = Some m' \<Longrightarrow> n = length bs \<Longrightarrow> peek off n m' = Some bs"
  by (auto simp: poke_def peek_def split: if_splits)

lemma peek_poke_other:
  assumes "poke off bs m = Some m'" and "off' + n \<le> off \<or> off + length bs \<le> off'"
  shows "peek off' n m' = peek off' n m"
proof -
  from assms(1) have m': "m' = take off m @ bs @ drop (off + length bs) m"
    and le: "off + length bs \<le> length m"
    by (auto simp: poke_def split: if_splits)
  have len: "length m' = length m" using poke_length [OF assms(1)] .
  have "take n (drop off' m') = take n (drop off' m)" if "off' + n \<le> length m"
  proof (rule nth_equalityI)
    show "length (take n (drop off' m')) = length (take n (drop off' m))"
      by (simp add: len)
  next
    fix i assume "i < length (take n (drop off' m'))"
    then have i: "i < n" "off' + i < length m" using len by auto
    have "m' ! (off' + i) = m ! (off' + i)"
      using assms(2) i le by (auto simp: m' nth_append min_def)
    then show "take n (drop off' m') ! i = take n (drop off' m) ! i"
      using i len by simp
  qed
  then show ?thesis by (simp add: peek_def len)
qed

definition rd_u8 :: "u8 list \<Rightarrow> nat \<Rightarrow> u8 option" where
  "rd_u8 m off = (if off < length m then Some (m ! off) else None)"

lemma peek_first: "peek off n m = Some (b # bs) \<Longrightarrow> rd_u8 m off = Some b"
proof -
  assume pk: "peek off n m = Some (b # bs)"
  then have "off < length m" and "take n (drop off m) = b # bs"
    by (cases n; auto simp: peek_def split: if_splits)+
  then show ?thesis by (cases n) (auto simp: rd_u8_def Cons_nth_drop_Suc [symmetric])
qed

definition rd_u16 :: "u8 list \<Rightarrow> nat \<Rightarrow> u16 option" where
  "rd_u16 m off = map_option (\<lambda>bs. of_nat (le_nat bs)) (peek off 2 m)"

definition rd_u32 :: "u8 list \<Rightarrow> nat \<Rightarrow> u32 option" where
  "rd_u32 m off = map_option (\<lambda>bs. of_nat (le_nat bs)) (peek off 4 m)"

lemma rd_u16_drop: "rd_u16 m (at + i) = rd_u16 (drop at m) i"
  by (auto simp: rd_u16_def peek_def add.commute)

lemma rd_u16_append: "i + 2 \<le> length b \<Longrightarrow> rd_u16 (b @ rest) i = rd_u16 b i"
  by (simp add: rd_u16_def peek_def)

text \<open>
  A framed message: its first two bytes give its length, which covers the header of size and type.
\<close>

definition framed :: "u8 list \<Rightarrow> bool" where
  "framed b \<longleftrightarrow> 4 \<le> length b \<and> map_option unat (rd_u16 b 0) = Some (length b)"

lemma framed_length: "framed b \<Longrightarrow> 4 \<le> length b"
  by (simp add: framed_def)

lemma framed_size: "framed b \<Longrightarrow> \<exists>sz. rd_u16 b 0 = Some sz \<and> unat sz = length b"
  by (auto simp: framed_def)

text \<open>
  A C string at an offset: the bytes before the first NUL. A buffer that ends before a NUL is
  read past its end.
\<close>

fun until_nul :: "u8 list \<Rightarrow> u8 list option" where
  "until_nul [] = None"
| "until_nul (b # bs) = (if b = 0 then Some [] else map_option ((#) b) (until_nul bs))"

definition cstring_at :: "u8 list \<Rightarrow> nat \<Rightarrow> u8 list option" where
  "cstring_at m off = until_nul (drop off m)"

definition cstr :: "u8 list \<Rightarrow> bool" where
  "cstr s \<longleftrightarrow> 0 \<notin> set s"

lemma until_nul_cstr: "until_nul bs = Some s \<Longrightarrow> cstr s"
  by (induction bs arbitrary: s) (auto simp: cstr_def split: if_splits)

lemma cstring_at_cstr: "cstring_at m off = Some s \<Longrightarrow> cstr s"
  by (simp add: cstring_at_def until_nul_cstr)

lemma until_nul_append: "cstr s \<Longrightarrow> until_nul (s @ 0 # rest) = Some s"
  by (induction s) (auto simp: cstr_def)

section \<open>Sequences of operations\<close>

text \<open>
  Several components offer a family of operations on one state; clients call them in any order. The
  contract of such a family is one of two locales. \<open>total_ops\<close>: in a state of the invariant every
  admissible operation succeeds and re-establishes the invariant; the index of the invariant is the
  number of operations the resources still allow. \<open>simulation\<close>: every operation does to the state
  what its specification does to the abstract value the state represents.
\<close>

fun run_all :: "('op \<Rightarrow> 's \<Rightarrow> 's option) \<Rightarrow> 'op list \<Rightarrow> 's \<Rightarrow> 's option" where
  "run_all run [] s = Some s"
| "run_all run (x # xs) s = Option.bind (run x s) (run_all run xs)"

lemma run_all_append: "run_all run (xs @ ys) s = Option.bind (run_all run xs s) (run_all run ys)"
  by (induction xs arbitrary: s) (auto split: bind_splits)

locale total_ops =
  fixes inv :: "nat \<Rightarrow> 's \<Rightarrow> bool" and ok :: "'op \<Rightarrow> bool" and run :: "'op \<Rightarrow> 's \<Rightarrow> 's option"
  assumes step_total: "inv (Suc n) s \<Longrightarrow> ok x \<Longrightarrow> \<exists>s'. run x s = Some s' \<and> inv n s'"
begin

lemma runs_total: "inv (n + length xs) s \<Longrightarrow> list_all ok xs \<Longrightarrow> \<exists>s'. run_all run xs s = Some s' \<and> inv n s'"
proof (induction xs arbitrary: s)
  case (Cons x xs)
  then obtain s1 where "run x s = Some s1" "inv (n + length xs) s1"
    using step_total [of "n + length xs" s x] by auto
  with Cons show ?case by simp
qed simp

end

locale simulation =
  fixes rel :: "'s \<Rightarrow> 'a \<Rightarrow> bool" and ok :: "'op \<Rightarrow> bool"
    and run :: "'op \<Rightarrow> 's \<Rightarrow> 's option" and spec :: "'op \<Rightarrow> 'a \<Rightarrow> 'a"
  assumes step_simulated: "rel s t \<Longrightarrow> ok x \<Longrightarrow> \<exists>s'. run x s = Some s' \<and> rel s' (spec x t)"
begin

lemma runs_simulated: "rel s t \<Longrightarrow> list_all ok xs \<Longrightarrow> \<exists>s'. run_all run xs s = Some s' \<and> rel s' (fold spec xs t)"
proof (induction xs arbitrary: s t)
  case (Cons x xs)
  then obtain s1 where "run x s = Some s1" "rel s1 (spec x t)" using step_simulated [of s t x] by auto
  with Cons show ?case by simp
qed simp

end

sublocale simulation \<subseteq> total_ops "\<lambda>n s. \<exists>t. rel s t" ok run
  by unfold_locales (use step_simulated in blast)

text \<open>
  What a loop with fuel gives: the value it returns, a fault (a read outside the memory), or no answer
  within the fuel.
\<close>

datatype 'a outcome = Returned 'a | Fault | OutOfFuel

end
