(* ===== verification/MessageType.thy ===== *)
theory MessageType
  imports Prelude
begin

text \<open>
  The wire protocol's vocabulary (Shared/messageType.h): message classes and types with their
  numeric codes, the layout of the raw message structs, and \<open>SockAddress::Copy\<close>. The extension
  and its clients share the header and exchange these structs as raw memory, so the layout the
  C++ compiler gives them is the wire format.
\<close>

section \<open>Classes and types of messages\<close>

datatype MessagesClass =
    MessageClassInfoRules | MessageClassInfoSockets | MessageClassProviderOfRules
  | MessageClassFirewall | MessageClassClient | MessageClassCommon

primrec class_code :: "MessagesClass \<Rightarrow> u16" where
  "class_code MessageClassInfoRules = 0x0100"
| "class_code MessageClassInfoSockets = 0x0200"
| "class_code MessageClassProviderOfRules = 0x0400"
| "class_code MessageClassFirewall = 0x0800"
| "class_code MessageClassClient = 0x1000"
| "class_code MessageClassCommon = 0x2000"

datatype ServerMessagesType =
    MessageTypeText
  | MessageTypeSfltUnregistered | MessageTypeSfltAttach | MessageTypeSfltDetach
  | MessageTypeSfltNotify | MessageTypeSfltGetPeerName | MessageTypeSfltGetSockName
  | MessageTypeSfltDataIn | MessageTypeSfltDataOut | MessageTypeSfltConnectIn
  | MessageTypeSfltConnectOut | MessageTypeSfltBind | MessageTypeSfltSetOption
  | MessageTypeSfltGetOption | MessageTypeSfltListen | MessageTypeSfltIoctl
  | MessageTypeSfltAccept
  | MessageTypeRequestRule
  | MessageTypeRuleAdded | MessageTypeRuleDeleted | MessageTypeRuleDeactivated
  | MessageTypeRuleActivated
  | MessageTypeSocketData | MessageTypeSocketOpen | MessageTypeSocketClosed
  | MessageTypeFirewallActivated | MessageTypeFirewallDeactivated
  | MessageTypeClientSubscribedAsaProviderOfRules
  | MessageTypeClientUnsubscribedAsaProviderOfRules
  | MessageTypeClientSubscribedToInfoRules | MessageTypeClientUnsubscribedFromInfoRules
  | MessageTypeClientSubscribedToInfoSockets | MessageTypeClientUnsubscribedFromInfoSockets
  | MessageTypeFirewallClosing

primrec server_code :: "ServerMessagesType \<Rightarrow> u16" where
  "server_code MessageTypeText = class_code MessageClassCommon OR 0x01"
| "server_code MessageTypeSfltUnregistered = class_code MessageClassCommon OR 0x02"
| "server_code MessageTypeSfltAttach = class_code MessageClassCommon OR 0x03"
| "server_code MessageTypeSfltDetach = class_code MessageClassCommon OR 0x04"
| "server_code MessageTypeSfltNotify = class_code MessageClassCommon OR 0x05"
| "server_code MessageTypeSfltGetPeerName = class_code MessageClassCommon OR 0x06"
| "server_code MessageTypeSfltGetSockName = class_code MessageClassCommon OR 0x07"
| "server_code MessageTypeSfltDataIn = class_code MessageClassCommon OR 0x08"
| "server_code MessageTypeSfltDataOut = class_code MessageClassCommon OR 0x09"
| "server_code MessageTypeSfltConnectIn = class_code MessageClassCommon OR 0x0A"
| "server_code MessageTypeSfltConnectOut = class_code MessageClassCommon OR 0x0B"
| "server_code MessageTypeSfltBind = class_code MessageClassCommon OR 0x0C"
| "server_code MessageTypeSfltSetOption = class_code MessageClassCommon OR 0x0D"
| "server_code MessageTypeSfltGetOption = class_code MessageClassCommon OR 0x0E"
| "server_code MessageTypeSfltListen = class_code MessageClassCommon OR 0x0F"
| "server_code MessageTypeSfltIoctl = class_code MessageClassCommon OR 0x10"
| "server_code MessageTypeSfltAccept = class_code MessageClassCommon OR 0x11"
| "server_code MessageTypeRequestRule = class_code MessageClassProviderOfRules OR 0x01"
| "server_code MessageTypeRuleAdded = class_code MessageClassInfoRules OR 0x01"
| "server_code MessageTypeRuleDeleted = class_code MessageClassInfoRules OR 0x02"
| "server_code MessageTypeRuleDeactivated = class_code MessageClassInfoRules OR 0x03"
| "server_code MessageTypeRuleActivated = class_code MessageClassInfoRules OR 0x04"
| "server_code MessageTypeSocketData = class_code MessageClassInfoSockets OR 0x07"
| "server_code MessageTypeSocketOpen = class_code MessageClassInfoSockets OR 0x08"
| "server_code MessageTypeSocketClosed = class_code MessageClassInfoSockets OR 0x09"
| "server_code MessageTypeFirewallActivated = class_code MessageClassFirewall OR 0x01"
| "server_code MessageTypeFirewallDeactivated = class_code MessageClassFirewall OR 0x02"
| "server_code MessageTypeClientSubscribedAsaProviderOfRules = class_code MessageClassFirewall OR 0x03"
| "server_code MessageTypeClientUnsubscribedAsaProviderOfRules = class_code MessageClassFirewall OR 0x04"
| "server_code MessageTypeClientSubscribedToInfoRules = class_code MessageClassFirewall OR 0x05"
| "server_code MessageTypeClientUnsubscribedFromInfoRules = class_code MessageClassFirewall OR 0x06"
| "server_code MessageTypeClientSubscribedToInfoSockets = class_code MessageClassFirewall OR 0x07"
| "server_code MessageTypeClientUnsubscribedFromInfoSockets = class_code MessageClassFirewall OR 0x08"
| "server_code MessageTypeFirewallClosing = class_code MessageClassFirewall OR 0x09"

datatype ClientMessagesType =
    MessageTypeAddRule | MessageTypeDeleteRule | MessageTypeActivateRule | MessageTypeDeactivateRule
  | MessageTypeActivateFirewall | MessageTypeDeactivateFirewall
  | MessageTypeSubscribeAsaProviderOfRules | MessageTypeUnsubscribeAsaProviderOfRules
  | MessageTypeSubscribeToInfoRules | MessageTypeUnsubscribeFromInfoRules
  | MessageTypeSubscribeToInfoSockets | MessageTypeUnsubscribeFromInfoSockets

primrec client_code :: "ClientMessagesType \<Rightarrow> u16" where
  "client_code MessageTypeAddRule = class_code MessageClassClient OR 0x01"
| "client_code MessageTypeDeleteRule = class_code MessageClassClient OR 0x02"
| "client_code MessageTypeActivateRule = class_code MessageClassClient OR 0x03"
| "client_code MessageTypeDeactivateRule = class_code MessageClassClient OR 0x04"
| "client_code MessageTypeActivateFirewall = class_code MessageClassClient OR 0x05"
| "client_code MessageTypeDeactivateFirewall = class_code MessageClassClient OR 0x06"
| "client_code MessageTypeSubscribeAsaProviderOfRules = class_code MessageClassClient OR 0x07"
| "client_code MessageTypeUnsubscribeAsaProviderOfRules = class_code MessageClassClient OR 0x08"
| "client_code MessageTypeSubscribeToInfoRules = class_code MessageClassClient OR 0x09"
| "client_code MessageTypeUnsubscribeFromInfoRules = class_code MessageClassClient OR 0x0A"
| "client_code MessageTypeSubscribeToInfoSockets = class_code MessageClassClient OR 0x0B"
| "client_code MessageTypeUnsubscribeFromInfoSockets = class_code MessageClassClient OR 0x0C"

text \<open>The \<open>switch\<close> over a received type code.\<close>

definition client_types :: "ClientMessagesType list" where
  "client_types =
     [MessageTypeDeleteRule, MessageTypeAddRule, MessageTypeActivateRule, MessageTypeDeactivateRule,
      MessageTypeActivateFirewall, MessageTypeDeactivateFirewall,
      MessageTypeSubscribeAsaProviderOfRules, MessageTypeUnsubscribeAsaProviderOfRules,
      MessageTypeSubscribeToInfoRules, MessageTypeUnsubscribeFromInfoRules,
      MessageTypeSubscribeToInfoSockets, MessageTypeUnsubscribeFromInfoSockets]"

definition client_type_of :: "u16 \<Rightarrow> ClientMessagesType option" where
  "client_type_of w = find (\<lambda>t. client_code t = w) client_types"

lemma client_type_of_code [simp]: "client_type_of (client_code t) = Some t"
  by (cases t) (simp_all add: client_type_of_def client_types_def)

lemma client_type_of_Some: "client_type_of w = Some t \<Longrightarrow> w = client_code t"
  by (auto simp: client_type_of_def find_Some_iff)

text \<open>The class of a server message, and the bit test \<open>type & registredMessageClases\<close>.\<close>

primrec server_class :: "ServerMessagesType \<Rightarrow> MessagesClass" where
  "server_class MessageTypeRequestRule = MessageClassProviderOfRules"
| "server_class MessageTypeRuleAdded = MessageClassInfoRules"
| "server_class MessageTypeRuleDeleted = MessageClassInfoRules"
| "server_class MessageTypeRuleDeactivated = MessageClassInfoRules"
| "server_class MessageTypeRuleActivated = MessageClassInfoRules"
| "server_class MessageTypeSocketData = MessageClassInfoSockets"
| "server_class MessageTypeSocketOpen = MessageClassInfoSockets"
| "server_class MessageTypeSocketClosed = MessageClassInfoSockets"
| "server_class MessageTypeFirewallActivated = MessageClassFirewall"
| "server_class MessageTypeFirewallDeactivated = MessageClassFirewall"
| "server_class MessageTypeClientSubscribedAsaProviderOfRules = MessageClassFirewall"
| "server_class MessageTypeClientUnsubscribedAsaProviderOfRules = MessageClassFirewall"
| "server_class MessageTypeClientSubscribedToInfoRules = MessageClassFirewall"
| "server_class MessageTypeClientUnsubscribedFromInfoRules = MessageClassFirewall"
| "server_class MessageTypeClientSubscribedToInfoSockets = MessageClassFirewall"
| "server_class MessageTypeClientUnsubscribedFromInfoSockets = MessageClassFirewall"
| "server_class MessageTypeFirewallClosing = MessageClassFirewall"
| "server_class MessageTypeText = MessageClassCommon"
| "server_class MessageTypeSfltUnregistered = MessageClassCommon"
| "server_class MessageTypeSfltAttach = MessageClassCommon"
| "server_class MessageTypeSfltDetach = MessageClassCommon"
| "server_class MessageTypeSfltNotify = MessageClassCommon"
| "server_class MessageTypeSfltGetPeerName = MessageClassCommon"
| "server_class MessageTypeSfltGetSockName = MessageClassCommon"
| "server_class MessageTypeSfltDataIn = MessageClassCommon"
| "server_class MessageTypeSfltDataOut = MessageClassCommon"
| "server_class MessageTypeSfltConnectIn = MessageClassCommon"
| "server_class MessageTypeSfltConnectOut = MessageClassCommon"
| "server_class MessageTypeSfltBind = MessageClassCommon"
| "server_class MessageTypeSfltSetOption = MessageClassCommon"
| "server_class MessageTypeSfltGetOption = MessageClassCommon"
| "server_class MessageTypeSfltListen = MessageClassCommon"
| "server_class MessageTypeSfltIoctl = MessageClassCommon"
| "server_class MessageTypeSfltAccept = MessageClassCommon"

lemma class_code_and: "class_code c AND class_code d = (if c = d then class_code c else 0)"
  by (cases c; cases d) simp_all

lemma server_code_class: "server_code t AND class_code c = (if server_class t = c then class_code c else 0)"
  by (cases t; cases c) simp_all

lemma class_code_nonzero [simp]: "class_code c \<noteq> 0"
  by (cases c) simp_all

end
