(* ===== verification/Layout.thy ===== *)
theory Layout
  imports MessageType
begin

text \<open>
  Struct layout and field access. A raw message struct is the list of its fields in declaration
  order, those of the base structs first; the compiler places each at the next offset that its
  type's alignment allows and rounds the size up to the largest alignment. The two target ABIs
  differ in the alignment of \<open>UInt64\<close> only. A message in memory is the byte list from the message
  pointer to the end of its buffer; a field access outside that list is a fault.
\<close>

section \<open>Layout\<close>

datatype abi = I386 | X86_64

datatype ctype = CU8 | CU16 | CU32 | CU64 | CBytes nat

fun csize :: "ctype \<Rightarrow> nat" where
  "csize CU8 = 1" | "csize CU16 = 2" | "csize CU32 = 4" | "csize CU64 = 8" | "csize (CBytes n) = n"

fun calign :: "abi \<Rightarrow> ctype \<Rightarrow> nat" where
  "calign abi CU8 = 1" | "calign abi CU16 = 2" | "calign abi CU32 = 4"
| "calign I386 CU64 = 4" | "calign X86_64 CU64 = 8" | "calign abi (CBytes n) = 1"

datatype fname =
    F_size | F_type | F_pid | F_uid | F_so | F_soListen | F_proto | F_event | F_sa | F_optionName
  | F_request | F_data | F_stateOperation | F_direction | F_stateByRuleId | F_packets | F_bytes
  | F_unitId | F_clientMessageId | F_actionState | F_ruleId | F_messageId | F_id
  | F_processNameOffset | F_filePathOffset | F_sockDomain | F_sockType | F_sockProtocol
  | F_fromSockAddressOffset | F_toSockAddressOffset | F_allow | F_state | F_buffer

type_synonym struct = "(fname \<times> ctype) list"

definition align_up :: "nat \<Rightarrow> nat \<Rightarrow> nat" where
  "align_up a off = (off + a - 1) div a * a"

fun layout :: "abi \<Rightarrow> nat \<Rightarrow> struct \<Rightarrow> (fname \<times> nat \<times> ctype) list" where
  "layout abi off [] = []"
| "layout abi off ((f, t) # fs) =
     (let p = align_up (calign abi t) off in (f, p, t) # layout abi (p + csize t) fs)"

fun struct_end :: "abi \<Rightarrow> nat \<Rightarrow> struct \<Rightarrow> nat" where
  "struct_end abi off [] = off"
| "struct_end abi off ((f, t) # fs) = struct_end abi (align_up (calign abi t) off + csize t) fs"

fun struct_align :: "abi \<Rightarrow> struct \<Rightarrow> nat" where
  "struct_align abi [] = 1"
| "struct_align abi ((f, t) # fs) = max (calign abi t) (struct_align abi fs)"

definition sizeof :: "abi \<Rightarrow> struct \<Rightarrow> nat" where
  "sizeof abi S = align_up (struct_align abi S) (struct_end abi 0 S)"

definition field :: "abi \<Rightarrow> struct \<Rightarrow> fname \<Rightarrow> (nat \<times> ctype) option" where
  "field abi S f = map_of (layout abi 0 S) f"

definition offsetof :: "abi \<Rightarrow> struct \<Rightarrow> fname \<Rightarrow> nat" where
  "offsetof abi S f = (case field abi S f of Some (p, t) \<Rightarrow> p | None \<Rightarrow> 0)"

definition get_field :: "abi \<Rightarrow> struct \<Rightarrow> fname \<Rightarrow> u8 list \<Rightarrow> nat option" where
  "get_field abi S f m =
     (case field abi S f of None \<Rightarrow> None
      | Some (p, t) \<Rightarrow> map_option le_nat (peek p (csize t) m))"

definition put_field :: "abi \<Rightarrow> struct \<Rightarrow> fname \<Rightarrow> nat \<Rightarrow> u8 list \<Rightarrow> u8 list option" where
  "put_field abi S f v m =
     (case field abi S f of None \<Rightarrow> None | Some (p, t) \<Rightarrow> poke p (nat_le (csize t) v) m)"

text \<open>A sequence of assignments \<open>this->f = v;\<close> in program order.\<close>

fun put_fields :: "abi \<Rightarrow> struct \<Rightarrow> (fname \<times> nat) list \<Rightarrow> u8 list \<Rightarrow> u8 list option" where
  "put_fields abi S [] m = Some m"
| "put_fields abi S ((f, v) # fvs) m = Option.bind (put_field abi S f v m) (put_fields abi S fvs)"

section \<open>Facts about layouts\<close>

lemma calign_pos [simp]: "0 < calign abi t"
  by (cases t; cases abi) auto

lemma struct_align_pos [simp]: "0 < struct_align abi S"
  by (induction abi S rule: struct_align.induct) (auto simp: less_max_iff_disj)

lemma align_up_ge: "0 < a \<Longrightarrow> off \<le> align_up a off"
proof -
  assume a: "0 < a"
  have "off + a - 1 = align_up a off + (off + a - 1) mod a"
    by (simp add: align_up_def)
  moreover have "(off + a - 1) mod a < a" using a by simp
  ultimately show ?thesis using a by linarith
qed

lemma struct_end_ge: "off \<le> struct_end abi off S"
proof (induction abi off S rule: struct_end.induct)
  case (2 abi off f t fs)
  have "off \<le> align_up (calign abi t) off" by (simp add: align_up_ge)
  with 2 show ?case by simp
qed simp

lemma struct_end_le_sizeof: "struct_end abi 0 S \<le> sizeof abi S"
  by (simp add: sizeof_def align_up_ge)

lemma layout_bounds:
  "(f, p, t) \<in> set (layout abi off S) \<Longrightarrow> off \<le> p \<and> p + csize t \<le> struct_end abi off S"
proof (induction abi off S rule: layout.induct)
  case (2 abi off g u fs)
  let ?p = "align_up (calign abi u) off"
  have le: "off \<le> ?p" by (simp add: align_up_ge)
  show ?case
  proof (cases "(f, p, t) \<in> set (layout abi (?p + csize u) fs)")
    case True
    with "2.IH" le show ?thesis by fastforce
  next
    case False
    with "2.prems" have "p = ?p" "t = u" by (auto simp: Let_def)
    with le show ?thesis by (simp add: struct_end_ge)
  qed
qed simp

lemma layout_disjoint:
  "(f, p, t) \<in> set (layout abi off S) \<Longrightarrow> (g, q, u) \<in> set (layout abi off S) \<Longrightarrow> f \<noteq> g \<Longrightarrow>
   p + csize t \<le> q \<or> q + csize u \<le> p"
proof (induction abi off S rule: layout.induct)
  case (2 abi off h w fs)
  let ?p = "align_up (calign abi w) off"
  have below: "?p + csize w \<le> r"
    if "(k, r, v) \<in> set (layout abi (?p + csize w) fs)" for k r v
    using layout_bounds [OF that] by simp
  from "2.prems" consider
      "f = h" "p = ?p" "t = w" "(g, q, u) \<in> set (layout abi (?p + csize w) fs)"
    | "g = h" "q = ?p" "u = w" "(f, p, t) \<in> set (layout abi (?p + csize w) fs)"
    | "(f, p, t) \<in> set (layout abi (?p + csize w) fs)" "(g, q, u) \<in> set (layout abi (?p + csize w) fs)"
    by (auto simp: Let_def)
  then show ?case
  proof cases
    case 3
    with "2.IH" "2.prems"(3) show ?thesis by blast
  qed (use below in auto)
qed simp

lemma fields_of_layout [simp]: "map fst (layout abi off S) = map fst S"
  by (induction abi off S rule: layout.induct) (auto simp: Let_def)

lemma field_defined: "f \<in> fst ` set S \<Longrightarrow> \<exists>p t. field abi S f = Some (p, t)"
proof -
  assume "f \<in> fst ` set S"
  then have "f \<in> set (map fst (layout abi 0 S))" by simp
  then have "f \<in> fst ` set (layout abi 0 S)" by (simp only: set_map)
  then show ?thesis
    unfolding field_def by (metis domD dom_map_of_conv_image_fst surj_pair)
qed

lemma field_in_layout: "field abi S f = Some (p, t) \<Longrightarrow> (f, p, t) \<in> set (layout abi 0 S)"
  by (simp add: field_def map_of_SomeD)

lemma field_bound: "field abi S f = Some (p, t) \<Longrightarrow> p + csize t \<le> sizeof abi S"
  using layout_bounds [OF field_in_layout] struct_end_le_sizeof by (meson le_trans)

lemma field_disjoint:
  "field abi S f = Some (p, t) \<Longrightarrow> field abi S g = Some (q, u) \<Longrightarrow> f \<noteq> g \<Longrightarrow>
   p + csize t \<le> q \<or> q + csize u \<le> p"
  by (rule layout_disjoint [OF field_in_layout field_in_layout])

text \<open>Assignments to fields of a struct stay inside any buffer that can hold the struct.\<close>

lemma put_field_defined:
  assumes "f \<in> fst ` set S" and "sizeof abi S \<le> length m"
  shows "\<exists>m'. put_field abi S f v m = Some m' \<and> length m' = length m"
proof -
  obtain p t where f: "field abi S f = Some (p, t)" using field_defined [OF assms(1)] by blast
  with assms(2) have "p + csize t \<le> length m" using field_bound le_trans by blast
  then obtain m' where "poke p (nat_le (csize t) v) m = Some m'"
    using poke_defined by (metis length_nat_le)
  with f show ?thesis by (auto simp: put_field_def dest: poke_length)
qed

lemma put_field_length: "put_field abi S f v m = Some m' \<Longrightarrow> length m' = length m"
  by (auto simp: put_field_def poke_length split: option.splits)

lemma get_put_same:
  "put_field abi S f v m = Some m' \<Longrightarrow> field abi S f = Some (p, t) \<Longrightarrow>
   get_field abi S f m' = Some (v mod 256 ^ csize t)"
  by (auto simp: put_field_def get_field_def peek_poke_same)

lemma get_put_other:
  assumes "put_field abi S f v m = Some m'" and "f \<noteq> g"
  shows "get_field abi S g m' = get_field abi S g m"
proof (cases "field abi S g")
  case None
  then show ?thesis by (simp add: get_field_def)
next
  case (Some qu)
  obtain q u where g: "field abi S g = Some (q, u)" using Some by (cases qu) auto
  from assms(1) obtain p t where f: "field abi S f = Some (p, t)"
    by (auto simp: put_field_def split: option.splits)
  have "q + csize u \<le> p \<or> p + csize t \<le> q"
    using field_disjoint [OF f g assms(2)] by blast
  with assms(1) f g show ?thesis
    by (auto simp: put_field_def get_field_def peek_poke_other)
qed

lemma put_fields_defined:
  "fst ` set fvs \<subseteq> fst ` set S \<Longrightarrow> sizeof abi S \<le> length m \<Longrightarrow>
   \<exists>m'. put_fields abi S fvs m = Some m' \<and> length m' = length m"
proof (induction fvs arbitrary: m)
  case (Cons fv fvs)
  obtain f v where fv: "fv = (f, v)" by fastforce
  with Cons.prems have "f \<in> fst ` set S" by auto
  then obtain m1 where m1: "put_field abi S f v m = Some m1" "length m1 = length m"
    using put_field_defined Cons.prems(2) by blast
  with Cons.prems have "sizeof abi S \<le> length m1" "fst ` set fvs \<subseteq> fst ` set S" by auto
  with Cons.IH obtain m' where "put_fields abi S fvs m1 = Some m'" "length m' = length m1" by blast
  with m1 fv show ?case by simp
qed simp

lemma put_fields_length: "put_fields abi S fvs m = Some m' \<Longrightarrow> length m' = length m"
proof (induction fvs arbitrary: m)
  case (Cons fv fvs)
  then show ?case by (cases fv) (auto simp: bind_eq_Some_conv dest: put_field_length)
qed simp

lemma get_put_fields_other:
  "put_fields abi S fvs m = Some m' \<Longrightarrow> g \<notin> fst ` set fvs \<Longrightarrow>
   get_field abi S g m' = get_field abi S g m"
proof (induction fvs arbitrary: m)
  case (Cons fv fvs)
  obtain f v where fv: "fv = (f, v)" by fastforce
  with Cons.prems obtain m1 where "put_field abi S f v m = Some m1" "put_fields abi S fvs m1 = Some m'"
    by (auto simp: bind_eq_Some_conv)
  with Cons fv show ?case by (auto simp: get_put_other)
qed simp

text \<open>Reading a field after the assignments gives the value assigned, cut to the field's width.\<close>

lemma get_put_fields:
  "put_fields abi S fvs m = Some m' \<Longrightarrow> distinct (map fst fvs) \<Longrightarrow> (g, v) \<in> set fvs \<Longrightarrow>
   field abi S g = Some (p, t) \<Longrightarrow> get_field abi S g m' = Some (v mod 256 ^ csize t)"
proof (induction fvs arbitrary: m)
  case (Cons fv fvs)
  obtain f w where fv: "fv = (f, w)" by fastforce
  with Cons.prems obtain m1 where m1: "put_field abi S f w m = Some m1" "put_fields abi S fvs m1 = Some m'"
    by (auto simp: bind_eq_Some_conv)
  show ?case
  proof (cases "(g, v) \<in> set fvs")
    case True
    with Cons m1 fv show ?thesis by auto
  next
    case False
    with Cons.prems fv have g: "g = f" "v = w" "g \<notin> fst ` set fvs" by auto
    then have "get_field abi S g m' = get_field abi S g m1"
      using m1 by (simp add: get_put_fields_other)
    with m1 g Cons.prems show ?thesis by (simp add: get_put_same)
  qed
qed simp

end
