(* ===== verification/RawMessages.thy ===== *)
theory RawMessages
  imports Layout
begin

text \<open>
  The raw message structs of Shared/messageType.h: their fields, their \<open>Init\<close> functions and
  \<open>GetNeededSize\<close>. A struct is named as in the header; \<open>X_Init\<close> models \<open>X::Init\<close>. An argument of
  type \<open>u8 list option\<close> is a \<open>SockAddress*\<close>: \<open>None\<close> is NULL, otherwise the bytes from the pointer to
  the end of the object it points into (a socket address is longer than the two bytes of
  \<open>SockAddress\<close>; its first byte says how long).
\<close>

section \<open>Socket addresses\<close>

definition SockAddress :: struct where
  "SockAddress = [(F_size, CU8), (F_type, CU8)] \<comment> \<open>len, family\<close>"

text \<open>\<open>SockAddress::Copy(from, to)\<close>: \<open>to\<close> is an offset into the message under construction.\<close>

definition SockAddress_Copy :: "u8 list option \<Rightarrow> nat \<Rightarrow> u8 list \<Rightarrow> (nat \<times> u8 list) option" where
  "SockAddress_Copy from off m =
     (case from of
        None \<Rightarrow> do {
          m1 \<leftarrow> poke (off + 1) [0] m;
          m2 \<leftarrow> poke off [2] m1;
          Some (2, m2)
        }
      | Some a \<Rightarrow> do {
          len \<leftarrow> rd_u8 a 0;
          bs \<leftarrow> peek 0 (unat len) a;
          m1 \<leftarrow> poke off bs m;
          Some (unat len, m1)
        })"

text \<open>An address as the kernel passes it: at least the length and family bytes, and as many bytes
  as it says.\<close>

definition sockaddr_ok :: "u8 list option \<Rightarrow> bool" where
  "sockaddr_ok sa \<longleftrightarrow>
     (case sa of None \<Rightarrow> True | Some a \<Rightarrow> a \<noteq> [] \<and> 2 \<le> unat (hd a) \<and> unat (hd a) \<le> length a)"

text \<open>The bytes that \<open>Copy\<close> leaves in the message.\<close>

definition sockaddr_bytes :: "u8 list option \<Rightarrow> u8 list" where
  "sockaddr_bytes sa = (case sa of None \<Rightarrow> [2, 0] | Some a \<Rightarrow> take (unat (hd a)) a)"

text \<open>\<open>GetNeededSize\<close> of the structs that end in one address; the result is cut to 16 bits.\<close>

definition needed_size :: "abi \<Rightarrow> struct \<Rightarrow> u8 list option \<Rightarrow> u16 option" where
  "needed_size abi S sa =
     (case sa of
        None \<Rightarrow> Some (of_nat (sizeof abi S))
      | Some a \<Rightarrow> map_option (\<lambda>len. of_nat (sizeof abi S) + (ucast len - 2)) (rd_u8 a 0))"

section \<open>The structs\<close>

definition RawMessageBase :: struct where
  "RawMessageBase = [(F_size, CU16), (F_type, CU16)]"

text \<open>\<open>RawMessageBase::Init\<close>, as the assignments it makes.\<close>

definition RawMessageBase_Init :: "nat \<Rightarrow> u16 \<Rightarrow> (fname \<times> nat) list" where
  "RawMessageBase_Init sz ty = [(F_size, sz), (F_type, unat ty)]"

definition RawMessageSfltUnregistered :: struct where
  "RawMessageSfltUnregistered = RawMessageBase"

definition RawMessageSfltUnregistered_Init :: "abi \<Rightarrow> u8 list \<Rightarrow> u8 list option" where
  "RawMessageSfltUnregistered_Init abi =
     put_fields abi RawMessageSfltUnregistered
       (RawMessageBase_Init (sizeof abi RawMessageSfltUnregistered) (server_code MessageTypeSfltUnregistered))"

definition RawMessageSfltAttach :: struct where
  "RawMessageSfltAttach = RawMessageBase @ [(F_pid, CU32), (F_uid, CU32), (F_so, CU64), (F_proto, CU16)]"

definition RawMessageSfltAttach_Init :: "abi \<Rightarrow> u32 \<Rightarrow> u32 \<Rightarrow> u64 \<Rightarrow> u16 \<Rightarrow> u8 list \<Rightarrow> u8 list option" where
  "RawMessageSfltAttach_Init abi pid uid so proto =
     put_fields abi RawMessageSfltAttach
       (RawMessageBase_Init (sizeof abi RawMessageSfltAttach) (server_code MessageTypeSfltAttach) @
        [(F_pid, unat pid), (F_uid, unat uid), (F_so, unat so), (F_proto, unat proto)])"

definition RawMessageSfltDetach :: struct where
  "RawMessageSfltDetach = RawMessageBase @ [(F_pid, CU32), (F_uid, CU32), (F_so, CU64)]"

definition RawMessageSfltDetach_Init :: "abi \<Rightarrow> u32 \<Rightarrow> u32 \<Rightarrow> u64 \<Rightarrow> u8 list \<Rightarrow> u8 list option" where
  "RawMessageSfltDetach_Init abi pid uid so =
     put_fields abi RawMessageSfltDetach
       (RawMessageBase_Init (sizeof abi RawMessageSfltDetach) (server_code MessageTypeSfltDetach) @
        [(F_pid, unat pid), (F_uid, unat uid), (F_so, unat so)])"

definition RawMessageSfltNotify :: struct where
  "RawMessageSfltNotify = RawMessageBase @ [(F_pid, CU32), (F_uid, CU32), (F_so, CU64), (F_event, CU16)]"

definition RawMessageSfltNotify_Init :: "abi \<Rightarrow> u32 \<Rightarrow> u32 \<Rightarrow> u64 \<Rightarrow> u16 \<Rightarrow> u8 list \<Rightarrow> u8 list option" where
  "RawMessageSfltNotify_Init abi pid uid so event =
     put_fields abi RawMessageSfltNotify
       (RawMessageBase_Init (sizeof abi RawMessageSfltNotify) (server_code MessageTypeSfltNotify) @
        [(F_pid, unat pid), (F_uid, unat uid), (F_so, unat so), (F_event, unat event)])"

definition RawMessageSfltGetPeerName :: struct where
  "RawMessageSfltGetPeerName =
     RawMessageBase @ [(F_pid, CU32), (F_uid, CU32), (F_so, CU64), (F_sa, CBytes 2)]"

definition RawMessageSfltGetPeerName_Init ::
  "abi \<Rightarrow> u16 \<Rightarrow> u32 \<Rightarrow> u32 \<Rightarrow> u64 \<Rightarrow> u8 list option \<Rightarrow> u8 list \<Rightarrow> u8 list option" where
  "RawMessageSfltGetPeerName_Init abi sz pid uid so sa m = do {
     m1 \<leftarrow> put_fields abi RawMessageSfltGetPeerName
       (RawMessageBase_Init (unat sz) (server_code MessageTypeSfltGetPeerName) @
        [(F_pid, unat pid), (F_uid, unat uid), (F_so, unat so)]) m;
     (n, m2) \<leftarrow> SockAddress_Copy sa (offsetof abi RawMessageSfltGetPeerName F_sa) m1;
     Some m2
   }"

definition RawMessageSfltGetPeerName_GetNeededSize :: "abi \<Rightarrow> u8 list option \<Rightarrow> u16 option" where
  "RawMessageSfltGetPeerName_GetNeededSize abi sa = needed_size abi RawMessageSfltGetPeerName sa"

definition RawMessageSfltGetSockName :: struct where
  "RawMessageSfltGetSockName =
     RawMessageBase @ [(F_pid, CU32), (F_uid, CU32), (F_so, CU64), (F_sa, CBytes 2)]"

definition RawMessageSfltGetSockName_Init ::
  "abi \<Rightarrow> u16 \<Rightarrow> u32 \<Rightarrow> u32 \<Rightarrow> u64 \<Rightarrow> u8 list option \<Rightarrow> u8 list \<Rightarrow> u8 list option" where
  "RawMessageSfltGetSockName_Init abi sz pid uid so sa m = do {
     m1 \<leftarrow> put_fields abi RawMessageSfltGetSockName
       (RawMessageBase_Init (unat sz) (server_code MessageTypeSfltGetSockName) @
        [(F_pid, unat pid), (F_uid, unat uid), (F_so, unat so)]) m;
     (n, m2) \<leftarrow> SockAddress_Copy sa (offsetof abi RawMessageSfltGetSockName F_sa) m1;
     Some m2
   }"

definition RawMessageSfltGetSockName_GetNeededSize :: "abi \<Rightarrow> u8 list option \<Rightarrow> u16 option" where
  "RawMessageSfltGetSockName_GetNeededSize abi sa = needed_size abi RawMessageSfltGetSockName sa"

definition RawMessageSfltDataIn :: struct where
  "RawMessageSfltDataIn =
     RawMessageBase @ [(F_pid, CU32), (F_uid, CU32), (F_so, CU64), (F_proto, CU16), (F_sa, CBytes 2)]"

definition RawMessageSfltDataIn_Init ::
  "abi \<Rightarrow> u16 \<Rightarrow> u32 \<Rightarrow> u32 \<Rightarrow> u64 \<Rightarrow> u16 \<Rightarrow> u8 list option \<Rightarrow> u8 list \<Rightarrow> u8 list option" where
  "RawMessageSfltDataIn_Init abi sz pid uid so proto sa m = do {
     m1 \<leftarrow> put_fields abi RawMessageSfltDataIn
       (RawMessageBase_Init (unat sz) (server_code MessageTypeSfltDataIn) @
        [(F_pid, unat pid), (F_uid, unat uid), (F_so, unat so), (F_proto, unat proto)]) m;
     (n, m2) \<leftarrow> SockAddress_Copy sa (offsetof abi RawMessageSfltDataIn F_sa) m1;
     Some m2
   }"

definition RawMessageSfltDataIn_GetNeededSize :: "abi \<Rightarrow> u8 list option \<Rightarrow> u16 option" where
  "RawMessageSfltDataIn_GetNeededSize abi sa = needed_size abi RawMessageSfltDataIn sa"

definition RawMessageSfltDataOut :: struct where
  "RawMessageSfltDataOut =
     RawMessageBase @ [(F_pid, CU32), (F_uid, CU32), (F_so, CU64), (F_proto, CU16), (F_sa, CBytes 2)]"

definition RawMessageSfltDataOut_Init ::
  "abi \<Rightarrow> u16 \<Rightarrow> u32 \<Rightarrow> u32 \<Rightarrow> u64 \<Rightarrow> u16 \<Rightarrow> u8 list option \<Rightarrow> u8 list \<Rightarrow> u8 list option" where
  "RawMessageSfltDataOut_Init abi sz pid uid so proto sa m = do {
     m1 \<leftarrow> put_fields abi RawMessageSfltDataOut
       (RawMessageBase_Init (unat sz) (server_code MessageTypeSfltDataOut) @
        [(F_pid, unat pid), (F_uid, unat uid), (F_so, unat so), (F_proto, unat proto)]) m;
     (n, m2) \<leftarrow> SockAddress_Copy sa (offsetof abi RawMessageSfltDataOut F_sa) m1;
     Some m2
   }"

definition RawMessageSfltDataOut_GetNeededSize :: "abi \<Rightarrow> u8 list option \<Rightarrow> u16 option" where
  "RawMessageSfltDataOut_GetNeededSize abi sa = needed_size abi RawMessageSfltDataOut sa"

definition RawMessageSfltConnectIn :: struct where
  "RawMessageSfltConnectIn =
     RawMessageBase @ [(F_pid, CU32), (F_uid, CU32), (F_so, CU64), (F_sa, CBytes 2)]"

definition RawMessageSfltConnectIn_Init ::
  "abi \<Rightarrow> u16 \<Rightarrow> u32 \<Rightarrow> u32 \<Rightarrow> u64 \<Rightarrow> u8 list option \<Rightarrow> u8 list \<Rightarrow> u8 list option" where
  "RawMessageSfltConnectIn_Init abi sz pid uid so sa m = do {
     m1 \<leftarrow> put_fields abi RawMessageSfltConnectIn
       (RawMessageBase_Init (unat sz) (server_code MessageTypeSfltConnectIn) @
        [(F_pid, unat pid), (F_uid, unat uid), (F_so, unat so)]) m;
     (n, m2) \<leftarrow> SockAddress_Copy sa (offsetof abi RawMessageSfltConnectIn F_sa) m1;
     Some m2
   }"

definition RawMessageSfltConnectIn_GetNeededSize :: "abi \<Rightarrow> u8 list option \<Rightarrow> u16 option" where
  "RawMessageSfltConnectIn_GetNeededSize abi sa = needed_size abi RawMessageSfltConnectIn sa"

definition RawMessageSfltConnectOut :: struct where
  "RawMessageSfltConnectOut =
     RawMessageBase @ [(F_pid, CU32), (F_uid, CU32), (F_so, CU64), (F_sa, CBytes 2)]"

definition RawMessageSfltConnectOut_Init ::
  "abi \<Rightarrow> u16 \<Rightarrow> u32 \<Rightarrow> u32 \<Rightarrow> u64 \<Rightarrow> u8 list option \<Rightarrow> u8 list \<Rightarrow> u8 list option" where
  "RawMessageSfltConnectOut_Init abi sz pid uid so sa m = do {
     m1 \<leftarrow> put_fields abi RawMessageSfltConnectOut
       (RawMessageBase_Init (unat sz) (server_code MessageTypeSfltConnectOut) @
        [(F_pid, unat pid), (F_uid, unat uid), (F_so, unat so)]) m;
     (n, m2) \<leftarrow> SockAddress_Copy sa (offsetof abi RawMessageSfltConnectOut F_sa) m1;
     Some m2
   }"

definition RawMessageSfltConnectOut_GetNeededSize :: "abi \<Rightarrow> u8 list option \<Rightarrow> u16 option" where
  "RawMessageSfltConnectOut_GetNeededSize abi sa = needed_size abi RawMessageSfltConnectOut sa"

definition RawMessageSfltBind :: struct where
  "RawMessageSfltBind =
     RawMessageBase @ [(F_pid, CU32), (F_uid, CU32), (F_so, CU64), (F_sa, CBytes 2)]"

definition RawMessageSfltBind_Init ::
  "abi \<Rightarrow> u16 \<Rightarrow> u32 \<Rightarrow> u32 \<Rightarrow> u64 \<Rightarrow> u8 list option \<Rightarrow> u8 list \<Rightarrow> u8 list option" where
  "RawMessageSfltBind_Init abi sz pid uid so sa m = do {
     m1 \<leftarrow> put_fields abi RawMessageSfltBind
       (RawMessageBase_Init (unat sz) (server_code MessageTypeSfltBind) @
        [(F_pid, unat pid), (F_uid, unat uid), (F_so, unat so)]) m;
     (n, m2) \<leftarrow> SockAddress_Copy sa (offsetof abi RawMessageSfltBind F_sa) m1;
     Some m2
   }"

definition RawMessageSfltBind_GetNeededSize :: "abi \<Rightarrow> u8 list option \<Rightarrow> u16 option" where
  "RawMessageSfltBind_GetNeededSize abi sa = needed_size abi RawMessageSfltBind sa"

definition RawMessageSfltSetOption :: struct where
  "RawMessageSfltSetOption = RawMessageBase @ [(F_pid, CU32), (F_uid, CU32), (F_so, CU64), (F_optionName, CU32)]"

definition RawMessageSfltSetOption_Init :: "abi \<Rightarrow> u32 \<Rightarrow> u32 \<Rightarrow> u64 \<Rightarrow> u32 \<Rightarrow> u8 list \<Rightarrow> u8 list option" where
  "RawMessageSfltSetOption_Init abi pid uid so optionName =
     put_fields abi RawMessageSfltSetOption
       (RawMessageBase_Init (sizeof abi RawMessageSfltSetOption) (server_code MessageTypeSfltSetOption) @
        [(F_pid, unat pid), (F_uid, unat uid), (F_so, unat so), (F_optionName, unat optionName)])"

definition RawMessageSfltGetOption :: struct where
  "RawMessageSfltGetOption = RawMessageBase @ [(F_pid, CU32), (F_uid, CU32), (F_so, CU64), (F_optionName, CU32)]"

definition RawMessageSfltGetOption_Init :: "abi \<Rightarrow> u32 \<Rightarrow> u32 \<Rightarrow> u64 \<Rightarrow> u32 \<Rightarrow> u8 list \<Rightarrow> u8 list option" where
  "RawMessageSfltGetOption_Init abi pid uid so optionName =
     put_fields abi RawMessageSfltGetOption
       (RawMessageBase_Init (sizeof abi RawMessageSfltGetOption) (server_code MessageTypeSfltGetOption) @
        [(F_pid, unat pid), (F_uid, unat uid), (F_so, unat so), (F_optionName, unat optionName)])"

definition RawMessageSfltListen :: struct where
  "RawMessageSfltListen = RawMessageBase @ [(F_pid, CU32), (F_uid, CU32), (F_so, CU64)]"

definition RawMessageSfltListen_Init :: "abi \<Rightarrow> u32 \<Rightarrow> u32 \<Rightarrow> u64 \<Rightarrow> u8 list \<Rightarrow> u8 list option" where
  "RawMessageSfltListen_Init abi pid uid so =
     put_fields abi RawMessageSfltListen
       (RawMessageBase_Init (sizeof abi RawMessageSfltListen) (server_code MessageTypeSfltListen) @
        [(F_pid, unat pid), (F_uid, unat uid), (F_so, unat so)])"

definition RawMessageSfltIoctl :: struct where
  "RawMessageSfltIoctl = RawMessageBase @ [(F_pid, CU32), (F_uid, CU32), (F_so, CU64), (F_request, CU32)]"

definition RawMessageSfltIoctl_Init :: "abi \<Rightarrow> u32 \<Rightarrow> u32 \<Rightarrow> u64 \<Rightarrow> u32 \<Rightarrow> u8 list \<Rightarrow> u8 list option" where
  "RawMessageSfltIoctl_Init abi pid uid so request =
     put_fields abi RawMessageSfltIoctl
       (RawMessageBase_Init (sizeof abi RawMessageSfltIoctl) (server_code MessageTypeSfltIoctl) @
        [(F_pid, unat pid), (F_uid, unat uid), (F_so, unat so), (F_request, unat request)])"

text \<open>Two addresses, one after the other, in the trailing bytes.\<close>

definition RawMessageSfltAccept :: struct where
  "RawMessageSfltAccept =
     RawMessageBase @ [(F_pid, CU32), (F_uid, CU32), (F_soListen, CU64), (F_so, CU64), (F_data, CBytes 4)]"

definition RawMessageSfltAccept_Init ::
  "abi \<Rightarrow> u16 \<Rightarrow> u32 \<Rightarrow> u32 \<Rightarrow> u64 \<Rightarrow> u64 \<Rightarrow> u8 list option \<Rightarrow> u8 list option \<Rightarrow> u8 list \<Rightarrow> u8 list option" where
  "RawMessageSfltAccept_Init abi sz pid uid soListen so local remote m = do {
     m1 \<leftarrow> put_fields abi RawMessageSfltAccept
       (RawMessageBase_Init (unat sz) (server_code MessageTypeSfltAccept) @
        [(F_pid, unat pid), (F_uid, unat uid), (F_soListen, unat soListen), (F_so, unat so)]) m;
     (offset, m2) \<leftarrow> SockAddress_Copy local (offsetof abi RawMessageSfltAccept F_data) m1;
     (n, m3) \<leftarrow> SockAddress_Copy remote (offsetof abi RawMessageSfltAccept F_data + offset) m2;
     Some m3
   }"

definition RawMessageSfltAccept_GetNeededSize :: "abi \<Rightarrow> u8 list option \<Rightarrow> u8 list option \<Rightarrow> u16 option" where
  "RawMessageSfltAccept_GetNeededSize abi local remote = do {
     l \<leftarrow> (case local of None \<Rightarrow> Some 2 | Some a \<Rightarrow> rd_u8 a 0);
     r \<leftarrow> (case remote of None \<Rightarrow> Some 2 | Some a \<Rightarrow> rd_u8 a 0);
     Some (of_nat (sizeof abi RawMessageSfltAccept) + ucast l + ucast r - 4)
   }"

text \<open>\<open>GetLocal\<close> and \<open>GetRemote\<close>: the address as the receiver reads it, from its length byte.\<close>

definition read_sockaddr :: "nat \<Rightarrow> u8 list \<Rightarrow> u8 list option" where
  "read_sockaddr off m = do { len \<leftarrow> rd_u8 m off; peek off (unat len) m }"

definition RawMessageSfltAccept_GetLocal :: "abi \<Rightarrow> u8 list \<Rightarrow> u8 list option" where
  "RawMessageSfltAccept_GetLocal abi m = read_sockaddr (offsetof abi RawMessageSfltAccept F_data) m"

definition RawMessageSfltAccept_GetRemote :: "abi \<Rightarrow> u8 list \<Rightarrow> u8 list option" where
  "RawMessageSfltAccept_GetRemote abi m = do {
     len \<leftarrow> rd_u8 m (offsetof abi RawMessageSfltAccept F_data);
     read_sockaddr (offsetof abi RawMessageSfltAccept F_data + unat len) m
   }"

definition RawMessageFirewallClosing :: struct where
  "RawMessageFirewallClosing = RawMessageBase"

definition RawMessageFirewallClosing_Init :: "abi \<Rightarrow> u8 list \<Rightarrow> u8 list option" where
  "RawMessageFirewallClosing_Init abi =
     put_fields abi RawMessageFirewallClosing
       (RawMessageBase_Init (sizeof abi RawMessageFirewallClosing) (server_code MessageTypeFirewallClosing))"

definition RawMessageSocketData :: struct where
  "RawMessageSocketData =
     RawMessageBase @
       [(F_stateOperation, CU8), (F_direction, CU8), (F_stateByRuleId, CU32), (F_pid, CU32),
        (F_uid, CU32), (F_so, CU64), (F_packets, CU32), (F_bytes, CU32), (F_data, CBytes 3)]"

definition RawMessageSocketData_Init ::
  "abi \<Rightarrow> u16 \<Rightarrow> u8 \<Rightarrow> u8 \<Rightarrow> u32 \<Rightarrow> u32 \<Rightarrow> u32 \<Rightarrow> u64 \<Rightarrow> u32 \<Rightarrow> u32 \<Rightarrow>
   u8 list option \<Rightarrow> u8 list option \<Rightarrow> u8 list \<Rightarrow> u8 list option" where
  "RawMessageSocketData_Init abi sz direction stateOperation stateByRuleId pid uid so packets bytes from to m = do {
     m1 \<leftarrow> put_fields abi RawMessageSocketData
       (RawMessageBase_Init (unat sz) (server_code MessageTypeSocketData) @
        [(F_stateOperation, unat stateOperation), (F_stateByRuleId, unat stateByRuleId),
         (F_pid, unat pid), (F_uid, unat uid), (F_so, unat so), (F_packets, unat packets),
         (F_bytes, unat bytes), (F_direction, unat direction)]) m;
     (n1, m2) \<leftarrow> SockAddress_Copy from (offsetof abi RawMessageSocketData F_data) m1;
     (n2, m3) \<leftarrow> SockAddress_Copy to (offsetof abi RawMessageSocketData F_data + n1) m2;
     Some m3
   }"

definition RawMessageSocketData_GetFromSocketAddress :: "abi \<Rightarrow> u8 list \<Rightarrow> u8 list option" where
  "RawMessageSocketData_GetFromSocketAddress abi m = read_sockaddr (offsetof abi RawMessageSocketData F_data) m"

definition RawMessageSocketData_GetToSocketAddress :: "abi \<Rightarrow> u8 list \<Rightarrow> u8 list option" where
  "RawMessageSocketData_GetToSocketAddress abi m = do {
     len \<leftarrow> rd_u8 m (offsetof abi RawMessageSocketData F_data);
     read_sockaddr (offsetof abi RawMessageSocketData F_data + unat len) m
   }"

definition RawMessageSocketData_GetProcessName :: "u8 list \<Rightarrow> ptr" where
  "RawMessageSocketData_GetProcessName m = None"

definition RawMessageSocketOpen :: struct where
  "RawMessageSocketOpen = RawMessageBase @ [(F_so, CU64)]"

definition RawMessageSocketOpen_Init :: "abi \<Rightarrow> u64 \<Rightarrow> u8 list \<Rightarrow> u8 list option" where
  "RawMessageSocketOpen_Init abi so =
     put_fields abi RawMessageSocketOpen
       (RawMessageBase_Init (sizeof abi RawMessageSocketOpen) (server_code MessageTypeSocketOpen) @ [(F_so, unat so)])"

definition RawMessageSocketClosed :: struct where
  "RawMessageSocketClosed = RawMessageBase @ [(F_so, CU64)]"

definition RawMessageSocketClosed_Init :: "abi \<Rightarrow> u64 \<Rightarrow> u8 list \<Rightarrow> u8 list option" where
  "RawMessageSocketClosed_Init abi so =
     put_fields abi RawMessageSocketClosed
       (RawMessageBase_Init (sizeof abi RawMessageSocketClosed) (server_code MessageTypeSocketClosed) @ [(F_so, unat so)])"

section \<open>Responses to client actions\<close>

definition RawMessageClientActionResponse :: struct where
  "RawMessageClientActionResponse =
     RawMessageBase @ [(F_unitId, CU32), (F_clientMessageId, CU32), (F_actionState, CU32)]"

definition RawMessageClientActionResponse_Init ::
  "nat \<Rightarrow> u16 \<Rightarrow> u32 \<Rightarrow> u32 \<Rightarrow> u32 \<Rightarrow> (fname \<times> nat) list" where
  "RawMessageClientActionResponse_Init sz ty unitId clientMessageId actionState =
     RawMessageBase_Init sz ty @
     [(F_unitId, unat unitId), (F_clientMessageId, unat clientMessageId), (F_actionState, unat actionState)]"

definition RawMessageRuleAdded :: struct where
  "RawMessageRuleAdded = RawMessageClientActionResponse @ [(F_ruleId, CU32)]"

definition RawMessageRuleAdded_Init ::
  "abi \<Rightarrow> u32 \<Rightarrow> u32 \<Rightarrow> u32 \<Rightarrow> u32 \<Rightarrow> u8 list \<Rightarrow> u8 list option" where
  "RawMessageRuleAdded_Init abi unitId clientMessageId actionState ruleId =
     put_fields abi RawMessageRuleAdded
       (RawMessageClientActionResponse_Init (sizeof abi RawMessageRuleAdded) (server_code MessageTypeRuleAdded)
          unitId clientMessageId actionState @ [(F_ruleId, unat ruleId)])"

definition RawMessageRuleDeleted :: struct where
  "RawMessageRuleDeleted = RawMessageClientActionResponse @ [(F_ruleId, CU32)]"

definition RawMessageRuleDeleted_Init ::
  "abi \<Rightarrow> u32 \<Rightarrow> u32 \<Rightarrow> u32 \<Rightarrow> u32 \<Rightarrow> u8 list \<Rightarrow> u8 list option" where
  "RawMessageRuleDeleted_Init abi unitId clientMessageId actionState ruleId =
     put_fields abi RawMessageRuleDeleted
       (RawMessageClientActionResponse_Init (sizeof abi RawMessageRuleDeleted) (server_code MessageTypeRuleDeleted)
          unitId clientMessageId actionState @ [(F_ruleId, unat ruleId)])"

definition RawMessageRuleDeactivated :: struct where
  "RawMessageRuleDeactivated = RawMessageClientActionResponse @ [(F_ruleId, CU32)]"

definition RawMessageRuleDeactivated_Init ::
  "abi \<Rightarrow> u32 \<Rightarrow> u32 \<Rightarrow> u32 \<Rightarrow> u32 \<Rightarrow> u8 list \<Rightarrow> u8 list option" where
  "RawMessageRuleDeactivated_Init abi unitId clientMessageId actionState ruleId =
     put_fields abi RawMessageRuleDeactivated
       (RawMessageClientActionResponse_Init (sizeof abi RawMessageRuleDeactivated) (server_code MessageTypeRuleDeactivated)
          unitId clientMessageId actionState @ [(F_ruleId, unat ruleId)])"

definition RawMessageRuleActivated :: struct where
  "RawMessageRuleActivated = RawMessageClientActionResponse @ [(F_ruleId, CU32)]"

definition RawMessageRuleActivated_Init ::
  "abi \<Rightarrow> u32 \<Rightarrow> u32 \<Rightarrow> u32 \<Rightarrow> u32 \<Rightarrow> u8 list \<Rightarrow> u8 list option" where
  "RawMessageRuleActivated_Init abi unitId clientMessageId actionState ruleId =
     put_fields abi RawMessageRuleActivated
       (RawMessageClientActionResponse_Init (sizeof abi RawMessageRuleActivated) (server_code MessageTypeRuleActivated)
          unitId clientMessageId actionState @ [(F_ruleId, unat ruleId)])"

definition RawMessageClientSubscribedAsaProviderOfRules :: struct where
  "RawMessageClientSubscribedAsaProviderOfRules = RawMessageClientActionResponse"

definition RawMessageClientSubscribedAsaProviderOfRules_Init ::
  "abi \<Rightarrow> u32 \<Rightarrow> u32 \<Rightarrow> u32 \<Rightarrow> u8 list \<Rightarrow> u8 list option" where
  "RawMessageClientSubscribedAsaProviderOfRules_Init abi unitId clientMessageId actionState =
     put_fields abi RawMessageClientSubscribedAsaProviderOfRules
       (RawMessageClientActionResponse_Init
          (sizeof abi RawMessageClientSubscribedAsaProviderOfRules)
          (server_code MessageTypeClientSubscribedAsaProviderOfRules) unitId clientMessageId actionState)"

definition RawMessageClientUnsubscribedAsaProviderOfRules :: struct where
  "RawMessageClientUnsubscribedAsaProviderOfRules = RawMessageClientActionResponse"

definition RawMessageClientUnsubscribedAsaProviderOfRules_Init ::
  "abi \<Rightarrow> u32 \<Rightarrow> u32 \<Rightarrow> u32 \<Rightarrow> u8 list \<Rightarrow> u8 list option" where
  "RawMessageClientUnsubscribedAsaProviderOfRules_Init abi unitId clientMessageId actionState =
     put_fields abi RawMessageClientUnsubscribedAsaProviderOfRules
       (RawMessageClientActionResponse_Init
          (sizeof abi RawMessageClientUnsubscribedAsaProviderOfRules)
          (server_code MessageTypeClientUnsubscribedAsaProviderOfRules) unitId clientMessageId actionState)"

definition RawMessageClientSubscribedToInfoRules :: struct where
  "RawMessageClientSubscribedToInfoRules = RawMessageClientActionResponse"

definition RawMessageClientSubscribedToInfoRules_Init ::
  "abi \<Rightarrow> u32 \<Rightarrow> u32 \<Rightarrow> u32 \<Rightarrow> u8 list \<Rightarrow> u8 list option" where
  "RawMessageClientSubscribedToInfoRules_Init abi unitId clientMessageId actionState =
     put_fields abi RawMessageClientSubscribedToInfoRules
       (RawMessageClientActionResponse_Init
          (sizeof abi RawMessageClientSubscribedToInfoRules)
          (server_code MessageTypeClientSubscribedToInfoRules) unitId clientMessageId actionState)"

definition RawMessageClientUnsubscribedFromInfoRules :: struct where
  "RawMessageClientUnsubscribedFromInfoRules = RawMessageClientActionResponse"

definition RawMessageClientUnsubscribedFromInfoRules_Init ::
  "abi \<Rightarrow> u32 \<Rightarrow> u32 \<Rightarrow> u32 \<Rightarrow> u8 list \<Rightarrow> u8 list option" where
  "RawMessageClientUnsubscribedFromInfoRules_Init abi unitId clientMessageId actionState =
     put_fields abi RawMessageClientUnsubscribedFromInfoRules
       (RawMessageClientActionResponse_Init
          (sizeof abi RawMessageClientUnsubscribedFromInfoRules)
          (server_code MessageTypeClientUnsubscribedFromInfoRules) unitId clientMessageId actionState)"

definition RawMessageClientSubscribedToInfoSockets :: struct where
  "RawMessageClientSubscribedToInfoSockets = RawMessageClientActionResponse"

definition RawMessageClientSubscribedToInfoSockets_Init ::
  "abi \<Rightarrow> u32 \<Rightarrow> u32 \<Rightarrow> u32 \<Rightarrow> u8 list \<Rightarrow> u8 list option" where
  "RawMessageClientSubscribedToInfoSockets_Init abi unitId clientMessageId actionState =
     put_fields abi RawMessageClientSubscribedToInfoSockets
       (RawMessageClientActionResponse_Init
          (sizeof abi RawMessageClientSubscribedToInfoSockets)
          (server_code MessageTypeClientSubscribedToInfoSockets) unitId clientMessageId actionState)"

definition RawMessageClientUnsubscribedFromInfoSockets :: struct where
  "RawMessageClientUnsubscribedFromInfoSockets = RawMessageClientActionResponse"

definition RawMessageClientUnsubscribedFromInfoSockets_Init ::
  "abi \<Rightarrow> u32 \<Rightarrow> u32 \<Rightarrow> u32 \<Rightarrow> u8 list \<Rightarrow> u8 list option" where
  "RawMessageClientUnsubscribedFromInfoSockets_Init abi unitId clientMessageId actionState =
     put_fields abi RawMessageClientUnsubscribedFromInfoSockets
       (RawMessageClientActionResponse_Init
          (sizeof abi RawMessageClientUnsubscribedFromInfoSockets)
          (server_code MessageTypeClientUnsubscribedFromInfoSockets) unitId clientMessageId actionState)"

definition RawMessageFirewallActivated :: struct where
  "RawMessageFirewallActivated = RawMessageClientActionResponse"

definition RawMessageFirewallActivated_Init ::
  "abi \<Rightarrow> u32 \<Rightarrow> u32 \<Rightarrow> u32 \<Rightarrow> u8 list \<Rightarrow> u8 list option" where
  "RawMessageFirewallActivated_Init abi unitId clientMessageId actionState =
     put_fields abi RawMessageFirewallActivated
       (RawMessageClientActionResponse_Init
          (sizeof abi RawMessageFirewallActivated)
          (server_code MessageTypeFirewallActivated) unitId clientMessageId actionState)"

definition RawMessageFirewallDeactivated :: struct where
  "RawMessageFirewallDeactivated = RawMessageClientActionResponse"

definition RawMessageFirewallDeactivated_Init ::
  "abi \<Rightarrow> u32 \<Rightarrow> u32 \<Rightarrow> u32 \<Rightarrow> u8 list \<Rightarrow> u8 list option" where
  "RawMessageFirewallDeactivated_Init abi unitId clientMessageId actionState =
     put_fields abi RawMessageFirewallDeactivated
       (RawMessageClientActionResponse_Init
          (sizeof abi RawMessageFirewallDeactivated)
          (server_code MessageTypeFirewallDeactivated) unitId clientMessageId actionState)"

section \<open>Messages of the clients\<close>

definition RawMessageClientAction :: struct where
  "RawMessageClientAction = RawMessageBase @ [(F_messageId, CU32)]"

definition RawMessageClientAction_Init :: "nat \<Rightarrow> u16 \<Rightarrow> u32 \<Rightarrow> (fname \<times> nat) list" where
  "RawMessageClientAction_Init sz ty messageId =
     RawMessageBase_Init sz ty @ [(F_messageId, unat messageId)]"

definition RawMessageAddRule :: struct where
  "RawMessageAddRule =
     RawMessageClientAction @
       [(F_id, CU32), (F_processNameOffset, CU16), (F_filePathOffset, CU16), (F_sockDomain, CU16),
        (F_sockType, CU16), (F_sockProtocol, CU16), (F_fromSockAddressOffset, CU16),
        (F_toSockAddressOffset, CU16), (F_direction, CU8), (F_allow, CU8), (F_state, CU8),
        (F_buffer, CBytes 1)]"

text \<open>
  The accessors of \<open>RawMessageAddRule\<close>: strings and addresses live at offsets, counted from the
  start of the message, that the client wrote; offset 0 of an address is "no address". \<open>m\<close> is the
  memory from the message on.
\<close>

definition GetProcessName :: "abi \<Rightarrow> u8 list \<Rightarrow> u8 list option" where
  "GetProcessName abi m =
     do { off \<leftarrow> get_field abi RawMessageAddRule F_processNameOffset m; cstring_at m off }"

definition GetFilePath :: "abi \<Rightarrow> u8 list \<Rightarrow> u8 list option" where
  "GetFilePath abi m =
     do { off \<leftarrow> get_field abi RawMessageAddRule F_filePathOffset m; cstring_at m off }"

definition GetFromSockAddress :: "abi \<Rightarrow> u8 list \<Rightarrow> ptr option" where
  "GetFromSockAddress abi m =
     do { off \<leftarrow> get_field abi RawMessageAddRule F_fromSockAddressOffset m;
          Some (if off = 0 then None else Some off) }"

definition GetToSockAddress :: "abi \<Rightarrow> u8 list \<Rightarrow> ptr option" where
  "GetToSockAddress abi m =
     do { off \<leftarrow> get_field abi RawMessageAddRule F_toSockAddressOffset m;
          Some (if off = 0 then None else Some off) }"

definition RawMessageDeleteRule :: struct where
  "RawMessageDeleteRule = RawMessageClientAction @ [(F_ruleId, CU32)]"

definition RawMessageDeleteRule_Init :: "abi \<Rightarrow> u32 \<Rightarrow> u32 \<Rightarrow> u8 list \<Rightarrow> u8 list option" where
  "RawMessageDeleteRule_Init abi messageId ruleId =
     put_fields abi RawMessageDeleteRule
       (RawMessageClientAction_Init (sizeof abi RawMessageDeleteRule) (client_code MessageTypeDeleteRule) messageId @
        [(F_ruleId, unat ruleId)])"

definition RawMessageActivateRule :: struct where
  "RawMessageActivateRule = RawMessageClientAction @ [(F_ruleId, CU32)]"

definition RawMessageActivateRule_Init :: "abi \<Rightarrow> u32 \<Rightarrow> u32 \<Rightarrow> u8 list \<Rightarrow> u8 list option" where
  "RawMessageActivateRule_Init abi messageId ruleId =
     put_fields abi RawMessageActivateRule
       (RawMessageClientAction_Init (sizeof abi RawMessageActivateRule) (client_code MessageTypeActivateRule) messageId @
        [(F_ruleId, unat ruleId)])"

definition RawMessageDeactivateRule :: struct where
  "RawMessageDeactivateRule = RawMessageClientAction @ [(F_ruleId, CU32)]"

definition RawMessageDeactivateRule_Init :: "abi \<Rightarrow> u32 \<Rightarrow> u32 \<Rightarrow> u8 list \<Rightarrow> u8 list option" where
  "RawMessageDeactivateRule_Init abi messageId ruleId =
     put_fields abi RawMessageDeactivateRule
       (RawMessageClientAction_Init (sizeof abi RawMessageDeactivateRule) (client_code MessageTypeDeactivateRule) messageId @
        [(F_ruleId, unat ruleId)])"

definition RawMessageActivateFirewall :: struct where
  "RawMessageActivateFirewall = RawMessageClientAction"

definition RawMessageActivateFirewall_Init :: "abi \<Rightarrow> u32 \<Rightarrow> u8 list \<Rightarrow> u8 list option" where
  "RawMessageActivateFirewall_Init abi messageId =
     put_fields abi RawMessageActivateFirewall
       (RawMessageClientAction_Init (sizeof abi RawMessageActivateFirewall)
          (client_code MessageTypeActivateFirewall) messageId)"

definition RawMessageDeactivateFirewall :: struct where
  "RawMessageDeactivateFirewall = RawMessageClientAction"

definition RawMessageDeactivateFirewall_Init :: "abi \<Rightarrow> u32 \<Rightarrow> u8 list \<Rightarrow> u8 list option" where
  "RawMessageDeactivateFirewall_Init abi messageId =
     put_fields abi RawMessageDeactivateFirewall
       (RawMessageClientAction_Init (sizeof abi RawMessageDeactivateFirewall)
          (client_code MessageTypeDeactivateFirewall) messageId)"

definition RawMessageSubscribeAsaProviderOfRules :: struct where
  "RawMessageSubscribeAsaProviderOfRules = RawMessageClientAction"

definition RawMessageSubscribeAsaProviderOfRules_Init :: "abi \<Rightarrow> u32 \<Rightarrow> u8 list \<Rightarrow> u8 list option" where
  "RawMessageSubscribeAsaProviderOfRules_Init abi messageId =
     put_fields abi RawMessageSubscribeAsaProviderOfRules
       (RawMessageClientAction_Init (sizeof abi RawMessageSubscribeAsaProviderOfRules)
          (client_code MessageTypeSubscribeAsaProviderOfRules) messageId)"

definition RawMessageUnsubscribeAsaProviderOfRules :: struct where
  "RawMessageUnsubscribeAsaProviderOfRules = RawMessageClientAction"

definition RawMessageUnsubscribeAsaProviderOfRules_Init :: "abi \<Rightarrow> u32 \<Rightarrow> u8 list \<Rightarrow> u8 list option" where
  "RawMessageUnsubscribeAsaProviderOfRules_Init abi messageId =
     put_fields abi RawMessageUnsubscribeAsaProviderOfRules
       (RawMessageClientAction_Init (sizeof abi RawMessageUnsubscribeAsaProviderOfRules)
          (client_code MessageTypeUnsubscribeAsaProviderOfRules) messageId)"

definition RawMessageSubscribeToInfoRules :: struct where
  "RawMessageSubscribeToInfoRules = RawMessageClientAction"

definition RawMessageSubscribeToInfoRules_Init :: "abi \<Rightarrow> u32 \<Rightarrow> u8 list \<Rightarrow> u8 list option" where
  "RawMessageSubscribeToInfoRules_Init abi messageId =
     put_fields abi RawMessageSubscribeToInfoRules
       (RawMessageClientAction_Init (sizeof abi RawMessageSubscribeToInfoRules)
          (client_code MessageTypeSubscribeToInfoRules) messageId)"

definition RawMessageUnsubscribeFromInfoRules :: struct where
  "RawMessageUnsubscribeFromInfoRules = RawMessageClientAction"

definition RawMessageUnsubscribeFromInfoRules_Init :: "abi \<Rightarrow> u32 \<Rightarrow> u8 list \<Rightarrow> u8 list option" where
  "RawMessageUnsubscribeFromInfoRules_Init abi messageId =
     put_fields abi RawMessageUnsubscribeFromInfoRules
       (RawMessageClientAction_Init (sizeof abi RawMessageUnsubscribeFromInfoRules)
          (client_code MessageTypeUnsubscribeFromInfoRules) messageId)"

definition RawMessageSubscribeToInfoSockets :: struct where
  "RawMessageSubscribeToInfoSockets = RawMessageClientAction"

definition RawMessageSubscribeToInfoSockets_Init :: "abi \<Rightarrow> u32 \<Rightarrow> u8 list \<Rightarrow> u8 list option" where
  "RawMessageSubscribeToInfoSockets_Init abi messageId =
     put_fields abi RawMessageSubscribeToInfoSockets
       (RawMessageClientAction_Init (sizeof abi RawMessageSubscribeToInfoSockets)
          (client_code MessageTypeSubscribeToInfoSockets) messageId)"

definition RawMessageUnsubscribeFromInfoSockets :: struct where
  "RawMessageUnsubscribeFromInfoSockets = RawMessageClientAction"

definition RawMessageUnsubscribeFromInfoSockets_Init :: "abi \<Rightarrow> u32 \<Rightarrow> u8 list \<Rightarrow> u8 list option" where
  "RawMessageUnsubscribeFromInfoSockets_Init abi messageId =
     put_fields abi RawMessageUnsubscribeFromInfoSockets
       (RawMessageClientAction_Init (sizeof abi RawMessageUnsubscribeFromInfoSockets)
          (client_code MessageTypeUnsubscribeFromInfoSockets) messageId)"

section \<open>Facts\<close>

lemmas struct_defs =
  RawMessageBase_def RawMessageSfltUnregistered_def RawMessageSfltAttach_def
  RawMessageSfltDetach_def RawMessageSfltNotify_def RawMessageSfltGetPeerName_def
  RawMessageSfltGetSockName_def RawMessageSfltDataIn_def RawMessageSfltDataOut_def
  RawMessageSfltConnectIn_def RawMessageSfltConnectOut_def RawMessageSfltBind_def
  RawMessageSfltSetOption_def RawMessageSfltGetOption_def RawMessageSfltListen_def
  RawMessageSfltIoctl_def RawMessageSfltAccept_def RawMessageFirewallClosing_def
  RawMessageSocketData_def RawMessageSocketOpen_def RawMessageSocketClosed_def
  RawMessageClientActionResponse_def RawMessageRuleAdded_def RawMessageRuleDeleted_def
  RawMessageRuleDeactivated_def RawMessageRuleActivated_def
  RawMessageClientSubscribedAsaProviderOfRules_def RawMessageClientUnsubscribedAsaProviderOfRules_def
  RawMessageClientSubscribedToInfoRules_def RawMessageClientUnsubscribedFromInfoRules_def
  RawMessageClientSubscribedToInfoSockets_def RawMessageClientUnsubscribedFromInfoSockets_def
  RawMessageFirewallActivated_def RawMessageFirewallDeactivated_def
  RawMessageClientAction_def RawMessageAddRule_def RawMessageDeleteRule_def
  RawMessageActivateRule_def RawMessageDeactivateRule_def RawMessageActivateFirewall_def
  RawMessageDeactivateFirewall_def RawMessageSubscribeAsaProviderOfRules_def
  RawMessageUnsubscribeAsaProviderOfRules_def RawMessageSubscribeToInfoRules_def
  RawMessageUnsubscribeFromInfoRules_def RawMessageSubscribeToInfoSockets_def
  RawMessageUnsubscribeFromInfoSockets_def

lemmas layout_eval = sizeof_def field_def offsetof_def align_up_def Let_def

text \<open>Every field but the last ends before the last one starts.\<close>

lemma layout_snoc:
  "layout abi off (S @ [(f, t)]) =
     layout abi off S @ [(f, align_up (calign abi t) (struct_end abi off S), t)]"
  by (induction abi off S rule: layout.induct) (auto simp: Let_def)

lemma field_last:
  assumes "f \<notin> fst ` set S"
  shows "field abi (S @ [(f, t)]) f = Some (align_up (calign abi t) (struct_end abi 0 S), t)"
proof -
  from assms have "f \<notin> fst ` set (layout abi 0 S)" by (metis fields_of_layout set_map)
  then have "map_of (layout abi 0 S) f = None" by (simp add: map_of_eq_None_iff)
  then show ?thesis by (simp add: field_def layout_snoc map_add_def)
qed

lemma field_before_last:
  assumes "field abi (S @ [(f, t)]) g = Some (q, u)" and "g \<noteq> f" and "f \<notin> fst ` set S"
  shows "q + csize u \<le> offsetof abi (S @ [(f, t)]) f"
proof -
  let ?p = "align_up (calign abi t) (struct_end abi 0 S)"
  from assms have "(g, q, u) \<in> set (layout abi 0 S)"
    by (auto simp: field_def layout_snoc dest!: map_of_SomeD split: option.splits if_splits)
  from layout_bounds [OF this] have "q + csize u \<le> struct_end abi 0 S" by simp
  also have "\<dots> \<le> ?p" by (simp add: align_up_ge)
  finally show ?thesis by (simp add: offsetof_def field_last assms(3))
qed

lemma sockaddr_bytes_first:
  "sockaddr_ok sa \<Longrightarrow> \<exists>b bs. sockaddr_bytes sa = b # bs \<and> unat b = length (sockaddr_bytes sa)"
proof (cases sa)
  case (Some a)
  assume "sockaddr_ok sa"
  with Some obtain b bs where a: "a = b # bs" "2 \<le> unat b" "unat b \<le> Suc (length bs)"
    by (cases a) (auto simp: sockaddr_ok_def)
  then obtain n where "unat b = Suc n" by (cases "unat b") auto
  with a Some show ?thesis by (auto simp: sockaddr_bytes_def min_def)
qed (simp add: sockaddr_bytes_def)

lemma sockaddr_bytes_length:
  "sockaddr_ok sa \<Longrightarrow> 2 \<le> length (sockaddr_bytes sa) \<and> length (sockaddr_bytes sa) < 256"
proof (cases sa)
  case (Some a)
  assume "sockaddr_ok sa"
  moreover have "unat (hd a) < 256" using unsigned_less [of "hd a"] by simp
  ultimately show ?thesis using Some by (auto simp: sockaddr_ok_def sockaddr_bytes_def)
qed (simp add: sockaddr_bytes_def)

text \<open>\<open>Copy\<close> writes exactly the address's bytes, and reports how many.\<close>

lemma SockAddress_Copy_poke:
  assumes ok: "sockaddr_ok sa" and le: "off + length (sockaddr_bytes sa) \<le> length m"
  shows "SockAddress_Copy sa off m =
    map_option (Pair (length (sockaddr_bytes sa))) (poke off (sockaddr_bytes sa) m)"
proof (cases sa)
  case None
  then have "off + 2 \<le> length m" using le by (simp add: sockaddr_bytes_def)
  then have "take off m @ 2 # drop (Suc off) (take (Suc off) m @ 0 # drop (Suc (Suc off)) m) =
      take off m @ 2 # 0 # drop (Suc (Suc off)) m"
    by (simp add: min_def)
  moreover have "take off (take (Suc off) m @ 0 # drop (Suc (Suc off)) m) = take off m"
    using \<open>off + 2 \<le> length m\<close> by (simp add: min_def)
  ultimately show ?thesis
    using None \<open>off + 2 \<le> length m\<close>
    by (simp add: SockAddress_Copy_def sockaddr_bytes_def poke_def min_def)
next
  case (Some a)
  with ok have "a \<noteq> []" "unat (hd a) \<le> length a" by (auto simp: sockaddr_ok_def)
  then show ?thesis
    using Some le by (auto simp: SockAddress_Copy_def sockaddr_bytes_def rd_u8_def peek_def poke_def hd_conv_nth)
qed

lemma read_sockaddr_bytes:
  assumes ok: "sockaddr_ok sa" and pk: "peek off (length (sockaddr_bytes sa)) m = Some (sockaddr_bytes sa)"
  shows "read_sockaddr off m = Some (sockaddr_bytes sa)"
proof -
  obtain b bs where b: "sockaddr_bytes sa = b # bs" "unat b = length (sockaddr_bytes sa)"
    using sockaddr_bytes_first [OF ok] by blast
  have len: "off + length (sockaddr_bytes sa) \<le> length m"
    and eq: "take (length (sockaddr_bytes sa)) (drop off m) = sockaddr_bytes sa"
    using pk by (auto simp: peek_def split: if_splits)
  from b len have "off < length m" by simp
  moreover from this b eq have "m ! off = b"
    by (metis Cons_nth_drop_Suc length_Cons list.inject take_Suc_Cons)
  ultimately show ?thesis using b pk by (simp add: read_sockaddr_def rd_u8_def)
qed

lemma needed_size_unat:
  assumes "sockaddr_ok sa" and "sizeof abi S < 1000"
  shows "\<exists>n. needed_size abi S sa = Some n \<and> unat n = sizeof abi S + length (sockaddr_bytes sa) - 2"
proof (cases sa)
  case None
  with assms show ?thesis by (simp add: needed_size_def sockaddr_bytes_def unat_of_nat)
next
  case (Some a)
  with assms have a: "a \<noteq> []" "2 \<le> unat (hd a)" "unat (hd a) \<le> length a" by (auto simp: sockaddr_ok_def)
  have lt: "unat (hd a) < 256" using unsigned_less [of "hd a"] by simp
  have "(ucast (hd a) :: u16) - 2 = of_nat (unat (hd a) - 2)"
    using a(2) by (simp add: of_nat_diff)
  then have sum: "(of_nat (sizeof abi S) + (ucast (hd a) - 2) :: u16) = of_nat (sizeof abi S + (unat (hd a) - 2))"
    by (simp only: of_nat_add)
  have "unat (of_nat (sizeof abi S) + (ucast (hd a) - 2) :: u16) = sizeof abi S + (unat (hd a) - 2)"
    unfolding sum using assms(2) lt by (simp only: unat_of_nat) simp
  with Some a show ?thesis
    by (simp add: needed_size_def rd_u8_def sockaddr_bytes_def hd_conv_nth)
qed

text \<open>All message structs are small.\<close>

definition message_structs :: "struct list" where
  "message_structs =
    [RawMessageBase, RawMessageSfltUnregistered, RawMessageSfltAttach, RawMessageSfltDetach,
     RawMessageSfltNotify, RawMessageSfltGetPeerName, RawMessageSfltGetSockName,
     RawMessageSfltDataIn, RawMessageSfltDataOut, RawMessageSfltConnectIn,
     RawMessageSfltConnectOut, RawMessageSfltBind, RawMessageSfltSetOption,
     RawMessageSfltGetOption, RawMessageSfltListen, RawMessageSfltIoctl, RawMessageSfltAccept,
     RawMessageFirewallClosing, RawMessageSocketData, RawMessageSocketOpen,
     RawMessageSocketClosed, RawMessageClientActionResponse, RawMessageRuleAdded,
     RawMessageRuleDeleted, RawMessageRuleDeactivated, RawMessageRuleActivated,
     RawMessageClientSubscribedAsaProviderOfRules,
     RawMessageClientUnsubscribedAsaProviderOfRules, RawMessageClientSubscribedToInfoRules,
     RawMessageClientUnsubscribedFromInfoRules, RawMessageClientSubscribedToInfoSockets,
     RawMessageClientUnsubscribedFromInfoSockets, RawMessageFirewallActivated,
     RawMessageFirewallDeactivated, RawMessageClientAction, RawMessageAddRule,
     RawMessageDeleteRule, RawMessageActivateRule, RawMessageDeactivateRule,
     RawMessageActivateFirewall, RawMessageDeactivateFirewall,
     RawMessageSubscribeAsaProviderOfRules, RawMessageUnsubscribeAsaProviderOfRules,
     RawMessageSubscribeToInfoRules, RawMessageUnsubscribeFromInfoRules,
     RawMessageSubscribeToInfoSockets, RawMessageUnsubscribeFromInfoSockets]"

lemma message_structs_small: "S \<in> set message_structs \<Longrightarrow> sizeof abi S < 1000"
proof -
  have "\<forall>S\<in>set message_structs. sizeof I386 S < 1000" "\<forall>S\<in>set message_structs. sizeof X86_64 S < 1000"
    by code_simp+
  then have "\<forall>S\<in>set message_structs. sizeof abi S < 1000" by (cases abi) auto
  then show "S \<in> set message_structs \<Longrightarrow> sizeof abi S < 1000" by blast
qed

lemma sizeof_RawMessageBase [simp]: "sizeof abi RawMessageBase = 4"
proof (cases abi)
  case I386
  show ?thesis unfolding I386 by code_simp
next
  case X86_64
  show ?thesis unfolding X86_64 by code_simp
qed

lemma sizeof_small [layout_simps]: "List.member message_structs S \<Longrightarrow> sizeof abi S < 1000"
  by (simp add: message_structs_small)

end
