(* ===== verification/SimpleBase.thy ===== *)
theory SimpleBase
  imports Prelude
begin

text \<open>
  The reference-counted base class (Kext/simpleBase.h). \<open>Rule\<close>, \<open>Message\<close>, \<open>Client\<close> and
  \<open>Application\<close> derive from it; their records extend the record below as the classes extend the
  class. \<open>retain_at\<close> and \<open>release_at\<close> are the calls \<open>p->Retain()\<close> and \<open>p->Release()\<close> on an object
  of a typed heap, for the classes whose \<open>Free\<close> touches no other object of the model: freeing
  removes the object from the heap, so a later access to it is a fault.
\<close>

text \<open>What a pointer to a lock holds: NULL, a lock, or the address of a lock that has been given back.\<close>

datatype lock_ptr = NoLock | Lock | FreedLock

record SimpleBase =
  references :: s32

definition Retain :: "kernel \<Rightarrow> 'a SimpleBase_scheme \<Rightarrow> s32 \<times> 'a SimpleBase_scheme" where
  "Retain k x =
     (let (result, stored) = OSIncrementAtomic k (references x)
      in (result, x\<lparr>references := stored\<rparr>))"

text \<open>\<open>Release\<close> returns the new count and calls \<open>Free\<close> when it is zero.\<close>

definition Release :: "kernel \<Rightarrow> 'a SimpleBase_scheme \<Rightarrow> s32 \<times> 'a SimpleBase_scheme" where
  "Release k x =
     (let (result, stored) = OSDecrementAtomic k (references x)
      in (result - 1, x\<lparr>references := stored\<rparr>))"

definition retain_at :: "kernel \<Rightarrow> ptr \<Rightarrow> 'a SimpleBase_scheme heap \<Rightarrow> 'a SimpleBase_scheme heap option" where
  "retain_at k p h = modify p (\<lambda>x. snd (Retain k x)) h"

definition release_at :: "kernel \<Rightarrow> ptr \<Rightarrow> 'a SimpleBase_scheme heap \<Rightarrow> 'a SimpleBase_scheme heap option" where
  "release_at k p h =
     (case p of None \<Rightarrow> None
      | Some a \<Rightarrow>
          (case h a of None \<Rightarrow> None
           | Some x \<Rightarrow> (let (val, x') = Release k x in Some (h(a := (if val = 0 then None else Some x'))))))"

lemma Retain_documented [kernel_simps]:
  "atomics_documented k \<Longrightarrow> Retain k x = (references x, x\<lparr>references := references x + 1\<rparr>)"
  by (simp add: Retain_def)

lemma Release_documented [kernel_simps]:
  "atomics_documented k \<Longrightarrow> Release k x = (references x - 1, x\<lparr>references := references x - 1\<rparr>)"
  by (simp add: Release_def)

lemma retain_at_Some [heap_simps]:
  "atomics_documented k \<Longrightarrow> h a = Some x \<Longrightarrow>
   retain_at k (Some a) h = Some (h(a \<mapsto> x\<lparr>references := references x + 1\<rparr>))"
  by (simp add: retain_at_def Retain_documented)

lemma release_at_Some [heap_simps]:
  "atomics_documented k \<Longrightarrow> h a = Some x \<Longrightarrow>
   release_at k (Some a) h =
     Some (h(a := (if references x = 1 then None else Some (x\<lparr>references := references x - 1\<rparr>))))"
  by (auto simp: release_at_def Release_documented)

lemma retain_at_eq_Some:
  "atomics_documented k \<Longrightarrow>
   retain_at k p h = Some h' \<longleftrightarrow>
     (\<exists>a x. p = Some a \<and> h a = Some x \<and> h' = h(a \<mapsto> x\<lparr>references := references x + 1\<rparr>))"
  by (auto simp: retain_at_def Retain_documented modify_eq_Some)

lemma release_at_defined:
  "atomics_documented k \<Longrightarrow> h a = Some x \<Longrightarrow> \<exists>h'. release_at k (Some a) h = Some h'"
  by (simp add: release_at_Some)

text \<open>A retain followed by a release of an object that was alive leaves the heap as it was.\<close>

lemma release_retain:
  assumes "atomics_documented k" and "h a = Some x" and "references x \<noteq> 0"
  shows "Option.bind (retain_at k (Some a) h) (release_at k (Some a)) = Some h"
proof -
  have "references x + 1 \<noteq> 1" using assms(3) by simp
  then show ?thesis
    using assms by (simp add: retain_at_Some release_at_Some fun_upd_idem)
qed

section \<open>Counted heaps\<close>

text \<open>
  \<open>cnt a\<close> is the number of owners of the object at \<open>a\<close>. In a counted heap every object's
  reference count is its number of owners and objects without an owner are gone.
\<close>

definition counted_heap :: "(addr \<Rightarrow> nat) \<Rightarrow> 'a SimpleBase_scheme heap \<Rightarrow> bool" where
  "counted_heap cnt h \<longleftrightarrow> (\<forall>a. h a = None \<longrightarrow> cnt a = 0) \<and>
     (\<forall>a x. h a = Some x \<longrightarrow> references x = of_nat (cnt a) \<and> 0 < cnt a \<and> cnt a < 2 ^ 32)"

lemma counted_heap_None: "counted_heap cnt h \<Longrightarrow> h a = None \<Longrightarrow> cnt a = 0"
  by (simp add: counted_heap_def)

lemma counted_heap_Some:
  "counted_heap cnt h \<Longrightarrow> h a = Some x \<Longrightarrow> references x = of_nat (cnt a) \<and> 0 < cnt a \<and> cnt a < 2 ^ 32"
  unfolding counted_heap_def by blast

lemma counted_heap_live: "counted_heap cnt h \<Longrightarrow> 0 < cnt a \<Longrightarrow> \<exists>x. h a = Some x"
  using counted_heap_None by fastforce

lemma counted_heap_upd:
  "counted_heap cnt h \<Longrightarrow> references x = of_nat n \<Longrightarrow> 0 < n \<Longrightarrow> n < 2 ^ 32 \<Longrightarrow>
   counted_heap (cnt(a := n)) (h(a \<mapsto> x))"
  unfolding counted_heap_def by auto

lemma counted_heap_drop: "counted_heap cnt h \<Longrightarrow> counted_heap (cnt(a := 0)) (h(a := None))"
  unfolding counted_heap_def by auto

lemma counted_heap_refs:
  assumes "counted_heap cnt h" and "\<And>a. map_option references (h' a) = map_option references (h a)"
  shows "counted_heap cnt h'"
  unfolding counted_heap_def
proof (rule conjI; intro allI impI)
  show "cnt a = 0" if "h' a = None" for a
    using counted_heap_None [OF assms(1), of a] assms(2) [of a] that by simp
  show "references x = of_nat (cnt a) \<and> 0 < cnt a \<and> cnt a < 2 ^ 32" if "h' a = Some x" for a x
    using assms(2) [of a] that counted_heap_Some [OF assms(1), of a] by (cases "h a") simp_all
qed

lemma retain_counted:
  assumes "atomics_documented k" and "counted_heap cnt h" and "h a = Some x" and "cnt a + 1 < 2 ^ 32"
  shows "retain_at k (Some a) h = Some (h(a \<mapsto> x\<lparr>references := references x + 1\<rparr>))"
    and "counted_heap (cnt(a := cnt a + 1)) (h(a \<mapsto> x\<lparr>references := references x + 1\<rparr>))"
proof -
  show "retain_at k (Some a) h = Some (h(a \<mapsto> x\<lparr>references := references x + 1\<rparr>))"
    using assms by (simp add: retain_at_Some)
  show "counted_heap (cnt(a := cnt a + 1)) (h(a \<mapsto> x\<lparr>references := references x + 1\<rparr>))"
    using counted_heap_Some [OF assms(2,3)] assms(2,4) by (intro counted_heap_upd) simp_all
qed

text \<open>A release frees the object exactly when its last owner lets go.\<close>

lemma release_counted:
  assumes "atomics_documented k" and "counted_heap cnt h" and "h a = Some x"
  shows "release_at k (Some a) h =
      Some (h(a := (if cnt a = 1 then None else Some (x\<lparr>references := references x - 1\<rparr>))))"
    and "counted_heap (cnt(a := cnt a - 1))
      (h(a := (if cnt a = 1 then None else Some (x\<lparr>references := references x - 1\<rparr>))))"
proof -
  have x: "references x = of_nat (cnt a)" "0 < cnt a" "cnt a < 2 ^ 32"
    using counted_heap_Some [OF assms(2,3)] by auto
  have "references x = 1 \<longleftrightarrow> cnt a = 1"
  proof
    assume "references x = 1"
    with x have "unat (of_nat (cnt a) :: s32) = 1" by simp
    with x show "cnt a = 1" by (simp add: unat_of_nat)
  qed (use x in simp)
  then show "release_at k (Some a) h =
      Some (h(a := (if cnt a = 1 then None else Some (x\<lparr>references := references x - 1\<rparr>))))"
    using assms(1,3) by (simp add: release_at_Some)
  show "counted_heap (cnt(a := cnt a - 1))
      (h(a := (if cnt a = 1 then None else Some (x\<lparr>references := references x - 1\<rparr>))))"
  proof (cases "cnt a = 1")
    case True
    then show ?thesis using counted_heap_drop [OF assms(2)] by simp
  next
    case False
    with x assms(2) counted_heap_upd [of cnt h "x\<lparr>references := references x - 1\<rparr>" "cnt a - 1" a]
    show ?thesis by (simp add: of_nat_diff)
  qed
qed

end
