(* ===== verification/Messages.thy ===== *)
theory Messages
  imports RawMessages SimpleBase
begin

text \<open>
  Construction of messages (Kext/messages.h, Kext/messages.cpp). A \<open>Message\<close> is a reference-counted
  object that ends in the raw message; \<open>operator new(size, rawMessageSize)\<close> makes room for
  \<open>rawMessageSize\<close> bytes of it. \<open>CreateX k abi n ..\<close> models \<open>Message::CreateX(..)\<close> for the \<open>n\<close>-th
  message allocated: \<open>Some None\<close> is the NULL returned when memory is short, \<open>None\<close> a write or read
  out of bounds.
\<close>

record Message = SimpleBase +
  raw :: "u8 list"

definition fresh_raw :: "kernel \<Rightarrow> nat \<Rightarrow> nat \<Rightarrow> u8 list" where
  "fresh_raw k n capacity = map (garbage k NewMessage n) [0..<capacity]"

text \<open>\<open>new(capacity) Message; if(message) { ..Init..; message->references = 1; } return message;\<close>\<close>

definition new_message ::
  "kernel \<Rightarrow> nat \<Rightarrow> nat \<Rightarrow> (u8 list \<Rightarrow> u8 list option) \<Rightarrow> Message option option" where
  "new_message k n capacity init =
     (if grants k NewMessage n
      then map_option (\<lambda>m. Some \<lparr>references = 1, raw = m\<rparr>) (init (fresh_raw k n capacity))
      else Some None)"

section \<open>Text messages\<close>

text \<open>
  \<open>formatted\<close> is the full text that the format and its arguments give (\<open>None\<close>: the format is
  NULL). \<open>vsnprintf\<close> stores at most 253 of its characters and a NUL, and returns the length of the
  full text.
\<close>

definition CreateText :: "kernel \<Rightarrow> abi \<Rightarrow> nat \<Rightarrow> u8 list option \<Rightarrow> Message option option" where
  "CreateText k abi n formatted =
     (case formatted of
        None \<Rightarrow> Some None
      | Some text \<Rightarrow>
          new_message k n (255 + sizeof abi RawMessageBase) (\<lambda>m. do {
            m1 \<leftarrow> poke (sizeof abi RawMessageBase) (take 253 text @ [0]) m;
            put_fields abi RawMessageBase
              [(F_size, length text + sizeof abi RawMessageBase + 1),
               (F_type, unat (server_code MessageTypeText))] m1
          }))"

section \<open>Socket filter events\<close>

definition CreateSfltUnregistered :: "kernel \<Rightarrow> abi \<Rightarrow> nat \<Rightarrow> Message option option" where
  "CreateSfltUnregistered k abi n =
     new_message k n (sizeof abi RawMessageSfltUnregistered) (RawMessageSfltUnregistered_Init abi)"

definition CreateSfltAttach ::
  "kernel \<Rightarrow> abi \<Rightarrow> nat \<Rightarrow> u32 \<Rightarrow> u32 \<Rightarrow> u64 \<Rightarrow> u32 \<Rightarrow> Message option option" where
  "CreateSfltAttach k abi n pid uid so proto =
     new_message k n (sizeof abi RawMessageSfltAttach)
       (RawMessageSfltAttach_Init abi pid uid so (ucast proto))"

definition CreateSfltDetach ::
  "kernel \<Rightarrow> abi \<Rightarrow> nat \<Rightarrow> u32 \<Rightarrow> u32 \<Rightarrow> u64 \<Rightarrow> Message option option" where
  "CreateSfltDetach k abi n pid uid so =
     new_message k n (sizeof abi RawMessageSfltDetach) (RawMessageSfltDetach_Init abi pid uid so)"

definition CreateSfltNotify ::
  "kernel \<Rightarrow> abi \<Rightarrow> nat \<Rightarrow> u32 \<Rightarrow> u32 \<Rightarrow> u64 \<Rightarrow> u16 \<Rightarrow> Message option option" where
  "CreateSfltNotify k abi n pid uid so event =
     new_message k n (sizeof abi RawMessageSfltNotify) (RawMessageSfltNotify_Init abi pid uid so event)"

definition CreateSfltGetPeerName ::
  "kernel \<Rightarrow> abi \<Rightarrow> nat \<Rightarrow> u32 \<Rightarrow> u32 \<Rightarrow> u64 \<Rightarrow> u8 list option \<Rightarrow> Message option option" where
  "CreateSfltGetPeerName k abi n pid uid so sa = do {
     neededSize \<leftarrow> RawMessageSfltGetPeerName_GetNeededSize abi sa;
     new_message k n (unat neededSize) (RawMessageSfltGetPeerName_Init abi neededSize pid uid so sa)
   }"

definition CreateSfltGetSockName ::
  "kernel \<Rightarrow> abi \<Rightarrow> nat \<Rightarrow> u32 \<Rightarrow> u32 \<Rightarrow> u64 \<Rightarrow> u8 list option \<Rightarrow> Message option option" where
  "CreateSfltGetSockName k abi n pid uid so sa = do {
     neededSize \<leftarrow> RawMessageSfltGetSockName_GetNeededSize abi sa;
     new_message k n (unat neededSize) (RawMessageSfltGetSockName_Init abi neededSize pid uid so sa)
   }"

definition CreateSfltDataIn ::
  "kernel \<Rightarrow> abi \<Rightarrow> nat \<Rightarrow> u32 \<Rightarrow> u32 \<Rightarrow> u64 \<Rightarrow> u32 \<Rightarrow> u8 list option \<Rightarrow> Message option option" where
  "CreateSfltDataIn k abi n pid uid so proto sa = do {
     neededSize \<leftarrow> RawMessageSfltDataIn_GetNeededSize abi sa;
     new_message k n (unat neededSize) (RawMessageSfltDataIn_Init abi neededSize pid uid so (ucast proto) sa)
   }"

definition CreateSfltDataOut ::
  "kernel \<Rightarrow> abi \<Rightarrow> nat \<Rightarrow> u32 \<Rightarrow> u32 \<Rightarrow> u64 \<Rightarrow> u32 \<Rightarrow> u8 list option \<Rightarrow> Message option option" where
  "CreateSfltDataOut k abi n pid uid so proto sa = do {
     neededSize \<leftarrow> RawMessageSfltDataOut_GetNeededSize abi sa;
     new_message k n (unat neededSize) (RawMessageSfltDataOut_Init abi neededSize pid uid so (ucast proto) sa)
   }"

definition CreateSfltConnectIn ::
  "kernel \<Rightarrow> abi \<Rightarrow> nat \<Rightarrow> u32 \<Rightarrow> u32 \<Rightarrow> u64 \<Rightarrow> u8 list option \<Rightarrow> Message option option" where
  "CreateSfltConnectIn k abi n pid uid so sa = do {
     neededSize \<leftarrow> RawMessageSfltConnectIn_GetNeededSize abi sa;
     new_message k n (unat neededSize) (RawMessageSfltConnectIn_Init abi neededSize pid uid so sa)
   }"

definition CreateSfltConnectOut ::
  "kernel \<Rightarrow> abi \<Rightarrow> nat \<Rightarrow> u32 \<Rightarrow> u32 \<Rightarrow> u64 \<Rightarrow> u8 list option \<Rightarrow> Message option option" where
  "CreateSfltConnectOut k abi n pid uid so sa = do {
     neededSize \<leftarrow> RawMessageSfltConnectOut_GetNeededSize abi sa;
     new_message k n (unat neededSize) (RawMessageSfltConnectOut_Init abi neededSize pid uid so sa)
   }"

definition CreateSfltBind ::
  "kernel \<Rightarrow> abi \<Rightarrow> nat \<Rightarrow> u32 \<Rightarrow> u32 \<Rightarrow> u64 \<Rightarrow> u8 list option \<Rightarrow> Message option option" where
  "CreateSfltBind k abi n pid uid so sa = do {
     neededSize \<leftarrow> RawMessageSfltBind_GetNeededSize abi sa;
     new_message k n (unat neededSize) (RawMessageSfltBind_Init abi neededSize pid uid so sa)
   }"

definition CreateSfltSetOption ::
  "kernel \<Rightarrow> abi \<Rightarrow> nat \<Rightarrow> u32 \<Rightarrow> u32 \<Rightarrow> u64 \<Rightarrow> u32 \<Rightarrow> Message option option" where
  "CreateSfltSetOption k abi n pid uid so optionName =
     new_message k n (sizeof abi RawMessageSfltSetOption) (RawMessageSfltSetOption_Init abi pid uid so optionName)"

definition CreateSfltGetOption ::
  "kernel \<Rightarrow> abi \<Rightarrow> nat \<Rightarrow> u32 \<Rightarrow> u32 \<Rightarrow> u64 \<Rightarrow> u32 \<Rightarrow> Message option option" where
  "CreateSfltGetOption k abi n pid uid so optionName =
     new_message k n (sizeof abi RawMessageSfltGetOption) (RawMessageSfltGetOption_Init abi pid uid so optionName)"

definition CreateSfltListen ::
  "kernel \<Rightarrow> abi \<Rightarrow> nat \<Rightarrow> u32 \<Rightarrow> u32 \<Rightarrow> u64 \<Rightarrow> Message option option" where
  "CreateSfltListen k abi n pid uid so =
     new_message k n (sizeof abi RawMessageSfltListen) (RawMessageSfltListen_Init abi pid uid so)"

definition CreateSfltIoctl ::
  "kernel \<Rightarrow> abi \<Rightarrow> nat \<Rightarrow> u32 \<Rightarrow> u32 \<Rightarrow> u64 \<Rightarrow> u32 \<Rightarrow> Message option option" where
  "CreateSfltIoctl k abi n pid uid so request =
     new_message k n (sizeof abi RawMessageSfltIoctl) (RawMessageSfltIoctl_Init abi pid uid so request)"

definition CreateSfltAccept ::
  "kernel \<Rightarrow> abi \<Rightarrow> nat \<Rightarrow> u32 \<Rightarrow> u32 \<Rightarrow> u64 \<Rightarrow> u64 \<Rightarrow> u8 list option \<Rightarrow> u8 list option \<Rightarrow>
   Message option option" where
  "CreateSfltAccept k abi n pid uid so_listen so local remote = do {
     neededSize \<leftarrow> RawMessageSfltAccept_GetNeededSize abi local remote;
     new_message k n (unat neededSize)
       (RawMessageSfltAccept_Init abi neededSize pid uid so_listen so local remote)
   }"

section \<open>Notifications and responses\<close>

text \<open>The request for a rule is not implemented: it is always NULL.\<close>

definition CreateRequestRule ::
  "u8 list \<Rightarrow> u8 list \<Rightarrow> u16 \<Rightarrow> u16 \<Rightarrow> u16 \<Rightarrow> u8 list option \<Rightarrow> u8 \<Rightarrow> u32 \<Rightarrow> u32 \<Rightarrow> Message option" where
  "CreateRequestRule processName filePath sockDomain sockType sockProtocol sockAddress direction pid uid = None"

definition CreateRuleAdded ::
  "kernel \<Rightarrow> abi \<Rightarrow> nat \<Rightarrow> u32 \<Rightarrow> u32 \<Rightarrow> u32 \<Rightarrow> u32 \<Rightarrow> Message option option" where
  "CreateRuleAdded k abi n unitId clientMessageId actionState ruleId =
     new_message k n (sizeof abi RawMessageRuleAdded)
       (RawMessageRuleAdded_Init abi unitId clientMessageId actionState ruleId)"

definition CreateRuleDeleted ::
  "kernel \<Rightarrow> abi \<Rightarrow> nat \<Rightarrow> u32 \<Rightarrow> u32 \<Rightarrow> u32 \<Rightarrow> u32 \<Rightarrow> Message option option" where
  "CreateRuleDeleted k abi n unitId clientMessageId actionState ruleId =
     new_message k n (sizeof abi RawMessageRuleDeleted)
       (RawMessageRuleDeleted_Init abi unitId clientMessageId actionState ruleId)"

definition CreateRuleActivated ::
  "kernel \<Rightarrow> abi \<Rightarrow> nat \<Rightarrow> u32 \<Rightarrow> u32 \<Rightarrow> u32 \<Rightarrow> u32 \<Rightarrow> Message option option" where
  "CreateRuleActivated k abi n unitId clientMessageId actionState ruleId =
     new_message k n (sizeof abi RawMessageRuleActivated)
       (RawMessageRuleActivated_Init abi unitId clientMessageId actionState ruleId)"

definition CreateRuleDeactivated ::
  "kernel \<Rightarrow> abi \<Rightarrow> nat \<Rightarrow> u32 \<Rightarrow> u32 \<Rightarrow> u32 \<Rightarrow> u32 \<Rightarrow> Message option option" where
  "CreateRuleDeactivated k abi n unitId clientMessageId actionState ruleId =
     new_message k n (sizeof abi RawMessageRuleDeactivated)
       (RawMessageRuleDeactivated_Init abi unitId clientMessageId actionState ruleId)"

text \<open>
  \<open>from\<close> and \<open>to\<close> are socket addresses or NULL; the process name only enlarges the message.
\<close>

definition CreateSocketData ::
  "kernel \<Rightarrow> abi \<Rightarrow> nat \<Rightarrow> u8 \<Rightarrow> u8 \<Rightarrow> u32 \<Rightarrow> u32 \<Rightarrow> u32 \<Rightarrow> u64 \<Rightarrow> u32 \<Rightarrow> u32 \<Rightarrow>
   u8 list option \<Rightarrow> u8 list option \<Rightarrow> u8 list option \<Rightarrow> Message option option" where
  "CreateSocketData k abi n direction stateOperation stateByRuleId pid uid so packets bytes from to processName = do {
     fromSize \<leftarrow> (case from of None \<Rightarrow> Some 0 | Some a \<Rightarrow> map_option unat (rd_u8 a 0));
     toSize \<leftarrow> (case to of None \<Rightarrow> Some 0 | Some a \<Rightarrow> map_option unat (rd_u8 a 0));
     let neddedSize = sizeof abi RawMessageSocketData + fromSize + toSize +
           (case processName of None \<Rightarrow> 0 | Some s \<Rightarrow> length s);
     new_message k n neddedSize
       (RawMessageSocketData_Init abi (of_nat neddedSize) direction stateOperation stateByRuleId
          pid uid so packets bytes from to)
   }"

definition CreateSocketOpen :: "kernel \<Rightarrow> abi \<Rightarrow> nat \<Rightarrow> u64 \<Rightarrow> Message option option" where
  "CreateSocketOpen k abi n so =
     new_message k n (sizeof abi RawMessageSocketOpen) (RawMessageSocketOpen_Init abi so)"

definition CreateSocketClosed :: "kernel \<Rightarrow> abi \<Rightarrow> nat \<Rightarrow> u64 \<Rightarrow> Message option option" where
  "CreateSocketClosed k abi n so =
     new_message k n (sizeof abi RawMessageSocketClosed) (RawMessageSocketClosed_Init abi so)"

definition CreateFirewallActivated ::
  "kernel \<Rightarrow> abi \<Rightarrow> nat \<Rightarrow> u32 \<Rightarrow> u32 \<Rightarrow> u32 \<Rightarrow> Message option option" where
  "CreateFirewallActivated k abi n unitId clientMessageId actionState =
     new_message k n (sizeof abi RawMessageFirewallActivated)
       (RawMessageFirewallActivated_Init abi unitId clientMessageId actionState)"

text \<open>The source calls the \<open>Init\<close> of \<open>RawMessageFirewallActivated\<close> here.\<close>

definition CreateFirewallDeactivated ::
  "kernel \<Rightarrow> abi \<Rightarrow> nat \<Rightarrow> u32 \<Rightarrow> u32 \<Rightarrow> u32 \<Rightarrow> Message option option" where
  "CreateFirewallDeactivated k abi n unitId clientMessageId actionState =
     new_message k n (sizeof abi RawMessageFirewallDeactivated)
       (RawMessageFirewallActivated_Init abi unitId clientMessageId actionState)"

definition CreateClientSubscribedAsaProviderOfRules ::
  "kernel \<Rightarrow> abi \<Rightarrow> nat \<Rightarrow> u32 \<Rightarrow> u32 \<Rightarrow> u32 \<Rightarrow> Message option option" where
  "CreateClientSubscribedAsaProviderOfRules k abi n unitId clientMessageId actionState =
     new_message k n (sizeof abi RawMessageClientSubscribedAsaProviderOfRules)
       (RawMessageClientSubscribedAsaProviderOfRules_Init abi unitId clientMessageId actionState)"

definition CreateClientUnsubscribedAsaProviderOfRules ::
  "kernel \<Rightarrow> abi \<Rightarrow> nat \<Rightarrow> u32 \<Rightarrow> u32 \<Rightarrow> u32 \<Rightarrow> Message option option" where
  "CreateClientUnsubscribedAsaProviderOfRules k abi n unitId clientMessageId actionState =
     new_message k n (sizeof abi RawMessageClientUnsubscribedAsaProviderOfRules)
       (RawMessageClientUnsubscribedAsaProviderOfRules_Init abi unitId clientMessageId actionState)"

definition CreateClientSubscribedToInfoRules ::
  "kernel \<Rightarrow> abi \<Rightarrow> nat \<Rightarrow> u32 \<Rightarrow> u32 \<Rightarrow> u32 \<Rightarrow> Message option option" where
  "CreateClientSubscribedToInfoRules k abi n unitId clientMessageId actionState =
     new_message k n (sizeof abi RawMessageClientSubscribedToInfoRules)
       (RawMessageClientSubscribedToInfoRules_Init abi unitId clientMessageId actionState)"

definition CreateClientUnsubscribedFromInfoRules ::
  "kernel \<Rightarrow> abi \<Rightarrow> nat \<Rightarrow> u32 \<Rightarrow> u32 \<Rightarrow> u32 \<Rightarrow> Message option option" where
  "CreateClientUnsubscribedFromInfoRules k abi n unitId clientMessageId actionState =
     new_message k n (sizeof abi RawMessageClientUnsubscribedFromInfoRules)
       (RawMessageClientUnsubscribedFromInfoRules_Init abi unitId clientMessageId actionState)"

definition CreateClientSubscribedToInfoSockets ::
  "kernel \<Rightarrow> abi \<Rightarrow> nat \<Rightarrow> u32 \<Rightarrow> u32 \<Rightarrow> u32 \<Rightarrow> Message option option" where
  "CreateClientSubscribedToInfoSockets k abi n unitId clientMessageId actionState =
     new_message k n (sizeof abi RawMessageClientSubscribedToInfoSockets)
       (RawMessageClientSubscribedToInfoSockets_Init abi unitId clientMessageId actionState)"

definition CreateClientUnsubscribedFromInfoSockets ::
  "kernel \<Rightarrow> abi \<Rightarrow> nat \<Rightarrow> u32 \<Rightarrow> u32 \<Rightarrow> u32 \<Rightarrow> Message option option" where
  "CreateClientUnsubscribedFromInfoSockets k abi n unitId clientMessageId actionState =
     new_message k n (sizeof abi RawMessageClientUnsubscribedFromInfoSockets)
       (RawMessageClientUnsubscribedFromInfoSockets_Init abi unitId clientMessageId actionState)"

text \<open>\<open>new Message()\<close>: room for \<open>sizeof(RawMessageBase)\<close> bytes.\<close>

definition CreateFirewallClosing :: "kernel \<Rightarrow> abi \<Rightarrow> nat \<Rightarrow> Message option option" where
  "CreateFirewallClosing k abi n =
     new_message k n (sizeof abi RawMessageBase) (RawMessageFirewallClosing_Init abi)"

section \<open>All constructions at once\<close>

text \<open>
  \<open>created k abi n ty r\<close>: \<open>r\<close> is what one of the \<open>Create\<close> functions returns for arguments as the
  callers pass them (well-formed socket addresses, a text that fits its buffer, a short process
  name), and \<open>ty\<close> is the type code it writes. The deactivation response carries the activation
  code, since its constructor calls the \<open>Init\<close> of the activation response.
\<close>

inductive created :: "kernel \<Rightarrow> abi \<Rightarrow> nat \<Rightarrow> ServerMessagesType \<Rightarrow> Message option option \<Rightarrow> bool"
  for k :: kernel and abi :: abi and n :: nat where
  Text: "length text \<le> 254 \<Longrightarrow> created k abi n MessageTypeText (CreateText k abi n (Some text))"
| SfltUnregistered: "created k abi n MessageTypeSfltUnregistered (CreateSfltUnregistered k abi n)"
| SfltAttach: "created k abi n MessageTypeSfltAttach (CreateSfltAttach k abi n pid uid so proto)"
| SfltDetach: "created k abi n MessageTypeSfltDetach (CreateSfltDetach k abi n pid uid so)"
| SfltNotify: "created k abi n MessageTypeSfltNotify (CreateSfltNotify k abi n pid uid so event)"
| SfltGetPeerName: "sockaddr_ok sa \<Longrightarrow> 
     created k abi n MessageTypeSfltGetPeerName
       (CreateSfltGetPeerName k abi n pid uid so sa)"
| SfltGetSockName: "sockaddr_ok sa \<Longrightarrow> 
     created k abi n MessageTypeSfltGetSockName
       (CreateSfltGetSockName k abi n pid uid so sa)"
| SfltDataIn: "sockaddr_ok sa \<Longrightarrow> 
     created k abi n MessageTypeSfltDataIn
       (CreateSfltDataIn k abi n pid uid so proto sa)"
| SfltDataOut: "sockaddr_ok sa \<Longrightarrow> 
     created k abi n MessageTypeSfltDataOut
       (CreateSfltDataOut k abi n pid uid so proto sa)"
| SfltConnectIn: "sockaddr_ok sa \<Longrightarrow> 
     created k abi n MessageTypeSfltConnectIn
       (CreateSfltConnectIn k abi n pid uid so sa)"
| SfltConnectOut: "sockaddr_ok sa \<Longrightarrow> 
     created k abi n MessageTypeSfltConnectOut
       (CreateSfltConnectOut k abi n pid uid so sa)"
| SfltBind: "sockaddr_ok sa \<Longrightarrow> 
     created k abi n MessageTypeSfltBind
       (CreateSfltBind k abi n pid uid so sa)"
| SfltSetOption: "
     created k abi n MessageTypeSfltSetOption
       (CreateSfltSetOption k abi n pid uid so optionName)"
| SfltGetOption: "
     created k abi n MessageTypeSfltGetOption
       (CreateSfltGetOption k abi n pid uid so optionName)"
| SfltListen: "created k abi n MessageTypeSfltListen (CreateSfltListen k abi n pid uid so)"
| SfltIoctl: "created k abi n MessageTypeSfltIoctl (CreateSfltIoctl k abi n pid uid so request)"
| SfltAccept: "sockaddr_ok local \<Longrightarrow> sockaddr_ok remote \<Longrightarrow> 
     created k abi n MessageTypeSfltAccept
       (CreateSfltAccept k abi n pid uid so_listen so local remote)"
| RuleAdded: "
     created k abi n MessageTypeRuleAdded
       (CreateRuleAdded k abi n unitId clientMessageId actionState ruleId)"
| RuleDeleted: "
     created k abi n MessageTypeRuleDeleted
       (CreateRuleDeleted k abi n unitId clientMessageId actionState ruleId)"
| RuleActivated: "
     created k abi n MessageTypeRuleActivated
       (CreateRuleActivated k abi n unitId clientMessageId actionState ruleId)"
| RuleDeactivated: "
     created k abi n MessageTypeRuleDeactivated
       (CreateRuleDeactivated k abi n unitId clientMessageId actionState ruleId)"
| SocketOpen: "created k abi n MessageTypeSocketOpen (CreateSocketOpen k abi n so)"
| SocketClosed: "created k abi n MessageTypeSocketClosed (CreateSocketClosed k abi n so)"
| FirewallActivated: "
     created k abi n MessageTypeFirewallActivated
       (CreateFirewallActivated k abi n unitId clientMessageId actionState)"
| FirewallDeactivated: "
     created k abi n MessageTypeFirewallActivated
       (CreateFirewallDeactivated k abi n unitId clientMessageId actionState)"
| ClientSubscribedAsaProviderOfRules: "
     created k abi n MessageTypeClientSubscribedAsaProviderOfRules
       (CreateClientSubscribedAsaProviderOfRules k abi n unitId clientMessageId actionState)"
| ClientUnsubscribedAsaProviderOfRules: "
     created k abi n MessageTypeClientUnsubscribedAsaProviderOfRules
       (CreateClientUnsubscribedAsaProviderOfRules k abi n unitId clientMessageId actionState)"
| ClientSubscribedToInfoRules: "
     created k abi n MessageTypeClientSubscribedToInfoRules
       (CreateClientSubscribedToInfoRules k abi n unitId clientMessageId actionState)"
| ClientUnsubscribedFromInfoRules: "
     created k abi n MessageTypeClientUnsubscribedFromInfoRules
       (CreateClientUnsubscribedFromInfoRules k abi n unitId clientMessageId actionState)"
| ClientSubscribedToInfoSockets: "
     created k abi n MessageTypeClientSubscribedToInfoSockets
       (CreateClientSubscribedToInfoSockets k abi n unitId clientMessageId actionState)"
| ClientUnsubscribedFromInfoSockets: "
     created k abi n MessageTypeClientUnsubscribedFromInfoSockets
       (CreateClientUnsubscribedFromInfoSockets k abi n unitId clientMessageId actionState)"
| FirewallClosing: "created k abi n MessageTypeFirewallClosing (CreateFirewallClosing k abi n)"
| SocketData: "sockaddr_ok from \<Longrightarrow> sockaddr_ok to \<Longrightarrow>
     (case processName of None \<Rightarrow> True | Some s \<Rightarrow> length s < 60000) \<Longrightarrow>
     created k abi n MessageTypeSocketData
       (CreateSocketData k abi n direction stateOperation stateByRuleId pid uid so packets bytes
          from to processName)"

text \<open>The header every receiver and \<open>Client::Send\<close> read: \<open>raw.size\<close> and \<open>raw.type\<close>.\<close>

definition raw_size :: "Message \<Rightarrow> u16 option" where
  "raw_size m = rd_u16 (raw m) 0"

definition raw_type :: "Message \<Rightarrow> u16 option" where
  "raw_type m = rd_u16 (raw m) 2"

text \<open>
  A message fit for sending: alive, of the type given, no larger than its buffer and no smaller than
  its header.
\<close>

definition message_ok :: "u16 \<Rightarrow> Message \<Rightarrow> bool" where
  "message_ok ty m \<longleftrightarrow>
     references m = 1 \<and> raw_type m = Some ty \<and>
     (\<exists>sz. raw_size m = Some sz \<and> 4 \<le> unat sz \<and> unat sz \<le> length (raw m))"

section \<open>Facts\<close>

lemma fresh_raw_length [simp]: "length (fresh_raw k n c) = c"
  by (simp add: fresh_raw_def)

lemma base_fields:
  "field abi (RawMessageBase @ R) F_size = Some (0, CU16)"
  "field abi (RawMessageBase @ R) F_type = Some (2, CU16)"
  by (simp_all add: field_def RawMessageBase_def align_up_def)

lemma raw_header:
  "raw_size m = map_option of_nat (get_field abi (RawMessageBase @ R) F_size (raw m))"
  "raw_type m = map_option of_nat (get_field abi (RawMessageBase @ R) F_type (raw m))"
  by (simp_all add: raw_size_def raw_type_def rd_u16_def get_field_def base_fields option.map_comp comp_def)

lemma header_size: "S = RawMessageBase @ R \<Longrightarrow> 4 \<le> sizeof abi S"
  using field_bound [OF base_fields(2), of abi R] by simp

text \<open>A message whose \<open>Init\<close> is a sequence of field assignments.\<close>

lemma new_message_fields:
  assumes S: "S = RawMessageBase @ R" and fvs: "fvs = RawMessageBase_Init sz ty @ rest"
    and names: "fst ` set fvs \<subseteq> fst ` set S" and dist: "distinct (map fst fvs)"
    and cap: "sizeof abi S \<le> cap" and sz: "4 \<le> sz" "sz \<le> cap" "cap < 2 ^ 16" and g: "grants k NewMessage n"
  shows "\<exists>m. new_message k n cap (put_fields abi S fvs) = Some (Some m) \<and> message_ok ty m \<and>
    length (raw m) = cap \<and>
    (\<forall>f v p t. (f, v) \<in> set fvs \<longrightarrow> field abi S f = Some (p, t) \<longrightarrow>
       get_field abi S f (raw m) = Some (v mod 256 ^ csize t))"
proof -
  obtain b where b: "put_fields abi S fvs (fresh_raw k n cap) = Some b" "length b = cap"
    using put_fields_defined [OF names, of abi "fresh_raw k n cap"] cap by auto
  let ?m = "\<lparr>references = 1, raw = b\<rparr>"
  have get: "get_field abi S f b = Some (v mod 256 ^ csize t)"
    if "(f, v) \<in> set fvs" "field abi S f = Some (p, t)" for f v p t
    using get_put_fields [OF b(1) dist that] .
  have "get_field abi S F_size b = Some (sz mod 256 ^ 2)" "get_field abi S F_type b = Some (unat ty mod 256 ^ 2)"
    using get [of F_size sz 0 CU16] get [of F_type "unat ty" 2 CU16]
    by (simp_all add: S base_fields fvs RawMessageBase_Init_def)
  moreover have "unat ty < 256 ^ 2" using unsigned_less [of ty] by simp
  ultimately have "raw_size ?m = Some (of_nat sz)" "raw_type ?m = Some ty"
    using sz by (simp_all add: raw_header [of _ abi R] S [symmetric])
  moreover have "unat (of_nat sz :: u16) = sz" using sz by (simp add: unat_of_nat)
  ultimately have "message_ok ty ?m" using b sz by (simp add: message_ok_def)
  with b get g show ?thesis by (auto simp: new_message_def)
qed

lemma message_ok_new_fields:
  assumes "S = RawMessageBase @ R" and "fst ` set (RawMessageBase_Init (sizeof abi S) ty @ rest) \<subseteq> fst ` set S"
    and "distinct (map fst (RawMessageBase_Init (sizeof abi S) ty @ rest))"
    and "sizeof abi S < 1000" and "grants k NewMessage n"
  shows "\<exists>m. new_message k n (sizeof abi S)
    (put_fields abi S (RawMessageBase_Init (sizeof abi S) ty @ rest)) = Some (Some m) \<and> message_ok ty m"
  using new_message_fields [OF assms(1) refl assms(2,3) order_refl header_size [OF assms(1)] order_refl _ assms(5)] assms(4)
  by fastforce

lemma put_fields_then:
  assumes "fst ` set fvs \<subseteq> fst ` set S" and "sizeof abi S \<le> length m"
    and S: "S = RawMessageBase @ R" and "fvs = RawMessageBase_Init sz ty @ rest" and "distinct (map fst fvs)"
  obtains m1 where "put_fields abi S fvs m = Some m1" "length m1 = length m"
    and "rd_u16 m1 0 = Some (of_nat sz)" and "rd_u16 m1 2 = Some ty"
proof -
  obtain m1 where m1: "put_fields abi S fvs m = Some m1" "length m1 = length m"
    using put_fields_defined [OF assms(1,2)] by blast
  have "get_field abi S F_size m1 = Some (sz mod 256 ^ 2)" "get_field abi S F_type m1 = Some (unat ty mod 256 ^ 2)"
    using get_put_fields [OF m1(1) assms(5), of F_size sz 0 CU16]
      get_put_fields [OF m1(1) assms(5), of F_type "unat ty" 2 CU16]
    by (simp_all add: S base_fields assms(4) RawMessageBase_Init_def)
  moreover have "unat ty < 256 ^ 2" using unsigned_less [of ty] by simp
  ultimately have "rd_u16 m1 0 = Some (of_nat (sz mod 2 ^ 16))" "rd_u16 m1 2 = Some ty"
    using raw_header [of "\<lparr>references = 0, raw = m1\<rparr>" abi R]
    by (simp_all add: raw_size_def raw_type_def S)
  moreover have "of_nat (sz mod 2 ^ 16) = (of_nat sz :: u16)"
    by (simp add: word_unat_eq_iff unat_of_nat)
  ultimately show thesis using that m1 by simp
qed

lemma rd_u16_poke_above:
  "poke off bs m = Some m' \<Longrightarrow> i + 2 \<le> off \<Longrightarrow> rd_u16 m' i = rd_u16 m i"
  by (simp add: rd_u16_def peek_poke_other)

lemma copy_tail:
  assumes "sockaddr_ok sa" and "off + length (sockaddr_bytes sa) \<le> length m"
  obtains m' where "SockAddress_Copy sa off m = Some (length (sockaddr_bytes sa), m')"
    and "poke off (sockaddr_bytes sa) m = Some m'" and "length m' = length m"
proof -
  obtain m' where m': "poke off (sockaddr_bytes sa) m = Some m'"
    using poke_defined [OF assms(2)] by blast
  with SockAddress_Copy_poke [OF assms] have "SockAddress_Copy sa off m = Some (length (sockaddr_bytes sa), m')"
    by simp
  with m' that show thesis by (simp add: poke_length)
qed

text \<open>
  Messages that end in one address: the needed size leaves room for it, the receiver reads it back,
  and the other fields are those assigned.
\<close>

lemma new_address_message:
  assumes S: "S = RawMessageBase @ R @ [(F_sa, CBytes 2)]" and last: "F_sa \<notin> fst ` set (RawMessageBase @ R)"
    and sub: "fst ` set rest \<subseteq> fst ` set R" and dist: "distinct (map fst (RawMessageBase_Init 0 ty @ rest))"
    and small: "sizeof abi S < 1000" and ok: "sockaddr_ok sa" and g: "grants k NewMessage n"
  shows "\<exists>m. Option.bind (needed_size abi S sa) (\<lambda>needed.
      new_message k n (unat needed) (\<lambda>m0. do {
        m1 \<leftarrow> put_fields abi S (RawMessageBase_Init (unat needed) ty @ rest) m0;
        (n, m2) \<leftarrow> SockAddress_Copy sa (offsetof abi S F_sa) m1;
        Some m2 })) = Some (Some m) \<and>
    message_ok ty m \<and> map_option unat (raw_size m) = Some (length (raw m)) \<and>
    read_sockaddr (offsetof abi S F_sa) (raw m) = Some (sockaddr_bytes sa) \<and>
    (\<forall>f v p t. (f, v) \<in> set rest \<longrightarrow> field abi S f = Some (p, t) \<longrightarrow>
       get_field abi S f (raw m) = Some (v mod 256 ^ csize t))"
proof -
  obtain needed where nd: "needed_size abi S sa = Some needed"
    "unat needed = sizeof abi S + length (sockaddr_bytes sa) - 2"
    using needed_size_unat [OF ok small] by blast
  have len2: "2 \<le> length (sockaddr_bytes sa)" using sockaddr_bytes_length [OF ok] by simp
  define fvs where "fvs = RawMessageBase_Init (unat needed) ty @ rest"
  have sub': "fst ` set fvs \<subseteq> fst ` set S"
    using sub by (auto simp: fvs_def S RawMessageBase_Init_def RawMessageBase_def)
  have dist': "distinct (map fst fvs)" using dist by (simp add: fvs_def RawMessageBase_Init_def)
  have cap: "sizeof abi S \<le> length (fresh_raw k n (unat needed))" using nd len2 by simp
  obtain m1 where m1: "put_fields abi S fvs (fresh_raw k n (unat needed)) = Some m1"
    "length m1 = length (fresh_raw k n (unat needed))"
    "rd_u16 m1 0 = Some (of_nat (unat needed))" "rd_u16 m1 2 = Some ty"
    by (rule put_fields_then [OF sub' cap S fvs_def dist'])
  have S': "S = (RawMessageBase @ R) @ [(F_sa, CBytes 2)]" by (simp add: S)
  obtain q where q: "field abi S F_sa = Some (q, CBytes 2)"
    using field_last [OF last] unfolding S' by blast
  have off: "offsetof abi S F_sa = q" by (simp add: offsetof_def q)
  have "q + length (sockaddr_bytes sa) \<le> length m1"
    using field_bound [OF q] nd m1 len2 by simp
  then obtain m2 where m2: "SockAddress_Copy sa q m1 = Some (length (sockaddr_bytes sa), m2)"
    "poke q (sockaddr_bytes sa) m1 = Some m2" "length m2 = length m1"
    by (rule copy_tail [OF ok])
  have before: "p + csize u \<le> q" if "field abi S f = Some (p, u)" "f \<noteq> F_sa" for f p u
    using field_before_last [OF _ that(2) last, of abi "CBytes 2" p u] that off
    by (simp add: S')
  have "4 \<le> q" using before [of F_type 2 CU16] by (simp add: S base_fields)
  let ?m = "\<lparr>references = 1, raw = m2\<rparr>"
  have "4 \<le> unat needed" "unat needed \<le> length m2" using nd(2) len2 header_size [OF S, of abi] m1(2) m2(3) by simp_all
  moreover have "unat needed = length m2" using nd(2) m1(2) m2(3) by simp
  moreover have "rd_u16 m1 0 = Some needed" using m1(3) by simp
  ultimately have "message_ok ty ?m" and "map_option unat (raw_size ?m) = Some (length m2)"
    using m1(4) m2(2) \<open>4 \<le> q\<close> by (simp_all add: message_ok_def raw_size_def raw_type_def rd_u16_poke_above)
  moreover have "read_sockaddr q m2 = Some (sockaddr_bytes sa)"
    using read_sockaddr_bytes [OF ok] peek_poke_same [OF m2(2) refl] by simp
  moreover have "get_field abi S f m2 = Some (v mod 256 ^ csize u)"
    if fv: "(f, v) \<in> set rest" and fp: "field abi S f = Some (p, u)" for f v p u
  proof -
    have "f \<in> fst ` set R" using fv sub by force
    then have "f \<noteq> F_sa" using last by (metis UnI2 image_Un set_append)
    then have "peek p (csize u) m2 = peek p (csize u) m1"
      using before [OF fp] peek_poke_other [OF m2(2), of p "csize u"] by simp
    moreover have "get_field abi S f m1 = Some (v mod 256 ^ csize u)"
      using get_put_fields [OF m1(1) dist' _ fp] fv by (simp add: fvs_def)
    ultimately show ?thesis by (simp add: get_field_def fp)
  qed
  moreover have "Option.bind (needed_size abi S sa) (\<lambda>needed.
      new_message k n (unat needed) (\<lambda>m0. do {
        m1 \<leftarrow> put_fields abi S (RawMessageBase_Init (unat needed) ty @ rest) m0;
        (n, m2) \<leftarrow> SockAddress_Copy sa (offsetof abi S F_sa) m1;
        Some m2 })) = Some (Some ?m)"
    using nd(1) m1(1) m2(1) g by (simp add: new_message_def off fvs_def)
  ultimately show ?thesis unfolding off by (intro exI [of _ ?m]) simp
qed

text \<open>Messages that end in two addresses, one behind the other.\<close>

lemma new_two_address_message:
  assumes S: "S = (RawMessageBase @ R) @ [(F_data, CBytes c)]"
    and last: "F_data \<notin> fst ` set (RawMessageBase @ R)"
    and sub: "fst ` set rest \<subseteq> fst ` set R" and dist: "distinct (map fst (RawMessageBase_Init 0 ty @ rest))"
    and ok: "sockaddr_ok sa1" "sockaddr_ok sa2" and g: "grants k NewMessage n"
    and cap: "sizeof abi S \<le> cap"
      "offsetof abi S F_data + length (sockaddr_bytes sa1) + length (sockaddr_bytes sa2) \<le> cap"
    and sz: "4 \<le> unat sz" "unat sz \<le> cap"
  shows "\<exists>m. new_message k n cap (\<lambda>m0. do {
        m1 \<leftarrow> put_fields abi S (RawMessageBase_Init (unat sz) ty @ rest) m0;
        (n1, m2) \<leftarrow> SockAddress_Copy sa1 (offsetof abi S F_data) m1;
        (n2, m3) \<leftarrow> SockAddress_Copy sa2 (offsetof abi S F_data + n1) m2;
        Some m3 }) = Some (Some m) \<and>
    message_ok ty m \<and> length (raw m) = cap \<and> raw_size m = Some sz \<and>
    read_sockaddr (offsetof abi S F_data) (raw m) = Some (sockaddr_bytes sa1) \<and>
    read_sockaddr (offsetof abi S F_data + length (sockaddr_bytes sa1)) (raw m) = Some (sockaddr_bytes sa2)"
proof -
  define fvs where "fvs = RawMessageBase_Init (unat sz) ty @ rest"
  have sub': "fst ` set fvs \<subseteq> fst ` set S"
    using sub by (auto simp: fvs_def S RawMessageBase_Init_def RawMessageBase_def)
  have dist': "distinct (map fst fvs)" using dist by (simp add: fvs_def RawMessageBase_Init_def)
  have cap': "sizeof abi S \<le> length (fresh_raw k n cap)" using cap by simp
  have S': "S = RawMessageBase @ R @ [(F_data, CBytes c)]" by (simp add: S)
  obtain m1 where m1: "put_fields abi S fvs (fresh_raw k n cap) = Some m1"
    "length m1 = length (fresh_raw k n cap)" "rd_u16 m1 0 = Some (of_nat (unat sz))" "rd_u16 m1 2 = Some ty"
    by (rule put_fields_then [OF sub' cap' S' fvs_def dist'])
  define q where "q = offsetof abi S F_data"
  have "4 \<le> q"
    using field_before_last [of abi "RawMessageBase @ R" F_data "CBytes c" F_type 2 CU16] last
    by (simp add: q_def S base_fields)
  define l1 l2 where "l1 = length (sockaddr_bytes sa1)" and "l2 = length (sockaddr_bytes sa2)"
  have le1: "q + length (sockaddr_bytes sa1) \<le> length m1"
    using cap m1 by (simp add: q_def)
  obtain m2 where m2: "SockAddress_Copy sa1 q m1 = Some (l1, m2)"
    "poke q (sockaddr_bytes sa1) m1 = Some m2" "length m2 = length m1"
    unfolding l1_def by (rule copy_tail [OF ok(1) le1])
  have le2: "q + l1 + length (sockaddr_bytes sa2) \<le> length m2"
    using cap m1 m2 by (simp add: q_def l1_def)
  obtain m3 where m3: "SockAddress_Copy sa2 (q + l1) m2 = Some (l2, m3)"
    "poke (q + l1) (sockaddr_bytes sa2) m2 = Some m3" "length m3 = length m2"
    unfolding l2_def by (rule copy_tail [OF ok(2) le2])
  let ?m = "\<lparr>references = 1, raw = m3\<rparr>"
  have size: "raw_size ?m = Some sz" and "raw_type ?m = Some ty"
    using m1 m2 m3 \<open>4 \<le> q\<close> by (simp_all add: raw_size_def raw_type_def rd_u16_poke_above)
  then have "message_ok ty ?m"
    using m1 m2 m3 sz by (simp add: message_ok_def)
  moreover have "peek q l1 m3 = Some (sockaddr_bytes sa1)"
    using peek_poke_other [OF m3(2), of q l1] peek_poke_same [OF m2(2) l1_def] by simp
  then have "read_sockaddr q m3 = Some (sockaddr_bytes sa1)"
    using read_sockaddr_bytes [OF ok(1)] by (simp add: l1_def)
  moreover have "read_sockaddr (q + l1) m3 = Some (sockaddr_bytes sa2)"
    using read_sockaddr_bytes [OF ok(2)] peek_poke_same [OF m3(2) refl] by simp
  moreover have "new_message k n cap (\<lambda>m0. do {
        m1 \<leftarrow> put_fields abi S (RawMessageBase_Init (unat sz) ty @ rest) m0;
        (n1, m2) \<leftarrow> SockAddress_Copy sa1 (offsetof abi S F_data) m1;
        (n2, m3) \<leftarrow> SockAddress_Copy sa2 (offsetof abi S F_data + n1) m2;
        Some m3 }) = Some (Some ?m)"
    using m1(1) m2(1) m3(1) g by (simp add: new_message_def fvs_def q_def)
  ultimately show ?thesis
    unfolding q_def [symmetric] l1_def [symmetric]
    using size m1(2) m2(3) m3(3) by (intro exI [of _ ?m]) simp
qed

lemma message_ok_simple:
  assumes "take 2 S = RawMessageBase" and "take 2 fvs = RawMessageBase_Init (sizeof abi S) ty"
    and "fst ` set fvs \<subseteq> fst ` set S" and "distinct (map fst fvs)"
    and "sizeof abi S < 1000" and "grants k NewMessage n"
  shows "\<exists>m. new_message k n (sizeof abi S) (put_fields abi S fvs) = Some (Some m) \<and> message_ok ty m"
proof -
  have S: "S = RawMessageBase @ drop 2 S" and f: "fvs = RawMessageBase_Init (sizeof abi S) ty @ drop 2 fvs"
    using assms(1,2) by (metis append_take_drop_id)+
  show ?thesis
    using message_ok_new_fields [OF S, of abi ty "drop 2 fvs" k n] assms f by simp
qed

lemmas create_defs =
  CreateSfltUnregistered_def CreateSfltAttach_def CreateSfltDetach_def CreateSfltNotify_def
  CreateSfltSetOption_def CreateSfltGetOption_def CreateSfltListen_def CreateSfltIoctl_def
  CreateRuleAdded_def CreateRuleDeleted_def CreateRuleActivated_def CreateRuleDeactivated_def
  CreateSocketOpen_def CreateSocketClosed_def CreateFirewallActivated_def CreateFirewallDeactivated_def
  CreateClientSubscribedAsaProviderOfRules_def CreateClientUnsubscribedAsaProviderOfRules_def
  CreateClientSubscribedToInfoRules_def CreateClientUnsubscribedFromInfoRules_def
  CreateClientSubscribedToInfoSockets_def CreateClientUnsubscribedFromInfoSockets_def

lemmas simple_init_defs =
  RawMessageSfltUnregistered_Init_def RawMessageSfltAttach_Init_def RawMessageSfltDetach_Init_def
  RawMessageSfltNotify_Init_def RawMessageSfltSetOption_Init_def RawMessageSfltGetOption_Init_def
  RawMessageSfltListen_Init_def RawMessageSfltIoctl_Init_def RawMessageRuleAdded_Init_def
  RawMessageRuleDeleted_Init_def RawMessageRuleActivated_Init_def RawMessageRuleDeactivated_Init_def
  RawMessageSocketOpen_Init_def RawMessageSocketClosed_Init_def RawMessageFirewallActivated_Init_def
  RawMessageClientSubscribedAsaProviderOfRules_Init_def
  RawMessageClientUnsubscribedAsaProviderOfRules_Init_def
  RawMessageClientSubscribedToInfoRules_Init_def RawMessageClientUnsubscribedFromInfoRules_Init_def
  RawMessageClientSubscribedToInfoSockets_Init_def RawMessageClientUnsubscribedFromInfoSockets_Init_def

lemmas address_defs =
  CreateSfltGetPeerName_def CreateSfltGetSockName_def CreateSfltDataIn_def CreateSfltDataOut_def
  CreateSfltConnectIn_def CreateSfltConnectOut_def CreateSfltBind_def
  RawMessageSfltGetPeerName_GetNeededSize_def RawMessageSfltGetSockName_GetNeededSize_def
  RawMessageSfltDataIn_GetNeededSize_def RawMessageSfltDataOut_GetNeededSize_def
  RawMessageSfltConnectIn_GetNeededSize_def RawMessageSfltConnectOut_GetNeededSize_def
  RawMessageSfltBind_GetNeededSize_def
  RawMessageSfltGetPeerName_Init_def RawMessageSfltGetSockName_Init_def
  RawMessageSfltDataIn_Init_def RawMessageSfltDataOut_Init_def
  RawMessageSfltConnectIn_Init_def RawMessageSfltConnectOut_Init_def RawMessageSfltBind_Init_def

lemma take2_init: "take 2 (RawMessageBase_Init sz ty @ rest) = RawMessageBase_Init sz ty"
  by (simp add: RawMessageBase_Init_def)

lemma address_message:
  assumes "grants k NewMessage n" and "sockaddr_ok sa" and "sizeof abi S < 1000"
    and "S = RawMessageBase @ [(F_pid, CU32), (F_uid, CU32), (F_so, CU64), (F_sa, CBytes 2)]"
  shows "\<exists>m. Option.bind (needed_size abi S sa) (\<lambda>needed.
      new_message k n (unat needed) (\<lambda>m0. do {
        m1 \<leftarrow> put_fields abi S (RawMessageBase_Init (unat needed) ty @
          [(F_pid, unat pid), (F_uid, unat uid), (F_so, unat so)]) m0;
        (n, m2) \<leftarrow> SockAddress_Copy sa (offsetof abi S F_sa) m1;
        Some m2 })) = Some (Some m) \<and> message_ok ty m"
  using new_address_message [OF _ _ _ _ assms(3,2,1), where R = "[(F_pid, CU32), (F_uid, CU32), (F_so, CU64)]"
      and rest = "[(F_pid, unat pid), (F_uid, unat uid), (F_so, unat so)]" and ty = ty]
  by (simp add: assms(4) RawMessageBase_Init_def RawMessageBase_def) blast

lemma address_proto_fields:
  fixes proto :: u16
  assumes "grants k NewMessage n" and "sockaddr_ok sa" and "sizeof abi S < 1000"
    and "S = RawMessageBase @ [(F_pid, CU32), (F_uid, CU32), (F_so, CU64), (F_proto, CU16), (F_sa, CBytes 2)]"
  shows "\<exists>m. Option.bind (needed_size abi S sa) (\<lambda>needed.
      new_message k n (unat needed) (\<lambda>m0. do {
        m1 \<leftarrow> put_fields abi S (RawMessageBase_Init (unat needed) ty @
          [(F_pid, unat pid), (F_uid, unat uid), (F_so, unat so), (F_proto, unat proto)]) m0;
        (n, m2) \<leftarrow> SockAddress_Copy sa (offsetof abi S F_sa) m1;
        Some m2 })) = Some (Some m) \<and> message_ok ty m \<and> map_option unat (raw_size m) = Some (length (raw m)) \<and>
    read_sockaddr (offsetof abi S F_sa) (raw m) = Some (sockaddr_bytes sa) \<and>
    (\<forall>f v p t. (f, v) \<in> set [(F_pid, unat pid), (F_uid, unat uid), (F_so, unat so), (F_proto, unat proto)] \<longrightarrow>
       field abi S f = Some (p, t) \<longrightarrow> get_field abi S f (raw m) = Some (v mod 256 ^ csize t))"
  by (rule new_address_message [OF _ _ _ _ assms(3,2,1),
      where R = "[(F_pid, CU32), (F_uid, CU32), (F_so, CU64), (F_proto, CU16)]"
      and rest = "[(F_pid, unat pid), (F_uid, unat uid), (F_so, unat so), (F_proto, unat proto)]" and ty = ty])
    (simp_all add: assms(4) RawMessageBase_Init_def RawMessageBase_def)

lemma address_proto_message:
  fixes proto :: u16
  assumes "grants k NewMessage n" and "sockaddr_ok sa" and "sizeof abi S < 1000"
    and "S = RawMessageBase @ [(F_pid, CU32), (F_uid, CU32), (F_so, CU64), (F_proto, CU16), (F_sa, CBytes 2)]"
  shows "\<exists>m. Option.bind (needed_size abi S sa) (\<lambda>needed.
      new_message k n (unat needed) (\<lambda>m0. do {
        m1 \<leftarrow> put_fields abi S (RawMessageBase_Init (unat needed) ty @
          [(F_pid, unat pid), (F_uid, unat uid), (F_so, unat so), (F_proto, unat proto)]) m0;
        (n, m2) \<leftarrow> SockAddress_Copy sa (offsetof abi S F_sa) m1;
        Some m2 })) = Some (Some m) \<and> message_ok ty m"
  using address_proto_fields [OF assms] by blast

lemma accept_layout:
  "RawMessageSfltAccept = (RawMessageBase @ [(F_pid, CU32), (F_uid, CU32), (F_soListen, CU64), (F_so, CU64)]) @ [(F_data, CBytes 4)]"
  "offsetof abi RawMessageSfltAccept F_data + 4 \<le> sizeof abi RawMessageSfltAccept"
proof -
  show "offsetof abi RawMessageSfltAccept F_data + 4 \<le> sizeof abi RawMessageSfltAccept"
  proof (cases abi)
    case I386
    show ?thesis unfolding I386 by code_simp
  next
    case X86_64
    show ?thesis unfolding X86_64 by code_simp
  qed
qed (simp add: struct_defs)

lemma socket_data_layout:
  "RawMessageSocketData = (RawMessageBase @
     [(F_stateOperation, CU8), (F_direction, CU8), (F_stateByRuleId, CU32), (F_pid, CU32),
      (F_uid, CU32), (F_so, CU64), (F_packets, CU32), (F_bytes, CU32)]) @ [(F_data, CBytes 3)]"
  "offsetof abi RawMessageSocketData F_data + 4 \<le> sizeof abi RawMessageSocketData"
proof -
  show "offsetof abi RawMessageSocketData F_data + 4 \<le> sizeof abi RawMessageSocketData"
  proof (cases abi)
    case I386
    show ?thesis unfolding I386 by code_simp
  next
    case X86_64
    show ?thesis unfolding X86_64 by code_simp
  qed
qed (simp add: struct_defs)

lemma accept_needed_size:
  assumes "sockaddr_ok local" and "sockaddr_ok remote"
  shows "\<exists>n. RawMessageSfltAccept_GetNeededSize abi local remote = Some n \<and>
    unat n = sizeof abi RawMessageSfltAccept + length (sockaddr_bytes local) + length (sockaddr_bytes remote) - 4"
proof -
  have one: "\<exists>l. (case sa of None \<Rightarrow> Some 2 | Some a \<Rightarrow> rd_u8 a 0) = Some l \<and> unat l = length (sockaddr_bytes sa)"
    if "sockaddr_ok sa" for sa
    using that by (cases sa) (auto simp: sockaddr_bytes_def sockaddr_ok_def rd_u8_def hd_conv_nth)
  obtain l r where l: "(case local of None \<Rightarrow> Some 2 | Some a \<Rightarrow> rd_u8 a 0) = Some l" "unat l = length (sockaddr_bytes local)"
    and r: "(case remote of None \<Rightarrow> Some 2 | Some a \<Rightarrow> rd_u8 a 0) = Some r" "unat r = length (sockaddr_bytes remote)"
    using one assms by blast
  have b: "4 \<le> sizeof abi RawMessageSfltAccept" "sizeof abi RawMessageSfltAccept < 1000"
    using accept_layout(2) [of abi] by (simp, simp add: layout_simps message_structs_def)
  have lt: "unat l < 256" "unat r < 256" using unsigned_less [of l] unsigned_less [of r] by auto
  have "(of_nat (sizeof abi RawMessageSfltAccept) + ucast l + ucast r - 4 :: u16) =
    of_nat (sizeof abi RawMessageSfltAccept + unat l + unat r - 4)"
    using b by (simp add: of_nat_diff)
  moreover have "unat (of_nat (sizeof abi RawMessageSfltAccept + unat l + unat r - 4) :: u16) =
    sizeof abi RawMessageSfltAccept + unat l + unat r - 4"
    using b lt by (simp only: unat_of_nat) simp
  ultimately show ?thesis using l r by (simp add: RawMessageSfltAccept_GetNeededSize_def)
qed

lemma accept_message:
  assumes "grants k NewMessage n" and "sockaddr_ok local" and "sockaddr_ok remote"
  shows "\<exists>m. CreateSfltAccept k abi n pid uid so_listen so local remote = Some (Some m) \<and>
    message_ok (server_code MessageTypeSfltAccept) m \<and>
    RawMessageSfltAccept_GetLocal abi (raw m) = Some (sockaddr_bytes local) \<and>
    RawMessageSfltAccept_GetRemote abi (raw m) = Some (sockaddr_bytes remote)"
proof -
  obtain nd where nd: "RawMessageSfltAccept_GetNeededSize abi local remote = Some nd"
    "unat nd = sizeof abi RawMessageSfltAccept + length (sockaddr_bytes local) + length (sockaddr_bytes remote) - 4"
    using accept_needed_size [OF assms(2,3)] by blast
  have len: "2 \<le> length (sockaddr_bytes local)" "2 \<le> length (sockaddr_bytes remote)"
    using sockaddr_bytes_length assms by auto
  have cap: "sizeof abi RawMessageSfltAccept \<le> unat nd"
    "offsetof abi RawMessageSfltAccept F_data + length (sockaddr_bytes local) + length (sockaddr_bytes remote) \<le> unat nd"
    using nd(2) len accept_layout(2) [of abi] by simp_all
  have nd4: "4 \<le> unat nd" using cap(2) len by simp
  define rest where "rest = [(F_pid, unat pid), (F_uid, unat uid), (F_soListen, unat so_listen), (F_so, unat so)]"
  have side: "F_data \<notin> fst ` set (RawMessageBase @ [(F_pid, CU32), (F_uid, CU32), (F_soListen, CU64), (F_so, CU64)])"
    "fst ` set rest \<subseteq> fst ` set [(F_pid, CU32), (F_uid, CU32), (F_soListen, CU64), (F_so, CU64)]"
    "distinct (map fst (RawMessageBase_Init 0 (server_code MessageTypeSfltAccept) @ rest))"
    by (simp_all add: rest_def RawMessageBase_def RawMessageBase_Init_def)
  obtain m where m: "new_message k n (unat nd)
      (RawMessageSfltAccept_Init abi nd pid uid so_listen so local remote) = Some (Some m)"
    "message_ok (server_code MessageTypeSfltAccept) m"
    "read_sockaddr (offsetof abi RawMessageSfltAccept F_data) (raw m) = Some (sockaddr_bytes local)"
    "read_sockaddr (offsetof abi RawMessageSfltAccept F_data + length (sockaddr_bytes local)) (raw m)
       = Some (sockaddr_bytes remote)"
    using new_two_address_message [OF accept_layout(1) side assms(2,3,1) cap _ order_refl] nd4
    unfolding RawMessageSfltAccept_Init_def rest_def by blast
  obtain b bs where b: "sockaddr_bytes local = b # bs" "unat b = length (sockaddr_bytes local)"
    using sockaddr_bytes_first assms by blast
  have "rd_u8 (raw m) (offsetof abi RawMessageSfltAccept F_data) = Some b"
    using m(3) b(1) by (auto simp: read_sockaddr_def bind_eq_Some_conv dest: peek_first)
  with m(3,4) b(2) have "RawMessageSfltAccept_GetLocal abi (raw m) = Some (sockaddr_bytes local)"
    "RawMessageSfltAccept_GetRemote abi (raw m) = Some (sockaddr_bytes remote)"
    by (simp_all add: RawMessageSfltAccept_GetLocal_def RawMessageSfltAccept_GetRemote_def)
  moreover have "CreateSfltAccept k abi n pid uid so_listen so local remote = Some (Some m)"
    using m(1) nd(1) by (simp add: CreateSfltAccept_def)
  ultimately show ?thesis using m(2) by blast
qed

lemma socket_data_message:
  assumes "grants k NewMessage n" and ok: "sockaddr_ok from" "sockaddr_ok to"
    and name: "case processName of None \<Rightarrow> True | Some s \<Rightarrow> length s < 60000"
  shows "\<exists>m. CreateSocketData k abi n direction stateOperation stateByRuleId pid uid so packets bytes
      from to processName = Some (Some m) \<and> message_ok (server_code MessageTypeSocketData) m \<and>
    RawMessageSocketData_GetFromSocketAddress abi (raw m) = Some (sockaddr_bytes from) \<and>
    RawMessageSocketData_GetToSocketAddress abi (raw m) = Some (sockaddr_bytes to)"
proof -
  define len where "len sa = (case sa of None \<Rightarrow> 0 | Some a \<Rightarrow> unat (hd a))" for sa :: "u8 list option"
  have rd: "(case sa of None \<Rightarrow> Some 0 | Some a \<Rightarrow> map_option unat (rd_u8 a 0)) = Some (len sa)"
    "length (sockaddr_bytes sa) \<le> len sa + (if sa = None then 2 else 0)" "len sa < 256"
    if "sockaddr_ok sa" for sa
    using that unsigned_less [of "hd (the sa)"]
    by (auto simp: len_def sockaddr_ok_def rd_u8_def hd_conv_nth sockaddr_bytes_def split: option.splits)
  define pn where "pn = (case processName of None \<Rightarrow> 0 | Some s \<Rightarrow> length s)"
  define cap where "cap = sizeof abi RawMessageSocketData + len from + len to + pn"
  have small: "sizeof abi RawMessageSocketData < 1000"
    by (simp add: layout_simps message_structs_def)
  have "pn < 60000" using name by (simp add: pn_def split: option.splits)
  with small rd(3) [OF ok(1)] rd(3) [OF ok(2)] have "cap < 2 ^ 16" by (simp add: cap_def)
  then have sz: "unat (of_nat cap :: u16) \<le> cap" "4 \<le> unat (of_nat cap :: u16)"
    using socket_data_layout(2) [of abi] by (simp_all only: unat_of_nat, simp_all add: cap_def)
  have caps: "sizeof abi RawMessageSocketData \<le> cap"
    "offsetof abi RawMessageSocketData F_data + length (sockaddr_bytes from) + length (sockaddr_bytes to) \<le> cap"
    using socket_data_layout(2) [of abi] rd(2) [OF ok(1)] rd(2) [OF ok(2)]
    by (simp_all add: cap_def split: if_splits)
  define rest where "rest = [(F_stateOperation, unat stateOperation), (F_stateByRuleId, unat stateByRuleId),
         (F_pid, unat pid), (F_uid, unat uid), (F_so, unat so), (F_packets, unat packets),
         (F_bytes, unat bytes), (F_direction, unat direction)]"
  have side: "F_data \<notin> fst ` set (RawMessageBase @
     [(F_stateOperation, CU8), (F_direction, CU8), (F_stateByRuleId, CU32), (F_pid, CU32),
      (F_uid, CU32), (F_so, CU64), (F_packets, CU32), (F_bytes, CU32)])"
    "fst ` set rest \<subseteq> fst ` set [(F_stateOperation, CU8), (F_direction, CU8), (F_stateByRuleId, CU32), (F_pid, CU32),
      (F_uid, CU32), (F_so, CU64), (F_packets, CU32), (F_bytes, CU32)]"
    "distinct (map fst (RawMessageBase_Init 0 (server_code MessageTypeSocketData) @ rest))"
    by (simp_all add: rest_def RawMessageBase_def RawMessageBase_Init_def)
  obtain m where m: "new_message k n cap (RawMessageSocketData_Init abi (of_nat cap) direction stateOperation
      stateByRuleId pid uid so packets bytes from to) = Some (Some m)"
    "message_ok (server_code MessageTypeSocketData) m"
    "read_sockaddr (offsetof abi RawMessageSocketData F_data) (raw m) = Some (sockaddr_bytes from)"
    "read_sockaddr (offsetof abi RawMessageSocketData F_data + length (sockaddr_bytes from)) (raw m) = Some (sockaddr_bytes to)"
    using new_two_address_message [OF socket_data_layout(1) side ok assms(1) caps sz(2,1)]
    unfolding RawMessageSocketData_Init_def rest_def by blast
  obtain b bs where b: "sockaddr_bytes from = b # bs" "unat b = length (sockaddr_bytes from)"
    using sockaddr_bytes_first ok by blast
  have "rd_u8 (raw m) (offsetof abi RawMessageSocketData F_data) = Some b"
    using m(3) b(1) by (auto simp: read_sockaddr_def bind_eq_Some_conv dest: peek_first)
  with m(3,4) b(2) have "RawMessageSocketData_GetFromSocketAddress abi (raw m) = Some (sockaddr_bytes from)"
    "RawMessageSocketData_GetToSocketAddress abi (raw m) = Some (sockaddr_bytes to)"
    by (simp_all add: RawMessageSocketData_GetFromSocketAddress_def RawMessageSocketData_GetToSocketAddress_def)
  moreover have "CreateSocketData k abi n direction stateOperation stateByRuleId pid uid so packets bytes
      from to processName = Some (Some m)"
    using m(1) by (simp add: CreateSocketData_def rd(1) [OF ok(1)] rd(1) [OF ok(2)] Let_def cap_def pn_def)
  ultimately show ?thesis using m(2) by blast
qed

lemma text_fields:
  assumes "grants k NewMessage n"
  shows "\<exists>m. CreateText k abi n (Some text) = Some (Some m) \<and> references m = 1 \<and> length (raw m) = 259 \<and>
    raw_size m = Some (of_nat (length text + 5)) \<and> raw_type m = Some (server_code MessageTypeText)"
proof -
  let ?bs = "take 253 text @ [0]"
  let ?fvs = "[(F_size, length text + 5), (F_type, unat (server_code MessageTypeText))]"
  obtain m1 where p1: "poke 4 ?bs (fresh_raw k n 259) = Some m1"
    using poke_defined [of 4 ?bs "fresh_raw k n 259"] min.cobounded2 [of "length text" 253] by auto
  then have m1: "poke 4 ?bs (fresh_raw k n 259) = Some m1" "length m1 = 259"
    using poke_length [OF p1] by auto
  have cap: "sizeof abi RawMessageBase \<le> length m1" by (simp add: m1)
  have side: "fst ` set ?fvs \<subseteq> fst ` set RawMessageBase"
    "RawMessageBase = RawMessageBase @ []" "distinct (map fst ?fvs)"
    "?fvs = RawMessageBase_Init (length text + 5) (server_code MessageTypeText) @ []"
    by (simp_all add: RawMessageBase_def RawMessageBase_Init_def)
  obtain m2 where m2: "put_fields abi RawMessageBase ?fvs m1 = Some m2" "length m2 = length m1"
    "rd_u16 m2 0 = Some (of_nat (length text + 5))" "rd_u16 m2 2 = Some (server_code MessageTypeText)"
    by (rule put_fields_then [OF side(1) cap side(2,4,3)])
  have "CreateText k abi n (Some text) = Some (Some \<lparr>references = 1, raw = m2\<rparr>)"
    using assms m1 m2 by (simp add: CreateText_def new_message_def add.commute [of 5])
  then show ?thesis using m1 m2 by (simp add: raw_size_def raw_type_def)
qed

lemma text_message:
  assumes "grants k NewMessage n" and "length text \<le> 254"
  shows "\<exists>m. CreateText k abi n (Some text) = Some (Some m) \<and> message_ok (server_code MessageTypeText) m"
proof -
  have "unat (of_nat (length text + 5) :: u16) = length text + 5"
    using assms(2) by (simp only: unat_of_nat) simp
  then show ?thesis using text_fields [OF assms(1), of abi "text"] assms(2) by (auto simp: message_ok_def)
qed

lemma firewall_activated_message:
  assumes "grants k NewMessage n"
  shows "\<exists>m. CreateFirewallActivated k abi n unitId clientMessageId actionState = Some (Some m) \<and>
    message_ok (server_code MessageTypeFirewallActivated) m"
  unfolding CreateFirewallActivated_def RawMessageFirewallActivated_Init_def
  by (rule message_ok_simple, simp add: struct_defs,
      simp add: RawMessageBase_Init_def RawMessageClientActionResponse_Init_def,
      simp add: struct_defs RawMessageBase_Init_def RawMessageClientActionResponse_Init_def,
      simp add: RawMessageBase_Init_def RawMessageClientActionResponse_Init_def,
      simp add: layout_simps message_structs_def, rule assms)

text \<open>
  Every construction gives a live message of its type whose declared size fits its buffer, and
  writes nowhere outside the buffer; without memory it gives NULL.
\<close>

lemma created_message:
  assumes "created k abi n ty r" and "grants k NewMessage n"
  shows "\<exists>m. r = Some (Some m) \<and> message_ok (server_code ty) m"
  using assms
proof (induction rule: created.induct)
  case (Text str)
  then show ?case by (intro text_message)
next
  case (SfltGetPeerName sa pid uid so)
  then show ?case unfolding address_defs
    by (intro address_message [OF assms(2) _ _ RawMessageSfltGetPeerName_def]) (simp_all add: layout_simps message_structs_def)
next
  case (SfltGetSockName sa pid uid so)
  then show ?case unfolding address_defs
    by (intro address_message [OF assms(2) _ _ RawMessageSfltGetSockName_def]) (simp_all add: layout_simps message_structs_def)
next
  case (SfltDataIn sa pid uid so proto)
  then show ?case unfolding address_defs
    by (intro address_proto_message [OF assms(2) _ _ RawMessageSfltDataIn_def]) (simp_all add: layout_simps message_structs_def)
next
  case (SfltDataOut sa pid uid so proto)
  then show ?case unfolding address_defs
    by (intro address_proto_message [OF assms(2) _ _ RawMessageSfltDataOut_def]) (simp_all add: layout_simps message_structs_def)
next
  case (SfltConnectIn sa pid uid so)
  then show ?case unfolding address_defs
    by (intro address_message [OF assms(2) _ _ RawMessageSfltConnectIn_def]) (simp_all add: layout_simps message_structs_def)
next
  case (SfltConnectOut sa pid uid so)
  then show ?case unfolding address_defs
    by (intro address_message [OF assms(2) _ _ RawMessageSfltConnectOut_def]) (simp_all add: layout_simps message_structs_def)
next
  case (SfltBind sa pid uid so)
  then show ?case unfolding address_defs
    by (intro address_message [OF assms(2) _ _ RawMessageSfltBind_def]) (simp_all add: layout_simps message_structs_def)
next
  case (SfltAccept local remote pid uid so_listen so)
  then show ?case using accept_message by blast
next
  case (SocketData "from" to processName direction stateOperation stateByRuleId pid uid so packets bytes)
  then show ?case using socket_data_message by blast
next
  case FirewallClosing
  then show ?case
    using message_ok_simple [of RawMessageFirewallClosing
        "RawMessageBase_Init (sizeof abi RawMessageFirewallClosing) (server_code MessageTypeFirewallClosing)"
        abi "server_code MessageTypeFirewallClosing" k n]
    by (simp add: CreateFirewallClosing_def RawMessageFirewallClosing_Init_def RawMessageBase_Init_def
        RawMessageFirewallClosing_def RawMessageBase_def layout_simps message_structs_def struct_defs)
next
  case (FirewallDeactivated unitId clientMessageId actionState)
  have "RawMessageFirewallDeactivated = RawMessageFirewallActivated" by (simp add: struct_defs)
  then have "CreateFirewallDeactivated k abi n unitId clientMessageId actionState =
      CreateFirewallActivated k abi n unitId clientMessageId actionState"
    by (simp add: CreateFirewallDeactivated_def CreateFirewallActivated_def)
  with firewall_activated_message [OF assms(2)] show ?case by (simp only:)
qed (simp only: create_defs simple_init_defs, rule message_ok_simple, simp add: struct_defs,
     simp add: RawMessageBase_Init_def RawMessageClientActionResponse_Init_def,
     simp add: struct_defs RawMessageBase_Init_def RawMessageClientActionResponse_Init_def,
     simp add: RawMessageBase_Init_def RawMessageClientActionResponse_Init_def,
     simp add: layout_simps message_structs_def, rule assms(2))+

text \<open>Without memory a construction gives NULL; it reads no more than the length of an address before.\<close>

lemma new_message_null [simp]: "\<not> grants k NewMessage n \<Longrightarrow> new_message k n c init = Some None"
  by (simp add: new_message_def)

lemma sockaddr_ok_length: "sockaddr_ok (Some a) \<Longrightarrow> \<exists>len. rd_u8 a 0 = Some len"
  by (cases a) (auto simp: sockaddr_ok_def rd_u8_def)

lemma needed_size_null: "sockaddr_ok sa \<Longrightarrow> Option.bind (needed_size abi S sa) (\<lambda>_. Some None) = Some None"
  by (cases sa) (auto simp: needed_size_def dest: sockaddr_ok_length)

lemma two_lengths:
  assumes "sockaddr_ok local" and "sockaddr_ok remote"
  shows "\<exists>sz. RawMessageSfltAccept_GetNeededSize abi local remote = Some sz"
  using assms
  by (cases local; cases remote) (auto simp: RawMessageSfltAccept_GetNeededSize_def dest!: sockaddr_ok_length)

lemma created_null:
  assumes "created k abi n ty r" and "\<not> grants k NewMessage n"
  shows "r = Some None"
  using assms(1)
proof cases
  case (SfltAccept local remote pid uid so_listen so)
  with two_lengths [OF SfltAccept(3,4), of abi] assms(2) show ?thesis by (auto simp: CreateSfltAccept_def)
next
  case (SocketData "from" to processName direction stateOperation stateByRuleId pid uid so packets bytes)
  then show ?thesis using assms(2)
    by (cases "from"; cases to)
      (auto simp: CreateSocketData_def dest!: sockaddr_ok_length)
qed (use assms(2) in \<open>simp add: create_defs address_defs CreateText_def CreateFirewallClosing_def needed_size_null\<close>)+

text \<open>A data-out message carries its fields, at the offsets of the structure, on both architectures.\<close>

lemma data_out_fields:
  assumes "grants k NewMessage n" and "sockaddr_ok sa"
  shows "\<exists>m. CreateSfltDataOut k abi n pid uid so proto sa = Some (Some m) \<and>
    raw_type m = Some (server_code MessageTypeSfltDataOut) \<and> map_option unat (raw_size m) = Some (length (raw m)) \<and>
    get_field abi RawMessageSfltDataOut F_pid (raw m) = Some (unat pid) \<and>
    get_field abi RawMessageSfltDataOut F_uid (raw m) = Some (unat uid) \<and>
    get_field abi RawMessageSfltDataOut F_so (raw m) = Some (unat so) \<and>
    get_field abi RawMessageSfltDataOut F_proto (raw m) = Some (unat (ucast proto :: u16)) \<and>
    read_sockaddr (offsetof abi RawMessageSfltDataOut F_sa) (raw m) = Some (sockaddr_bytes sa)"
proof -
  have small: "sizeof abi RawMessageSfltDataOut < 1000"
    by (rule message_structs_small) (simp add: message_structs_def)
  obtain m where m: "CreateSfltDataOut k abi n pid uid so proto sa = Some (Some m)"
    "message_ok (server_code MessageTypeSfltDataOut) m" "map_option unat (raw_size m) = Some (length (raw m))"
    "read_sockaddr (offsetof abi RawMessageSfltDataOut F_sa) (raw m) = Some (sockaddr_bytes sa)"
    "\<forall>f v p t. (f, v) \<in> set [(F_pid, unat pid), (F_uid, unat uid), (F_so, unat so), (F_proto, unat (ucast proto :: u16))] \<longrightarrow>
       field abi RawMessageSfltDataOut f = Some (p, t) \<longrightarrow>
       get_field abi RawMessageSfltDataOut f (raw m) = Some (v mod 256 ^ csize t)"
    using address_proto_fields [OF assms small RawMessageSfltDataOut_def,
      of "server_code MessageTypeSfltDataOut" pid uid so "ucast proto"] unfolding address_defs by blast
  have f: "\<exists>p. field abi RawMessageSfltDataOut F_pid = Some (p, CU32)"
    "\<exists>p. field abi RawMessageSfltDataOut F_uid = Some (p, CU32)"
    "\<exists>p. field abi RawMessageSfltDataOut F_so = Some (p, CU64)"
    "\<exists>p. field abi RawMessageSfltDataOut F_proto = Some (p, CU16)"
    by (cases abi; simp add: layout_eval RawMessageSfltDataOut_def RawMessageBase_def)+
  have u16: "unat w < 2 ^ 16" for w :: u16 by (rule order_less_le_trans [OF unsigned_less]) simp
  have u32: "unat w < 2 ^ 32" for w :: u32 by (rule order_less_le_trans [OF unsigned_less]) simp
  have u64: "unat w < 2 ^ 64" for w :: u64 by (rule order_less_le_trans [OF unsigned_less]) simp
  have b: "unat pid mod 256 ^ 4 = unat pid" "unat uid mod 256 ^ 4 = unat uid" "unat so mod 256 ^ 8 = unat so"
    "unat (ucast proto :: u16) mod 256 ^ 2 = unat (ucast proto :: u16)"
    using u32 [of pid] u32 [of uid] u64 [of so] u16 [of "ucast proto"] by simp_all
  have "get_field abi RawMessageSfltDataOut F_pid (raw m) = Some (unat pid)"
    "get_field abi RawMessageSfltDataOut F_uid (raw m) = Some (unat uid)"
    "get_field abi RawMessageSfltDataOut F_so (raw m) = Some (unat so)"
    "get_field abi RawMessageSfltDataOut F_proto (raw m) = Some (unat (ucast proto :: u16))"
    using m(5) f b by fastforce+
  with m show ?thesis unfolding message_ok_def by blast
qed

section \<open>Properties\<close>

text \<open>C10. Every constructor of a message the code calls with its documented arguments (addresses
  with a true length byte, texts that fit) gives a message whose header says what it is: the right type, one
  reference, and a size that does not exceed its buffer; when the allocation is refused it gives NULL. The
  one exception is listed in \<open>created\<close>: \<open>CreateFirewallDeactivated\<close> has the type of \<open>FirewallActivated\<close>.\<close>

theorem create_well_formed:
  assumes "created k abi n ty r"
  shows "if grants k NewMessage n
    then \<exists>m sz. r = Some (Some m) \<and> references m = 1 \<and> raw_type m = Some (server_code ty) \<and>
      raw_size m = Some sz \<and> unat sz \<le> length (raw m)
    else r = Some None"
  using created_message [OF assms] created_null [OF assms] by (auto simp: message_ok_def)

lemma create_well_formed_witness:
  "\<exists>m. CreateSfltListen plain_kernel X86_64 0 1 2 3 = Some (Some m) \<and> raw_type m = Some (server_code MessageTypeSfltListen)"
  using create_well_formed [OF created.SfltListen [where k = plain_kernel and abi = X86_64 and n = 0 and pid = 1 and uid = 2 and so = 3]] by auto

text \<open>The message of a deactivated firewall cannot be told from that of an activated
  one: the two constructors build the same message, byte for byte, from the same arguments.\<close>

theorem deactivated_is_activated:
  "CreateFirewallDeactivated k abi n unitId clientMessageId actionState =
   CreateFirewallActivated k abi n unitId clientMessageId actionState"
  by (simp add: CreateFirewallDeactivated_def CreateFirewallActivated_def
      RawMessageFirewallDeactivated_def RawMessageFirewallActivated_def)

text \<open>C18. The two addresses of an accept message and of a socket data message survive the trip: the
  access functions of the receiver (\<open>GetLocal\<close> and \<open>GetRemote\<close>, \<open>GetFromSocketAddress\<close> and \<open>GetToSocketAddress\<close>)
  give back the socket addresses that the constructors were called with (two bytes, length 2, for a missing one),
  whatever their lengths, the process name (of fewer than 60000 bytes) and the layout of the structure are.\<close>

theorem addresses_roundtrip:
  assumes "grants k NewMessage n" and "sockaddr_ok local" and "sockaddr_ok remote"
    and "case processName of None \<Rightarrow> True | Some s \<Rightarrow> length s < 60000"
  shows "(\<exists>m. CreateSfltAccept k abi n pid uid so_listen so local remote = Some (Some m) \<and>
    raw_type m = Some (server_code MessageTypeSfltAccept) \<and>
    RawMessageSfltAccept_GetLocal abi (raw m) = Some (sockaddr_bytes local) \<and>
    RawMessageSfltAccept_GetRemote abi (raw m) = Some (sockaddr_bytes remote)) \<and>
   (\<exists>m. CreateSocketData k abi n direction stateOperation stateByRuleId pid uid so packets bytes local remote processName =
      Some (Some m) \<and>
    raw_type m = Some (server_code MessageTypeSocketData) \<and>
    RawMessageSocketData_GetFromSocketAddress abi (raw m) = Some (sockaddr_bytes local) \<and>
    RawMessageSocketData_GetToSocketAddress abi (raw m) = Some (sockaddr_bytes remote))"
  using accept_message [OF assms(1-3), of abi pid uid so_listen so]
    socket_data_message [OF assms, of abi direction stateOperation stateByRuleId pid uid so packets bytes]
  unfolding message_ok_def by blast

lemma addresses_roundtrip_witness:
  "\<exists>m. CreateSfltAccept plain_kernel I386 0 1 2 3 4 (Some [4, 2, 7, 9]) None = Some (Some m) \<and>
    RawMessageSfltAccept_GetLocal I386 (raw m) = Some [4, 2, 7, 9] \<and>
    RawMessageSfltAccept_GetRemote I386 (raw m) = Some [2, 0]"
  using addresses_roundtrip [of plain_kernel 0 "Some [4, 2, 7, 9]" None None I386 1 2 3 4 1 1 0 0 0]
  by (auto simp: sockaddr_ok_def sockaddr_bytes_def)

text \<open>A text that does not fit is cut in the buffer but not in the header: from 255 characters
  on, \<open>raw.size\<close> exceeds the buffer, so sending the message reads beyond it.\<close>

theorem long_text_overclaims:
  assumes "grants k NewMessage n" and "254 < length text" and "length text + 5 < 2 ^ 16"
  shows "\<exists>m sz. CreateText k abi n (Some text) = Some (Some m) \<and> raw_size m = Some sz \<and>
    unat sz = length text + 5 \<and> length (raw m) = 259 \<and> length (raw m) < unat sz"
proof -
  have "unat (of_nat (length text + 5) :: u16) = length text + 5"
    using assms(3) by (simp only: unat_of_nat) simp
  then show ?thesis using text_fields [OF assms(1), of abi "text"] assms(2) by auto
qed

lemma long_text_overclaims_witness:
  "\<exists>m sz. CreateText plain_kernel X86_64 0 (Some (replicate 300 65)) = Some (Some m) \<and> raw_size m = Some sz \<and>
    length (raw m) = 259 \<and> unat sz = 305"
  using long_text_overclaims [of plain_kernel 0 "replicate 300 65" X86_64] by auto

end
