(* ===== verification/Chain.thy ===== *)
theory Chain
  imports Prelude
begin

text \<open>
  Pointer chains. The program keeps its rules, socket cookies and applications in doubly linked
  chains and its message and deferred-data queues in singly linked ones with a tail pointer. The
  pointer manipulations have the same shape in each class; they are written here once over the
  accessors of the link fields (\<open>nx\<close>, \<open>pv\<close> and their updates), and each component instantiates
  them with its own record fields.

  \<^item> \<open>path nx h p as q\<close>: following \<open>nx\<close> from \<open>p\<close> visits exactly the cells \<open>as\<close> and arrives at \<open>q\<close>;
  \<^item> \<open>chain nx h p as\<close>: such a path that ends in NULL;
  \<^item> \<open>backs\<close>: every cell's back link is its predecessor; \<open>wbacks\<close>: it is the predecessor or NULL;
  \<^item> \<open>queue_at\<close>: a chain together with the pointer to its last cell;
  \<^item> the locale \<open>two_links\<close> holds the laws of the link fields of a record and, under them, what
    unlinking, pushing, inserting and appending do to a chain.
\<close>

section \<open>Paths\<close>

primrec path :: "('o \<Rightarrow> ptr) \<Rightarrow> 'o heap \<Rightarrow> ptr \<Rightarrow> addr list \<Rightarrow> ptr \<Rightarrow> bool" where
  "path nx h p [] q \<longleftrightarrow> p = q"
| "path nx h p (a # as) q \<longleftrightarrow> p = Some a \<and> (\<exists>x. h a = Some x \<and> path nx h (nx x) as q)"

definition chain :: "('o \<Rightarrow> ptr) \<Rightarrow> 'o heap \<Rightarrow> ptr \<Rightarrow> addr list \<Rightarrow> bool" where
  "chain nx h p as \<longleftrightarrow> path nx h p as None"

primrec backs :: "('o \<Rightarrow> ptr) \<Rightarrow> 'o heap \<Rightarrow> ptr \<Rightarrow> addr list \<Rightarrow> bool" where
  "backs pv h p [] \<longleftrightarrow> True"
| "backs pv h p (a # as) \<longleftrightarrow> (\<exists>x. h a = Some x \<and> pv x = p) \<and> backs pv h (Some a) as"

primrec wbacks :: "('o \<Rightarrow> ptr) \<Rightarrow> 'o heap \<Rightarrow> ptr \<Rightarrow> addr list \<Rightarrow> bool" where
  "wbacks pv h p [] \<longleftrightarrow> True"
| "wbacks pv h p (a # as) \<longleftrightarrow>
     (\<exists>x. h a = Some x \<and> (pv x = None \<or> pv x = p)) \<and> wbacks pv h (Some a) as"

lemma path_append [simp]: "path nx h p (as @ bs) q \<longleftrightarrow> (\<exists>r. path nx h p as r \<and> path nx h r bs q)"
  by (induction as arbitrary: p) auto

lemma chain_Nil [simp]: "chain nx h p [] \<longleftrightarrow> p = None"
  by (simp add: chain_def)

lemma chain_Cons [simp]:
  "chain nx h p (a # as) \<longleftrightarrow> p = Some a \<and> (\<exists>x. h a = Some x \<and> chain nx h (nx x) as)"
  by (simp add: chain_def)

lemma chain_None [simp]: "chain nx h None as \<longleftrightarrow> as = []"
  by (cases as) auto

lemma chain_append: "chain nx h p (as @ bs) \<longleftrightarrow> (\<exists>r. path nx h p as r \<and> chain nx h r bs)"
  by (simp add: chain_def)

lemma chain_unique: "chain nx h p as \<Longrightarrow> chain nx h p bs \<Longrightarrow> as = bs"
proof (induction as arbitrary: p bs)
  case Nil
  then show ?case by (cases bs) auto
next
  case (Cons a as)
  then show ?case by (cases bs) auto
qed

lemma path_cong:
  "(\<And>a. a \<in> set as \<Longrightarrow> map_option nx (h' a) = map_option nx (h a)) \<Longrightarrow>
   path nx h' p as q = path nx h p as q"
proof (induction as arbitrary: p)
  case (Cons a as)
  have "map_option nx (h' a) = map_option nx (h a)" using Cons.prems by simp
  with Cons show ?case by (cases "h a"; cases "h' a") auto
qed simp

lemma chain_cong:
  "(\<And>a. a \<in> set as \<Longrightarrow> map_option nx (h' a) = map_option nx (h a)) \<Longrightarrow>
   chain nx h' p as = chain nx h p as"
  unfolding chain_def by (rule path_cong)

lemma backs_cong:
  "(\<And>a. a \<in> set as \<Longrightarrow> map_option pv (h' a) = map_option pv (h a)) \<Longrightarrow>
   backs pv h' p as = backs pv h p as"
proof (induction as arbitrary: p)
  case (Cons a as)
  have "map_option pv (h' a) = map_option pv (h a)" using Cons.prems by simp
  with Cons show ?case by (cases "h a"; cases "h' a") auto
qed simp

lemma wbacks_cong:
  "(\<And>a. a \<in> set as \<Longrightarrow> map_option pv (h' a) = map_option pv (h a)) \<Longrightarrow>
   wbacks pv h' p as = wbacks pv h p as"
proof (induction as arbitrary: p)
  case (Cons a as)
  have "map_option pv (h' a) = map_option pv (h a)" using Cons.prems by simp
  with Cons show ?case by (cases "h a"; cases "h' a") auto
qed simp

lemma path_upd [simp]: "a \<notin> set as \<Longrightarrow> path nx (h(a := y)) p as q = path nx h p as q"
  by (rule path_cong) auto

lemma chain_upd [simp]: "a \<notin> set as \<Longrightarrow> chain nx (h(a := y)) p as = chain nx h p as"
  by (simp add: chain_def)

lemma backs_upd [simp]: "a \<notin> set as \<Longrightarrow> backs pv (h(a := y)) p as = backs pv h p as"
  by (rule backs_cong) auto

lemma wbacks_upd [simp]: "a \<notin> set as \<Longrightarrow> wbacks pv (h(a := y)) p as = wbacks pv h p as"
  by (rule wbacks_cong) auto

lemma path_upd_same: "h a = Some x \<Longrightarrow> nx y = nx x \<Longrightarrow> path nx (h(a \<mapsto> y)) p as q = path nx h p as q"
  by (rule path_cong) auto

lemma chain_upd_same: "h a = Some x \<Longrightarrow> nx y = nx x \<Longrightarrow> chain nx (h(a \<mapsto> y)) p as = chain nx h p as"
  by (rule chain_cong) auto

lemma backs_upd_same: "h a = Some x \<Longrightarrow> pv y = pv x \<Longrightarrow> backs pv (h(a \<mapsto> y)) p as = backs pv h p as"
  by (rule backs_cong) auto

lemma wbacks_upd_same: "h a = Some x \<Longrightarrow> pv y = pv x \<Longrightarrow> wbacks pv (h(a \<mapsto> y)) p as = wbacks pv h p as"
  by (rule wbacks_cong) auto

lemma backs_append:
  "backs pv h p (as @ bs) \<longleftrightarrow> backs pv h p as \<and> backs pv h (if as = [] then p else Some (last as)) bs"
  by (induction as arbitrary: p) auto

lemma wbacks_append:
  "wbacks pv h p (as @ bs) \<longleftrightarrow> wbacks pv h p as \<and> wbacks pv h (if as = [] then p else Some (last as)) bs"
  by (induction as arbitrary: p) auto

lemma backs_imp_wbacks: "backs pv h p as \<Longrightarrow> wbacks pv h p as"
  by (induction as arbitrary: p) auto

lemma wbacks_any: "wbacks pv h None as \<Longrightarrow> wbacks pv h p as"
  by (cases as) auto

lemma path_allocated: "path nx h p as q \<Longrightarrow> a \<in> set as \<Longrightarrow> \<exists>x. h a = Some x"
  by (induction as arbitrary: p) auto

lemma chain_allocated: "chain nx h p as \<Longrightarrow> a \<in> set as \<Longrightarrow> \<exists>x. h a = Some x"
  unfolding chain_def by (rule path_allocated)

lemma chain_dom: "chain nx h p as \<Longrightarrow> set as \<subseteq> dom h"
  by (auto dest: chain_allocated)

text \<open>A chain that ends visits no cell twice.\<close>

lemma chain_head_notin_tail: "chain nx h p (a # as) \<Longrightarrow> a \<notin> set as"
proof
  assume ch: "chain nx h p (a # as)" and "a \<in> set as"
  then obtain us vs where as: "as = us @ a # vs" by (auto simp: in_set_conv_decomp)
  from ch obtain x where x: "h a = Some x" and tail: "chain nx h (nx x) (us @ a # vs)"
    by (auto simp: as)
  from tail obtain r where "chain nx h r (a # vs)" by (auto simp: chain_append)
  with x have "chain nx h (nx x) vs" by auto
  with tail have "us @ a # vs = vs" by (rule chain_unique)
  then show False by (metis append.assoc append_self_conv2 append_Cons append_Nil list.distinct(1))
qed

lemma chain_distinct: "chain nx h p as \<Longrightarrow> distinct as"
proof (induction as arbitrary: p)
  case (Cons a as)
  from Cons.prems have "a \<notin> set as" by (rule chain_head_notin_tail)
  with Cons show ?case by auto
qed simp

lemma path_last_next:
  "path nx h p (as @ [a]) q \<Longrightarrow> \<exists>x. h a = Some x \<and> nx x = q \<and> path nx h p as (Some a)"
  by auto

section \<open>The search loop\<close>

text \<open>
  \<open>while(current) { if(P) break; current = current->next; }\<close>: the address where the loop breaks,
  or NULL. \<open>None\<close> is a dangling link or a cycle in which \<open>P\<close> never holds.
\<close>

partial_function (option) search :: "('o \<Rightarrow> ptr) \<Rightarrow> ('o \<Rightarrow> bool) \<Rightarrow> 'o heap \<Rightarrow> ptr \<Rightarrow> ptr option" where
  "search nx P h cur =
     (case cur of None \<Rightarrow> Some None
      | Some a \<Rightarrow> Option.bind (h a) (\<lambda>x. if P x then Some (Some a) else search nx P h (nx x)))"

lemma search_None [simp]: "search nx P h None = Some None"
  by (simp add: search.simps)

lemma search_Some [simp]:
  "h a = Some x \<Longrightarrow> search nx P h (Some a) = (if P x then Some (Some a) else search nx P h (nx x))"
  by (simp add: search.simps [of nx P h "Some a"])

definition holds_at :: "'o heap \<Rightarrow> ('o \<Rightarrow> bool) \<Rightarrow> addr \<Rightarrow> bool" where
  "holds_at h P a \<longleftrightarrow> (case h a of None \<Rightarrow> False | Some x \<Rightarrow> P x)"

lemma holds_at_Some [simp]: "h a = Some x \<Longrightarrow> holds_at h P a = P x"
  by (simp add: holds_at_def)

text \<open>On a chain the loop ends without a fault and finds the first cell where \<open>P\<close> holds.\<close>

lemma search_chain: "chain nx h p as \<Longrightarrow> search nx P h p = Some (find (holds_at h P) as)"
proof (induction as arbitrary: p)
  case (Cons a as)
  then obtain x where "p = Some a" "h a = Some x" "chain nx h (nx x) as" by auto
  with Cons.IH show ?case by simp
qed simp

lemma find_holds_at_SomeD:
  assumes "find (holds_at h P) as = Some a"
  obtains us vs x where "as = us @ a # vs" "h a = Some x" "P x" "\<forall>b\<in>set us. \<not> holds_at h P b"
proof -
  from assms obtain i where i: "i < length as" "holds_at h P (as ! i)" "a = as ! i"
    "\<forall>j<i. \<not> holds_at h P (as ! j)"
    by (auto simp: find_Some_iff)
  have "as = take i as @ a # drop (Suc i) as"
    using i by (simp add: id_take_nth_drop)
  moreover have "\<forall>b\<in>set (take i as). \<not> holds_at h P b"
    using i by (auto simp: in_set_conv_nth)
  moreover obtain x where "h a = Some x" "P x"
    using i by (auto simp: holds_at_def split: option.splits)
  ultimately show thesis using that by blast
qed

section \<open>Pointer manipulations\<close>

text \<open>
  Unlinking a cell, the common shape of \<open>Rules::RemoveFromChain\<close>, \<open>SocketCookies::Remove\<close> and
  \<open>Applications::Remove\<close>: the predecessor's forward link (or the root) bypasses the cell, the
  successor's back link takes over the cell's back link.
\<close>

fun unlink ::
  "('o \<Rightarrow> ptr) \<Rightarrow> ((ptr \<Rightarrow> ptr) \<Rightarrow> 'o \<Rightarrow> 'o) \<Rightarrow> ('o \<Rightarrow> ptr) \<Rightarrow> ((ptr \<Rightarrow> ptr) \<Rightarrow> 'o \<Rightarrow> 'o) \<Rightarrow>
   addr \<Rightarrow> ptr \<times> 'o heap \<Rightarrow> (ptr \<times> 'o heap) option" where
  "unlink nx set_nx pv set_pv a (root0, h0) = do {
     x \<leftarrow> h0 a;
     (root, h) \<leftarrow>
       (case pv x of
          Some p \<Rightarrow> map_option (Pair root0) (modify (Some p) (set_nx (\<lambda>_. nx x)) h0)
        | None \<Rightarrow> Some (nx x, h0));
     x' \<leftarrow> h a;
     h' \<leftarrow> (case nx x' of Some n \<Rightarrow> modify (Some n) (set_pv (\<lambda>_. pv x')) h | None \<Rightarrow> Some h);
     Some (root, h')
   }"

text \<open>Pushing a cell at the front: \<open>SocketCookies::Add\<close>, \<open>Applications::Add\<close>.\<close>

fun push_front ::
  "('o \<Rightarrow> ptr) \<Rightarrow> ((ptr \<Rightarrow> ptr) \<Rightarrow> 'o \<Rightarrow> 'o) \<Rightarrow> ((ptr \<Rightarrow> ptr) \<Rightarrow> 'o \<Rightarrow> 'o) \<Rightarrow>
   addr \<Rightarrow> ptr \<times> 'o heap \<Rightarrow> (ptr \<times> 'o heap) option" where
  "push_front nx set_nx set_pv a (root0, h0) = do {
     h \<leftarrow> modify (Some a) (set_nx (\<lambda>_. root0)) h0;
     x \<leftarrow> h a;
     h' \<leftarrow> (case nx x of Some n \<Rightarrow> modify (Some n) (set_pv (\<lambda>_. Some a)) h | None \<Rightarrow> Some h);
     Some (Some a, h')
   }"

text \<open>Inserting a cell before another one (\<open>Rules::AddRule\<close>).\<close>

fun link_before ::
  "((ptr \<Rightarrow> ptr) \<Rightarrow> 'o \<Rightarrow> 'o) \<Rightarrow> ('o \<Rightarrow> ptr) \<Rightarrow> ((ptr \<Rightarrow> ptr) \<Rightarrow> 'o \<Rightarrow> 'o) \<Rightarrow>
   addr \<Rightarrow> addr \<Rightarrow> ptr \<times> 'o heap \<Rightarrow> (ptr \<times> 'o heap) option" where
  "link_before set_nx pv set_pv w c (root0, h0) = do {
     h1 \<leftarrow> modify (Some w) (set_nx (\<lambda>_. Some c)) h0;
     xc \<leftarrow> h1 c;
     h2 \<leftarrow> modify (Some w) (set_pv (\<lambda>_. pv xc)) h1;
     h3 \<leftarrow> modify (Some c) (set_pv (\<lambda>_. Some w)) h2;
     xw \<leftarrow> h3 w;
     (case pv xw of
        Some p \<Rightarrow> map_option (Pair root0) (modify (Some p) (set_nx (\<lambda>_. Some w)) h3)
      | None \<Rightarrow> Some (Some w, h3))
   }"

text \<open>Appending a cell after the last one (\<open>Rules::AddRule\<close>); only the forward link is set.\<close>

fun link_last ::
  "((ptr \<Rightarrow> ptr) \<Rightarrow> 'o \<Rightarrow> 'o) \<Rightarrow> addr \<Rightarrow> ptr \<Rightarrow> ptr \<times> 'o heap \<Rightarrow> (ptr \<times> 'o heap) option" where
  "link_last set_nx w prev (root0, h0) =
     (case prev of
        Some p \<Rightarrow> map_option (Pair root0) (modify (Some p) (set_nx (\<lambda>_. Some w)) h0)
      | None \<Rightarrow> Some (Some w, h0))"

declare unlink.simps [simp del] push_front.simps [simp del]
  link_before.simps [simp del] link_last.simps [simp del]

text \<open>
  Appending to a queue with a head and a tail pointer (\<open>Client::Send\<close>,
  \<open>SocketCookie::AddDeferredData\<close>).
\<close>

fun enqueue ::
  "((ptr \<Rightarrow> ptr) \<Rightarrow> 'o \<Rightarrow> 'o) \<Rightarrow> addr \<Rightarrow> ptr \<times> ptr \<times> 'o heap \<Rightarrow> (ptr \<times> ptr \<times> 'o heap) option" where
  "enqueue set_nx a (first, final, h) =
     (case final of
        None \<Rightarrow> Some (Some a, Some a, h)
      | Some l \<Rightarrow> map_option (\<lambda>h'. (first, Some a, h')) (modify (Some l) (set_nx (\<lambda>_. Some a)) h))"

declare enqueue.simps [simp del]

definition queue_at :: "('o \<Rightarrow> ptr) \<Rightarrow> 'o heap \<Rightarrow> ptr \<Rightarrow> ptr \<Rightarrow> addr list \<Rightarrow> bool" where
  "queue_at nx h first final as \<longleftrightarrow> chain nx h first as \<and> final = (if as = [] then None else Some (last as))"

section \<open>What the manipulations do to a chain\<close>

text \<open>
  The two link fields of a record: an update sets the field it names and leaves the other alone.
  \<open>strip\<close> forgets both links; what it keeps is the payload of the cell.
\<close>

definition strip :: "((ptr \<Rightarrow> ptr) \<Rightarrow> 'o \<Rightarrow> 'o) \<Rightarrow> ((ptr \<Rightarrow> ptr) \<Rightarrow> 'o \<Rightarrow> 'o) \<Rightarrow> 'o \<Rightarrow> 'o" where
  "strip set_nx set_pv x = set_nx (\<lambda>_. None) (set_pv (\<lambda>_. None) x)"

locale link_field =
  fixes get :: "'o \<Rightarrow> ptr" and upd :: "(ptr \<Rightarrow> ptr) \<Rightarrow> 'o \<Rightarrow> 'o"
  assumes get_upd [simp]: "get (upd f x) = f (get x)"
begin

lemma enqueue_queue:
  assumes q: "queue_at get h first final as" and a: "h a = Some x" "get x = None" "a \<notin> set as"
  obtains first' h' where "enqueue upd a (first, final, h) = Some (first', Some a, h')"
    and "queue_at get h' first' (Some a) (as @ [a])"
    and "\<forall>b. b \<notin> set as \<longrightarrow> h' b = h b"
    and "\<forall>b. h' b = h b \<or> (\<exists>y. h b = Some y \<and> h' b = Some (upd (\<lambda>_. Some a) y))"
proof (cases "as = []")
  case True
  with q a that [of "Some a" h] show thesis
    by (simp add: queue_at_def enqueue.simps)
next
  case False
  then obtain us l where as: "as = us @ [l]" by (metis append_butlast_last_id)
  with q obtain y where l: "final = Some l" "h l = Some y" "path get h first us (Some l)" "get y = None"
    by (auto simp: queue_at_def chain_def)
  let ?h = "h(l \<mapsto> upd (\<lambda>_. Some a) y)"
  have "distinct as" using q by (auto simp: queue_at_def dest: chain_distinct)
  with as a l have "l \<notin> set us" "l \<noteq> a" by auto
  with l a have "chain get ?h first (us @ [l] @ [a])"
    by (auto simp: chain_append)
  with that [of first ?h] l as show thesis
    by (auto simp: queue_at_def enqueue.simps)
qed

end

locale two_links = fwd: link_field nx set_nx + bwd: link_field pv set_pv
  for nx :: "'o \<Rightarrow> ptr" and set_nx and pv :: "'o \<Rightarrow> ptr" and set_pv +
  assumes nx_set_pv [simp]: "nx (set_pv f x) = nx x"
    and pv_set_nx [simp]: "pv (set_nx f x) = pv x"
    and strip_set_nx [simp]: "strip set_nx set_pv (set_nx f x) = strip set_nx set_pv x"
    and strip_set_pv [simp]: "strip set_nx set_pv (set_pv f x) = strip set_nx set_pv x"
begin

text \<open>
  Unlinking a cell: a cell with a back link is cut out of the chain; a cell without one is taken
  for the root, and every cell before it drops out of the chain.
\<close>

lemma unlink_effect:
  assumes ch: "chain nx h root (xs @ a # ys)" and a: "h a = Some x"
    and pvx: "pv x = None \<or> pv x = (if xs = [] then None else Some (last xs))"
  obtains root' h' where "unlink nx set_nx pv set_pv a (root, h) = Some (root', h')"
    and "chain nx h' root' (if pv x = None then ys else xs @ ys)"
    and "h' a = Some x" and "\<forall>b. b \<notin> set (xs @ ys) \<longrightarrow> h' b = h b"
    and "\<forall>b. map_option pv (h' b) = (if nx x = Some b then Some (pv x) else map_option pv (h b))"
    and "\<forall>b. map_option (strip set_nx set_pv) (h' b) = map_option (strip set_nx set_pv) (h b)"
proof -
  have dist: "distinct (xs @ a # ys)" by (rule chain_distinct [OF ch])
  have pa: "path nx h root xs (Some a)" and chy: "chain nx h (nx x) ys"
    using ch a by (auto simp: chain_append)
  define zs where "zs = (if pv x = None then ys else xs @ ys)"
  \<comment> \<open>the forward link\<close>
  obtain root1 h1 where
    step1: "(case pv x of
        Some p \<Rightarrow> map_option (Pair root) (modify (Some p) (set_nx (\<lambda>_. nx x)) h)
      | None \<Rightarrow> Some (nx x, h)) = Some (root1, h1)"
    and ch1: "chain nx h1 root1 zs" and h1a: "h1 a = Some x"
    and pv1: "\<And>b. map_option pv (h1 b) = map_option pv (h b)"
    and st1: "\<And>b. map_option (strip set_nx set_pv) (h1 b) = map_option (strip set_nx set_pv) (h b)"
    and fr1: "\<And>b. b \<notin> set xs \<Longrightarrow> h1 b = h b"
  proof (cases "pv x")
    case None
    with that [of "nx x" h] a chy show ?thesis by (simp add: zs_def)
  next
    case (Some p)
    with pvx have xs: "xs \<noteq> []" "p = last xs" by (auto split: if_splits)
    then obtain us where us: "xs = us @ [p]" by (metis append_butlast_last_id)
    from pa us obtain y where y: "h p = Some y" "path nx h root us (Some p)"
      by (auto dest: path_last_next)
    let ?h1 = "h(p \<mapsto> set_nx (\<lambda>_. nx x) y)"
    have "p \<notin> set us" "p \<noteq> a" "p \<notin> set ys" using dist us by auto
    with y chy have "chain nx ?h1 root (us @ p # ys)" by (auto simp: chain_append)
    with that [of root ?h1] Some y us \<open>p \<noteq> a\<close> a show ?thesis by (auto simp: zs_def)
  qed
  \<comment> \<open>the back link\<close>
  show thesis
  proof (cases ys)
    case Nil
    then have "nx x = None" using chy by simp
    then have "unlink nx set_nx pv set_pv a (root, h) = Some (root1, h1)"
      using a step1 h1a by (simp add: unlink.simps)
    then show thesis
      using that [of root1 h1] ch1 h1a fr1 pv1 st1 \<open>nx x = None\<close> by (simp add: zs_def)
  next
    case (Cons n ns)
    then have nx: "nx x = Some n" using chy by simp
    from dist Cons have na: "n \<noteq> a" "n \<notin> set xs" by auto
    from chy Cons obtain z where z: "h n = Some z" by auto
    then have z1: "h1 n = Some z" using fr1 na by simp
    let ?h2 = "h1(n \<mapsto> set_pv (\<lambda>_. pv x) z)"
    have u: "unlink nx set_nx pv set_pv a (root, h) = Some (root1, ?h2)"
      using a step1 h1a nx z1 by (simp add: unlink.simps)
    have "chain nx ?h2 root1 zs"
      using ch1 z1 by (simp add: chain_upd_same)
    moreover have "\<forall>b. map_option (strip set_nx set_pv) (?h2 b) = map_option (strip set_nx set_pv) (h b)"
      using st1 [symmetric] z1 by simp
    moreover have "\<forall>b. b \<notin> set (xs @ ys) \<longrightarrow> ?h2 b = h b"
      using fr1 Cons by auto
    ultimately show thesis
      using that [OF u] h1a na nx pv1 by (auto simp: zs_def)
  qed
qed

lemma unlink_weak:
  assumes ch: "chain nx h root (xs @ a # ys)" and wb: "wbacks pv h None (xs @ a # ys)"
    and a: "h a = Some x"
  obtains root' h' where "unlink nx set_nx pv set_pv a (root, h) = Some (root', h')"
    and "chain nx h' root' (if pv x = None then ys else xs @ ys)"
    and "wbacks pv h' None (if pv x = None then ys else xs @ ys)"
    and "h' a = Some x" and "\<forall>b. b \<notin> set (xs @ ys) \<longrightarrow> h' b = h b"
    and "\<forall>b. map_option (strip set_nx set_pv) (h' b) = map_option (strip set_nx set_pv) (h b)"
proof -
  have wx: "wbacks pv h None xs" and wy: "wbacks pv h (Some a) ys"
    and pvx: "pv x = None \<or> pv x = (if xs = [] then None else Some (last xs))"
    using wb a by (auto simp: wbacks_append)
  have dist: "distinct (xs @ a # ys)" by (rule chain_distinct [OF ch])
  have nx: "nx x = (case ys of [] \<Rightarrow> None | n # _ \<Rightarrow> Some n)"
    using ch a by (cases ys) (auto simp: chain_append)
  from ch a pvx obtain root' h' where e: "unlink nx set_nx pv set_pv a (root, h) = Some (root', h')"
    "chain nx h' root' (if pv x = None then ys else xs @ ys)"
    "h' a = Some x" "\<forall>b. b \<notin> set (xs @ ys) \<longrightarrow> h' b = h b"
    "\<forall>b. map_option (strip set_nx set_pv) (h' b) = map_option (strip set_nx set_pv) (h b)"
    and pv: "\<And>b. map_option pv (h' b) = (if nx x = Some b then Some (pv x) else map_option pv (h b))"
    by (rule unlink_effect) blast
  have wx': "wbacks pv h' None xs"
    using wx dist by (subst wbacks_cong [where h = h]) (auto simp: pv nx split: list.splits)
  have wy': "wbacks pv h' (pv x) ys"
  proof (cases ys)
    case (Cons n ns)
    then have "wbacks pv h' (Some n) ns = wbacks pv h (Some n) ns"
      using dist by (intro wbacks_cong) (auto simp: pv nx)
    moreover have "map_option pv (h' n) = Some (pv x)" using pv nx Cons by simp
    ultimately show ?thesis using wy Cons by auto
  qed simp
  have "wbacks pv h' None (if pv x = None then ys else xs @ ys)"
    using wx' wy' pvx by (auto simp: wbacks_append)
  with that e show thesis by blast
qed

text \<open>With exact back links, unlinking removes just the one cell, wherever it stands.\<close>

lemma unlink_strict:
  assumes ch: "chain nx h root (xs @ a # ys)" and bk: "backs pv h None (xs @ a # ys)"
    and a: "h a = Some x"
  obtains root' h' where "unlink nx set_nx pv set_pv a (root, h) = Some (root', h')"
    and "chain nx h' root' (xs @ ys)" and "backs pv h' None (xs @ ys)"
    and "h' a = Some x" and "\<forall>b. b \<notin> set (xs @ ys) \<longrightarrow> h' b = h b"
    and "\<forall>b. map_option (strip set_nx set_pv) (h' b) = map_option (strip set_nx set_pv) (h b)"
proof -
  have bx: "backs pv h None xs" and "backs pv h (Some a) ys"
    and pvx: "pv x = (if xs = [] then None else Some (last xs))"
    using bk a by (auto simp: backs_append)
  have dist: "distinct (xs @ a # ys)" by (rule chain_distinct [OF ch])
  have nx: "nx x = (case ys of [] \<Rightarrow> None | n # _ \<Rightarrow> Some n)"
    using ch a by (cases ys) (auto simp: chain_append)
  from pvx have "pv x = None \<or> pv x = (if xs = [] then None else Some (last xs))" by simp
  with ch a obtain root' h' where e: "unlink nx set_nx pv set_pv a (root, h) = Some (root', h')"
    "chain nx h' root' (if pv x = None then ys else xs @ ys)"
    "h' a = Some x" "\<forall>b. b \<notin> set (xs @ ys) \<longrightarrow> h' b = h b"
    "\<forall>b. map_option (strip set_nx set_pv) (h' b) = map_option (strip set_nx set_pv) (h b)"
    and pv: "\<And>b. map_option pv (h' b) = (if nx x = Some b then Some (pv x) else map_option pv (h b))"
    by (rule unlink_effect) blast
  have "backs pv h' None xs"
    using bx dist by (subst backs_cong [where h = h]) (auto simp: pv nx split: list.splits)
  moreover have "backs pv h' (pv x) ys"
  proof (cases ys)
    case (Cons n ns)
    then have "backs pv h' (Some n) ns = backs pv h (Some n) ns"
      using dist by (intro backs_cong) (auto simp: pv nx)
    moreover have "map_option pv (h' n) = Some (pv x)" using pv nx Cons by simp
    ultimately show ?thesis using \<open>backs pv h (Some a) ys\<close> Cons by auto
  qed simp
  ultimately have "backs pv h' None (xs @ ys)" using pvx by (simp add: backs_append)
  moreover have "chain nx h' root' (xs @ ys)" using e pvx by (auto split: if_splits)
  ultimately show thesis using that e by blast
qed

text \<open>Pushing a fresh cell whose back link is NULL.\<close>

lemma push_front_strict:
  assumes ch: "chain nx h root as" and bk: "backs pv h None as"
    and a: "h a = Some x" "pv x = None" "a \<notin> set as"
  obtains h' where "push_front nx set_nx set_pv a (root, h) = Some (Some a, h')"
    and "chain nx h' (Some a) (a # as)" and "backs pv h' None (a # as)"
    and "\<forall>b. b \<notin> set (a # as) \<longrightarrow> h' b = h b"
    and "\<forall>b. map_option (strip set_nx set_pv) (h' b) = map_option (strip set_nx set_pv) (h b)"
proof (cases as)
  case Nil
  with ch a that [of "h(a \<mapsto> set_nx (\<lambda>_. None) x)"] show thesis
    by (simp add: push_front.simps)
next
  case (Cons n ns)
  with ch obtain y where n: "root = Some n" "h n = Some y" "chain nx h (nx y) ns" by auto
  have dist: "distinct as" by (rule chain_distinct [OF ch])
  let ?x = "set_nx (\<lambda>_. root) x" and ?y = "set_pv (\<lambda>_. Some a) y"
  let ?h = "(h(a \<mapsto> ?x))(n \<mapsto> ?y)"
  have na: "n \<noteq> a" "n \<notin> set ns" "a \<notin> set ns" using Cons a dist by auto
  have "push_front nx set_nx set_pv a (root, h) = Some (Some a, ?h)"
    using a n na by (simp add: push_front.simps)
  moreover have "chain nx ?h (Some a) (a # as)" using a n na Cons by simp
  moreover have "backs pv ?h None (a # as)" using bk a n na Cons by simp
  ultimately show thesis using that [of ?h] a n Cons na by auto
qed

text \<open>
  Inserting a cell before \<open>c\<close>: when \<open>c\<close> has no back link the new cell becomes the root and the
  cells before \<open>c\<close> drop out of the chain.
\<close>

lemma link_before_weak:
  assumes ch: "chain nx h root (xs @ c # ys)" and wb: "wbacks pv h None (xs @ c # ys)"
    and c: "h c = Some x" and w: "h w = Some y" "w \<notin> set (xs @ c # ys)"
  obtains root' h' where "link_before set_nx pv set_pv w c (root, h) = Some (root', h')"
    and "chain nx h' root' (if pv x = None then w # c # ys else xs @ w # c # ys)"
    and "wbacks pv h' None (if pv x = None then w # c # ys else xs @ w # c # ys)"
    and "backs pv h None (xs @ c # ys) \<longrightarrow> backs pv h' None (xs @ w # c # ys)"
    and "\<forall>b. b \<notin> set (w # xs @ c # ys) \<longrightarrow> h' b = h b"
    and "\<forall>b. map_option (strip set_nx set_pv) (h' b) = map_option (strip set_nx set_pv) (h b)"
proof -
  have dist: "distinct (xs @ c # ys)" by (rule chain_distinct [OF ch])
  have pa: "path nx h root xs (Some c)" and chy: "chain nx h (nx x) ys"
    using ch c by (auto simp: chain_append)
  have wx: "wbacks pv h None xs" and wy: "wbacks pv h (Some c) ys"
    and pvx: "pv x = None \<or> pv x = (if xs = [] then None else Some (last xs))"
    using wb c by (auto simp: wbacks_append)
  let ?w = "set_pv (\<lambda>_. pv x) (set_nx (\<lambda>_. Some c) y)" and ?c = "set_pv (\<lambda>_. Some w) x"
  let ?h = "(h(w \<mapsto> ?w))(c \<mapsto> ?c)"
  have wc: "w \<noteq> c" "w \<notin> set xs" "w \<notin> set ys" "c \<notin> set xs" "c \<notin> set ys" using w dist by auto
  show thesis
  proof (cases "pv x")
    case None
    then have l: "link_before set_nx pv set_pv w c (root, h) = Some (Some w, ?h)"
      using c w wc by (simp add: link_before.simps)
    have "chain nx ?h (Some w) (w # c # ys)" "wbacks pv ?h None (w # c # ys)"
      using chy wy wc None by auto
    moreover have "backs pv h None (xs @ c # ys) \<longrightarrow> backs pv ?h None (xs @ w # c # ys)"
      using None c wc by (auto simp: backs_append)
    ultimately show thesis using that [OF l] None c w wc by auto
  next
    case (Some p)
    with pvx have "xs \<noteq> []" "p = last xs" by (auto split: if_splits)
    then obtain us where us: "xs = us @ [p]" by (metis append_butlast_last_id)
    from pa us obtain z where z: "h p = Some z" "path nx h root us (Some p)"
      by (auto dest: path_last_next)
    let ?z = "set_nx (\<lambda>_. Some w) z" and ?h' = "?h(p \<mapsto> set_nx (\<lambda>_. Some w) z)"
    have p: "p \<noteq> w" "p \<noteq> c" "p \<notin> set us" "p \<notin> set ys" "c \<notin> set us" "w \<notin> set us"
      using dist us wc by auto
    have l: "link_before set_nx pv set_pv w c (root, h) = Some (root, ?h')"
      using c w wc z p Some by (simp add: link_before.simps)
    have "chain nx ?h' root (us @ p # w # c # ys)"
      using z chy wc p by (auto simp: chain_append)
    moreover have "wbacks pv ?h' None (us @ p # w # c # ys)"
      using wx wy wc p us z Some by (auto simp: wbacks_append)
    moreover have "backs pv h None (xs @ c # ys) \<longrightarrow> backs pv ?h' None (xs @ w # c # ys)"
      using c wc p us z Some by (auto simp: backs_append)
    ultimately show thesis using that [OF l] Some c w wc us z p by auto
  qed
qed

text \<open>
  Appending after the last cell. The forward chain is right; the back link of the new cell stays
  NULL, so the chain keeps exact back links only when it was empty.
\<close>

lemma link_last_weak:
  assumes ch: "chain nx h root xs" and wb: "wbacks pv h None xs"
    and w: "h w = Some y" "w \<notin> set xs" "nx y = None" "pv y = None"
  obtains root' h' where
    "link_last set_nx w (if xs = [] then None else Some (last xs)) (root, h) = Some (root', h')"
    and "chain nx h' root' (xs @ [w])" and "wbacks pv h' None (xs @ [w])" and "h' w = Some y"
    and "\<forall>b. b \<notin> set xs \<longrightarrow> h' b = h b"
    and "\<forall>b. map_option (strip set_nx set_pv) (h' b) = map_option (strip set_nx set_pv) (h b)"
proof (cases "xs = []")
  case True
  with that [of "Some w" h] w show thesis by (simp add: link_last.simps)
next
  case False
  then obtain us p where us: "xs = us @ [p]" by (metis append_butlast_last_id)
  with ch obtain z where z: "h p = Some z" "path nx h root us (Some p)"
    by (auto simp: chain_def)
  have dist: "distinct xs" by (rule chain_distinct [OF ch])
  let ?h = "h(p \<mapsto> set_nx (\<lambda>_. Some w) z)"
  have p: "p \<noteq> w" "p \<notin> set us" using dist us w by auto
  have "chain nx ?h root (us @ [p, w])" using z p w us by (auto simp: chain_append)
  moreover have "wbacks pv ?h None (us @ [p, w])"
    using wb z p w us by (auto simp: wbacks_append wbacks_upd_same)
  ultimately show thesis
    using that [of root ?h] z us p w by (auto simp: link_last.simps)
qed

end

end
