(* ===== verification/Client.thy ===== *)
theory Client
  imports Messages Chain
begin

text \<open>
  A connected client (Kext/client.h, Kext/client.cpp): its subscriptions, its queue of messages to
  deliver and its life cycle. Messages are shared between the queues of all clients and counted by
  reference; a \<open>ClientMessageNode\<close> puts one message into one queue.

  \<open>Mail\<close> is the part of the memory the operations touch besides the client itself: the heaps of
  messages and nodes with the number of objects made so far, which is the address of the next one.
\<close>

record ClientMessageNode =
  n_message :: ptr
  n_next :: ptr

record Client = SimpleBase +
  kernelKontrolReference :: u64
  unit :: u32
  registredMessageClases :: u32
  exitState :: s32
  lockQueue :: lock_ptr
  lockWorkThread :: lock_ptr
  thread_started :: bool
  messageQueueHead :: ptr
  messageQueueLast :: ptr
  c_next :: ptr

record Mail =
  messages :: "Message heap"
  nodes :: "ClientMessageNode heap"
  messages_made :: nat
  nodes_made :: nat

interpretation node_link: link_field n_next "n_next_update :: _ \<Rightarrow> ClientMessageNode \<Rightarrow> ClientMessageNode"
  by unfold_locales simp

section \<open>Life cycle\<close>

text \<open>
  \<open>while(root) { curr = root; root = root->next; curr->message->Release(); delete(curr); }\<close>,
  from the node \<open>node\<close> on.
\<close>

partial_function (option) ClearQueue :: "kernel \<Rightarrow> ptr \<Rightarrow> Mail \<Rightarrow> Mail option" where
  "ClearQueue k node M =
     (case node of None \<Rightarrow> Some M
      | Some n \<Rightarrow> do {
          x \<leftarrow> nodes M n;
          ms \<leftarrow> release_at k (n_message x) (messages M);
          ClearQueue k (n_next x) (M\<lparr>messages := ms, nodes := (nodes M)(n := None)\<rparr>)
        })"

text \<open>
  \<open>new Client()\<close> gives a zeroed object, the \<open>n\<close>-th. \<open>early\<close> says how the new thread is scheduled:
  whether it has run its \<open>client->Retain()\<close> before the assignment \<open>this->references = 1\<close> that
  follows its start.
\<close>

definition new_client :: Client where
  "new_client = \<lparr>references = 0, kernelKontrolReference = 0, unit = 0, registredMessageClases = 0,
     exitState = 0, lockQueue = NoLock, lockWorkThread = NoLock, thread_started = False,
     messageQueueHead = None, messageQueueLast = None, c_next = None\<rparr>"

definition InitWithClient :: "kernel \<Rightarrow> nat \<Rightarrow> bool \<Rightarrow> u64 \<Rightarrow> u32 \<Rightarrow> Client \<Rightarrow> bool \<times> Client" where
  "InitWithClient k n early ref u this =
     (let c = this\<lparr>registredMessageClases :=
                 ucast (class_code MessageClassFirewall OR class_code MessageClassCommon)\<rparr> in
      if grants k NewClientLocks (2 * n) then
        let c = c\<lparr>lockQueue := Lock\<rparr> in
        if grants k NewClientLocks (2 * n + 1) then
          let c = c\<lparr>lockWorkThread := Lock, kernelKontrolReference := ref, unit := u\<rparr> in
          if grants k NewClientThread n then
            let c = (if early then snd (Retain k c) else c)
            in (True, c\<lparr>thread_started := True, references := 1\<rparr>)
          else (False, c\<lparr>lockQueue := FreedLock, lockWorkThread := FreedLock\<rparr>)
        else (False, c\<lparr>lockQueue := FreedLock\<rparr>)
      else (False, c))"

definition CloseSignal :: "kernel \<Rightarrow> Client \<Rightarrow> Client" where
  "CloseSignal k this = this\<lparr>exitState := snd (OSIncrementAtomic k (exitState this))\<rparr>"

definition Client_Free :: "kernel \<Rightarrow> Client \<Rightarrow> Mail \<Rightarrow> (Client \<times> Mail) option" where
  "Client_Free k this M =
     (if lockQueue this = FreedLock \<or> lockWorkThread this = FreedLock then None
      else if lockQueue this = Lock then do {
        let node = messageQueueHead this;
        let c = this\<lparr>messageQueueHead := None, messageQueueLast := None\<rparr>;
        M' \<leftarrow> ClearQueue k node M;
        Some (c\<lparr>lockQueue := NoLock, lockWorkThread := NoLock\<rparr>, M')
      } else Some (this\<lparr>lockWorkThread := NoLock\<rparr>, M))"

text \<open>\<open>client->Release()\<close>: the last reference frees the object and the messages it still holds.\<close>

definition release_client :: "kernel \<Rightarrow> addr \<Rightarrow> Client heap \<times> Mail \<Rightarrow> (Client heap \<times> Mail) option" where
  "release_client k a s = (case s of (H, M) \<Rightarrow> do {
     c \<leftarrow> H a;
     let (val, c') = Release k c;
     if val = 0 then do {
       (c'', M') \<leftarrow> Client_Free k c' M;
       Some (H(a := None), M')
     } else Some (H(a \<mapsto> c'), M)
   })"

section \<open>Subscriptions\<close>

definition RegisterMessageClasses :: "kernel \<Rightarrow> u16 \<Rightarrow> Client \<Rightarrow> bool \<times> Client" where
  "RegisterMessageClasses k classes this =
     (let (old, stored) = OSBitOrAtomic k (ucast classes) (registredMessageClases this)
      in (old AND ucast classes = ucast classes, this\<lparr>registredMessageClases := stored\<rparr>))"

text \<open>\<open>~classes\<close> is computed on the promoted \<open>int\<close>, so its upper half is all ones.\<close>

definition UnregisterMessageClasses :: "kernel \<Rightarrow> u16 \<Rightarrow> Client \<Rightarrow> bool \<times> Client" where
  "UnregisterMessageClasses k classes this =
     (let (old, stored) = OSBitOrAtomic k (NOT (ucast classes)) (registredMessageClases this)
      in (old AND ucast classes = 0, this\<lparr>registredMessageClases := stored\<rparr>))"

section \<open>Sending\<close>

definition Client_Send :: "kernel \<Rightarrow> ptr \<Rightarrow> Client \<Rightarrow> Mail \<Rightarrow> (Client \<times> Mail) option" where
  "Client_Send k message this M =
     (if message = None \<or> exitState this \<noteq> 0 then Some (this, M)
      else do {
        x \<leftarrow> deref (messages M) message;
        ty \<leftarrow> raw_type x;
        if ucast ty AND registredMessageClases this = 0 then Some (this, M)
        else if \<not> grants k NewNode (nodes_made M) then Some (this, M)
        else do {
          let node = nodes_made M;
          ms \<leftarrow> retain_at k message (messages M);
          let ns = (nodes M)(node \<mapsto> \<lparr>n_message = message, n_next = None\<rparr>);
          if lockQueue this = Lock \<and> lockWorkThread this = Lock then do {
            (head, final, ns') \<leftarrow>
              enqueue n_next_update node (messageQueueHead this, messageQueueLast this, ns);
            Some (this\<lparr>messageQueueHead := head, messageQueueLast := final\<rparr>,
                  M\<lparr>messages := ms, nodes := ns', nodes_made := Suc node\<rparr>)
          } else None
        }
      })"

text \<open>When a client takes a message: it is not leaving, and subscribes to the message's class.\<close>

definition takes :: "Client \<Rightarrow> Message \<Rightarrow> bool" where
  "takes c x \<longleftrightarrow> exitState c = 0 \<and>
     (\<exists>ty. raw_type x = Some ty \<and> ucast ty AND registredMessageClases c \<noteq> 0)"

section \<open>The invariant of the mail\<close>

text \<open>All objects of a heap have addresses below \<open>b\<close>, the number of objects made.\<close>

definition below :: "nat \<Rightarrow> 'o heap \<Rightarrow> bool" where
  "below b H \<longleftrightarrow> (\<forall>n x. H n = Some x \<longrightarrow> n < b)"

lemma below_upd: "below b H \<Longrightarrow> n < b \<Longrightarrow> below b (H(n := y))"
  by (simp add: below_def)

lemma below_delete: "below b H \<Longrightarrow> below b (H(n := None))"
  by (simp add: below_def)

lemma below_new: "below b H \<Longrightarrow> below (Suc b) (H(b := y))"
  by (auto simp: below_def less_Suc_eq)

lemma below_Suc: "below b H \<Longrightarrow> below (Suc b) H"
  by (auto simp: below_def less_Suc_eq)

lemma below_fresh: "below b H \<Longrightarrow> H b = None"
  by (cases "H b") (auto simp: below_def)

text \<open>
  The reference count of a message is the number of nodes that hold it, plus one while some
  function holds it in a local variable (the set \<open>held\<close>). A live message is counted at least once
  and fits its buffer.
\<close>

definition refs_to :: "ClientMessageNode heap \<Rightarrow> addr \<Rightarrow> nat" where
  "refs_to N m = card {n. \<exists>x. N n = Some x \<and> n_message x = Some m}"

definition counted :: "addr set \<Rightarrow> ClientMessageNode heap \<Rightarrow> addr \<Rightarrow> nat" where
  "counted held N m = refs_to N m + (if m \<in> held then 1 else 0)"

definition sendable :: "Message \<Rightarrow> bool" where
  "sendable x \<longleftrightarrow> (\<exists>ty sz. raw_type x = Some ty \<and> raw_size x = Some sz \<and> unat sz \<le> length (raw x))"

definition mail_ok :: "addr set \<Rightarrow> Mail \<Rightarrow> bool" where
  "mail_ok held M \<longleftrightarrow>
     below (nodes_made M) (nodes M) \<and>
     below (messages_made M) (messages M) \<and>
     (\<forall>m\<in>held. messages M m \<noteq> None) \<and>
     (\<forall>n x. nodes M n = Some x \<longrightarrow> (\<exists>m. n_message x = Some m \<and> messages M m \<noteq> None)) \<and>
     (\<forall>m x. messages M m = Some x \<longrightarrow>
        sendable x \<and> references x = of_nat (counted held (nodes M) m) \<and>
        0 < counted held (nodes M) m \<and> counted held (nodes M) m < 2 ^ 32)"

text \<open>The queue of a client: its nodes in order.\<close>

definition queue_ok :: "ClientMessageNode heap \<Rightarrow> Client \<Rightarrow> addr list \<Rightarrow> bool" where
  "queue_ok N c as \<longleftrightarrow>
     lockQueue c = Lock \<and> lockWorkThread c = Lock \<and> queue_at n_next N (messageQueueHead c) (messageQueueLast c) as"

definition posted :: "ClientMessageNode heap \<Rightarrow> addr list \<Rightarrow> ptr list" where
  "posted N as = map (\<lambda>n. n_message (the (N n))) as"

section \<open>Counting\<close>

definition holders :: "ClientMessageNode heap \<Rightarrow> addr \<Rightarrow> addr set" where
  "holders N m = {n. \<exists>x. N n = Some x \<and> n_message x = Some m}"

lemma refs_to_holders: "refs_to N m = card (holders N m)"
  by (simp add: refs_to_def holders_def)

lemma holders_alt: "holders N m = {n. map_option n_message (N n) = Some (Some m)}"
  by (auto simp: holders_def)

lemma holders_cong:
  "(\<And>n. map_option n_message (N' n) = map_option n_message (N n)) \<Longrightarrow> holders N' m = holders N m"
  by (simp add: holders_alt)

lemma holders_new:
  "N n = None \<Longrightarrow> holders (N(n \<mapsto> y)) m = (if n_message y = Some m then insert n (holders N m) else holders N m)"
  by (auto simp: holders_def)

lemma holders_delete: "holders (N(n := None)) m = holders N m - {n}"
  by (auto simp: holders_def)

lemma holders_bound: "below b N \<Longrightarrow> holders N m \<subseteq> {..<b}"
  by (auto simp: holders_def below_def)

lemma finite_holders: "below b N \<Longrightarrow> finite (holders N m)"
  by (rule finite_subset [OF holders_bound]) auto

lemma refs_to_bound: "below b N \<Longrightarrow> refs_to N m \<le> b"
  using card_mono [OF finite_lessThan holders_bound] by (fastforce simp: refs_to_holders)

lemma refs_to_new:
  assumes "N n = None" and "below b N"
  shows "refs_to (N(n \<mapsto> y)) m = refs_to N m + (if n_message y = Some m then 1 else 0)"
proof -
  have "n \<notin> holders N m" using assms(1) by (simp add: holders_def)
  then show ?thesis
    using finite_holders [OF assms(2), of m] by (simp add: refs_to_holders holders_new assms(1))
qed

lemma refs_to_delete:
  assumes "N n = Some y" and "below b N"
  shows "refs_to N m = refs_to (N(n := None)) m + (if n_message y = Some m then 1 else 0)"
proof (cases "n_message y = Some m")
  case True
  with assms(1) have "n \<in> holders N m" by (auto simp: holders_def)
  with True finite_holders [OF assms(2), of m] show ?thesis
    using card_Suc_Diff1 [of "holders N m" n] by (simp add: refs_to_holders holders_delete)
next
  case False
  with assms(1) have "n \<notin> holders N m" by (auto simp: holders_def)
  with False show ?thesis by (simp add: refs_to_holders holders_delete)
qed

lemma refs_to_zero:
  assumes "refs_to N m = 0" and "below b N" and "N n = Some x"
  shows "n_message x \<noteq> Some m"
  using assms finite_holders [OF assms(2), of m] by (auto simp: refs_to_holders holders_def)

lemma refs_to_link [simp]:
  "N n = Some x \<Longrightarrow> n_message y = n_message x \<Longrightarrow> refs_to (N(n \<mapsto> y)) m = refs_to N m"
  unfolding refs_to_holders by (subst holders_cong [of "N(n \<mapsto> y)" N]) auto

section \<open>Clearing a queue\<close>

lemma word32_one_iff:
  assumes "c < 2 ^ 32"
  shows "(of_nat c :: s32) = 1 \<longleftrightarrow> c = 1"
proof
  assume "(of_nat c :: s32) = 1"
  then have "unat (of_nat c :: s32) = 1" by simp
  then show "c = 1" using assms by (simp add: unat_of_nat)
qed simp

lemma mail_okI:
  assumes "below (nodes_made M) (nodes M)" and "below (messages_made M) (messages M)"
    and "\<And>m. m \<in> held \<Longrightarrow> messages M m \<noteq> None"
    and "\<And>n x. nodes M n = Some x \<Longrightarrow> \<exists>m. n_message x = Some m \<and> messages M m \<noteq> None"
    and "\<And>m x. messages M m = Some x \<Longrightarrow>
        sendable x \<and> references x = of_nat (counted held (nodes M) m) \<and>
        0 < counted held (nodes M) m \<and> counted held (nodes M) m < 2 ^ 32"
  shows "mail_ok held M"
  using assms unfolding mail_ok_def by blast

lemma mail_okD:
  assumes "mail_ok held M"
  shows "below (nodes_made M) (nodes M)" and "below (messages_made M) (messages M)"
    and "m \<in> held \<Longrightarrow> messages M m \<noteq> None"
    and "nodes M n = Some x \<Longrightarrow> \<exists>m. n_message x = Some m \<and> messages M m \<noteq> None"
    and "messages M m = Some y \<Longrightarrow>
        sendable y \<and> references y = of_nat (counted held (nodes M) m) \<and>
        0 < counted held (nodes M) m \<and> counted held (nodes M) m < 2 ^ 32"
  using assms unfolding mail_ok_def by blast+

lemma sendable_refs [simp]: "sendable (x\<lparr>references := c\<rparr>) = sendable x"
  by (simp add: sendable_def raw_type_def raw_size_def)

text \<open>
  Giving up one reference of the message \<open>m\<close>: either a node that held it goes, or the function
  that held it.
\<close>

lemma give_up:
  assumes k: "atomics_documented k" and ok: "mail_ok held M" and m: "messages M m = Some y"
    and cnt: "\<And>b. counted held (nodes M) b = counted held' N' b + (if b = m then 1 else 0)"
    and sub: "\<And>b z. N' b = Some z \<Longrightarrow> nodes M b = Some z" and held: "held' \<subseteq> held"
  shows "\<exists>ms. release_at k (Some m) (messages M) = Some ms \<and>
    mail_ok held' (M\<lparr>messages := ms, nodes := N'\<rparr>) \<and>
    (\<forall>b. ms b \<noteq> None \<longrightarrow> map_option raw (ms b) = map_option raw (messages M b)) \<and>
    (\<forall>b. b \<noteq> m \<longrightarrow> ms b = messages M b)"
proof -
  note y = mail_okD(5) [OF ok m]
  have bound: "below (nodes_made M) N'" using mail_okD(1) [OF ok] sub by (auto simp: below_def)
  let ?ms = "(messages M)(m := (if references y = 1 then None else Some (y\<lparr>references := references y - 1\<rparr>)))"
  have one: "references y = 1 \<longleftrightarrow> counted held' N' m = 0"
    using y word32_one_iff [of "counted held (nodes M) m"] cnt [of m] by simp
  have gone: "m \<notin> held'" "\<And>b z. N' b = Some z \<Longrightarrow> n_message z \<noteq> Some m" if "references y = 1"
  proof -
    from that one have "counted held' N' m = 0" by simp
    then have z: "m \<notin> held'" "refs_to N' m = 0" by (auto simp: counted_def split: if_splits)
    then show "m \<notin> held'" by simp
    show "n_message w \<noteq> Some m" if "N' b = Some w" for b w
      using refs_to_zero [OF z(2) bound that] .
  qed
  have "mail_ok held' (M\<lparr>messages := ?ms, nodes := N'\<rparr>)"
  proof (rule mail_okI)
    show "below (nodes_made (M\<lparr>messages := ?ms, nodes := N'\<rparr>)) (nodes (M\<lparr>messages := ?ms, nodes := N'\<rparr>))"
      using bound by simp
    show "below (messages_made (M\<lparr>messages := ?ms, nodes := N'\<rparr>)) (messages (M\<lparr>messages := ?ms, nodes := N'\<rparr>))"
      using mail_okD(2) [OF ok] m by (auto simp: below_def)
    show "messages (M\<lparr>messages := ?ms, nodes := N'\<rparr>) b \<noteq> None" if "b \<in> held'" for b
      using mail_okD(3) [OF ok, of b] held gone(1) that by auto
    show "\<exists>c. n_message z = Some c \<and> messages (M\<lparr>messages := ?ms, nodes := N'\<rparr>) c \<noteq> None"
      if "nodes (M\<lparr>messages := ?ms, nodes := N'\<rparr>) b = Some z" for b z
    proof -
      from that have b: "N' b = Some z" by simp
      from mail_okD(4) [OF ok sub [OF this]] obtain c where "n_message z = Some c" "messages M c \<noteq> None" by blast
      with gone(2) b show ?thesis by auto
    qed
  next
    fix b z assume "messages (M\<lparr>messages := ?ms, nodes := N'\<rparr>) b = Some z"
    then have b: "?ms b = Some z" by simp
    have "sendable z \<and> references z = of_nat (counted held' N' b) \<and> 0 < counted held' N' b \<and> counted held' N' b < 2 ^ 32"
    proof (cases "b = m")
      case True
      with b have "references y \<noteq> 1" "z = y\<lparr>references := references y - 1\<rparr>" by (auto split: if_splits)
      with True y one cnt [of m] show ?thesis by auto
    next
      case False
      with b have "messages M b = Some z" by simp
      with mail_okD(5) [OF ok this] False cnt [of b] show ?thesis by simp
    qed
    then show "sendable z \<and> references z = of_nat (counted held' (nodes (M\<lparr>messages := ?ms, nodes := N'\<rparr>)) b) \<and>
        0 < counted held' (nodes (M\<lparr>messages := ?ms, nodes := N'\<rparr>)) b \<and>
        counted held' (nodes (M\<lparr>messages := ?ms, nodes := N'\<rparr>)) b < 2 ^ 32" by simp
  qed
  moreover have "release_at k (Some m) (messages M) = Some ?ms"
    using k m by (simp add: release_at_Some)
  moreover have "map_option raw (?ms b) = map_option raw (messages M b)" if "?ms b \<noteq> None" for b
    using that m by (auto split: if_splits)
  ultimately show ?thesis by (intro exI [of _ ?ms]) auto
qed

lemma drop_node:
  assumes k: "atomics_documented k" and ok: "mail_ok held M" and n: "nodes M n = Some x"
  shows "\<exists>ms. release_at k (n_message x) (messages M) = Some ms \<and>
    mail_ok held (M\<lparr>messages := ms, nodes := (nodes M)(n := None)\<rparr>) \<and>
    (\<forall>b. ms b \<noteq> None \<longrightarrow> map_option raw (ms b) = map_option raw (messages M b))"
proof -
  from mail_okD(4) [OF ok n] obtain m y where m: "n_message x = Some m" "messages M m = Some y" by auto
  have cnt: "counted held (nodes M) b = counted held ((nodes M)(n := None)) b + (if b = m then 1 else 0)" for b
    using refs_to_delete [OF n mail_okD(1) [OF ok], of b] m by (simp add: counted_def)
  have "\<exists>ms. release_at k (Some m) (messages M) = Some ms \<and>
      mail_ok held (M\<lparr>messages := ms, nodes := (nodes M)(n := None)\<rparr>) \<and>
      (\<forall>b. ms b \<noteq> None \<longrightarrow> map_option raw (ms b) = map_option raw (messages M b)) \<and>
      (\<forall>b. b \<noteq> m \<longrightarrow> ms b = messages M b)"
    by (rule give_up [OF k ok m(2) cnt]) (auto split: if_splits)
  with m show ?thesis by auto
qed

text \<open>\<open>message->Release()\<close> by the function that made the message.\<close>

lemma let_go:
  assumes k: "atomics_documented k" and ok: "mail_ok held M" and m: "m \<in> held"
  shows "\<exists>ms. release_at k (Some m) (messages M) = Some ms \<and> mail_ok (held - {m}) (M\<lparr>messages := ms\<rparr>) \<and>
    (\<forall>b. ms b \<noteq> None \<longrightarrow> map_option raw (ms b) = map_option raw (messages M b))"
proof -
  from mail_okD(3) [OF ok m] obtain y where y: "messages M m = Some y" by auto
  have cnt: "counted held (nodes M) b = counted (held - {m}) (nodes M) b + (if b = m then 1 else 0)" for b
    using m by (simp add: counted_def)
  have "\<exists>ms. release_at k (Some m) (messages M) = Some ms \<and>
      mail_ok (held - {m}) (M\<lparr>messages := ms, nodes := nodes M\<rparr>) \<and>
      (\<forall>b. ms b \<noteq> None \<longrightarrow> map_option raw (ms b) = map_option raw (messages M b)) \<and>
      (\<forall>b. b \<noteq> m \<longrightarrow> ms b = messages M b)"
    by (rule give_up [OF k ok y cnt]) auto
  then show ?thesis by auto
qed

text \<open>A message just made is held by its maker.\<close>

lemma hold_new:
  assumes ok: "mail_ok held M" and x: "message_ok ty x"
  shows "mail_ok (insert (messages_made M) held)
    (M\<lparr>messages := (messages M)(messages_made M \<mapsto> x), messages_made := Suc (messages_made M)\<rparr>)"
proof -
  let ?m = "messages_made M"
  have fresh: "messages M ?m = None" using below_fresh [OF mail_okD(2) [OF ok]] .
  have "n_message z \<noteq> Some ?m" if "nodes M n = Some z" for n z
    using mail_okD(4) [OF ok that] fresh by auto
  then have "holders (nodes M) ?m = {}" by (auto simp: holders_def)
  then have cm: "counted (insert ?m held) (nodes M) ?m = 1"
    by (simp add: counted_def refs_to_holders)
  have cb: "counted (insert ?m held) (nodes M) b = counted held (nodes M) b" if "b \<noteq> ?m" for b
    using that by (simp add: counted_def)
  have xs: "sendable x" "references x = 1" using x by (auto simp: message_ok_def sendable_def)
  have live: "\<exists>c. n_message z = Some c \<and> ((messages M)(?m \<mapsto> x)) c \<noteq> None" if "nodes M n = Some z" for n z
  proof -
    from mail_okD(4) [OF ok that] obtain c where "n_message z = Some c" "messages M c \<noteq> None" by blast
    with fresh show ?thesis by (intro exI [of _ c]) auto
  qed
  show ?thesis
    by (rule mail_okI)
      (use mail_okD(1,2,3,5) [OF ok] live xs cm cb fresh in \<open>auto simp: below_new split: if_splits\<close>)
qed

section \<open>Clearing and filling a queue\<close>

lemma ClearQueue_None [simp]: "ClearQueue k None M = Some M"
  by (simp add: ClearQueue.simps)

text \<open>Clearing a chain of nodes ends, removes exactly those nodes and releases their messages.\<close>

lemma ClearQueue_chain:
  assumes "atomics_documented k" and "mail_ok held M" and "chain n_next (nodes M) p as"
  shows "\<exists>M'. ClearQueue k p M = Some M' \<and> mail_ok held M' \<and>
    (\<forall>b. nodes M' b = (if b \<in> set as then None else nodes M b)) \<and>
    nodes_made M' = nodes_made M \<and> messages_made M' = messages_made M \<and>
    (\<forall>b. messages M' b \<noteq> None \<longrightarrow> map_option raw (messages M' b) = map_option raw (messages M b))"
  using assms(2,3)
proof (induction as arbitrary: p M)
  case Nil
  then show ?case by simp
next
  case (Cons n as)
  then obtain x where x: "p = Some n" "nodes M n = Some x" "chain n_next (nodes M) (n_next x) as" by auto
  have dist: "n \<notin> set as" using chain_head_notin_tail [OF Cons.prems(2)] .
  from drop_node [OF assms(1) Cons.prems(1) x(2)] obtain ms where
    ms: "release_at k (n_message x) (messages M) = Some ms"
      "mail_ok held (M\<lparr>messages := ms, nodes := (nodes M)(n := None)\<rparr>)"
      "\<forall>b. ms b \<noteq> None \<longrightarrow> map_option raw (ms b) = map_option raw (messages M b)" by blast
  have "chain n_next (nodes (M\<lparr>messages := ms, nodes := (nodes M)(n := None)\<rparr>)) (n_next x) as"
    using x(3) dist by simp
  from Cons.IH [OF ms(2) this] obtain M' where
    M': "ClearQueue k (n_next x) (M\<lparr>messages := ms, nodes := (nodes M)(n := None)\<rparr>) = Some M'"
      "mail_ok held M'" "\<forall>b. nodes M' b = (if b \<in> set as then None else ((nodes M)(n := None)) b)"
      "nodes_made M' = nodes_made M" "messages_made M' = messages_made M"
      "\<forall>b. messages M' b \<noteq> None \<longrightarrow> map_option raw (messages M' b) = map_option raw (ms b)" by auto
  have "ClearQueue k p M = Some M'" using x ms(1) M'(1) by (simp add: ClearQueue.simps [of k "Some n" M])
  moreover have "nodes M' b = (if b \<in> set (n # as) then None else nodes M b)" for b
    using M'(3) by simp
  moreover have "map_option raw (messages M' b) = map_option raw (messages M b)" if "messages M' b \<noteq> None" for b
    using M'(6) [rule_format, OF that] ms(3) [rule_format, of b] that by (cases "ms b") auto
  ultimately show ?case using M' by blast
qed

text \<open>\<open>Client::Send\<close> appends to the queue exactly when the client takes the message and a node can be had.\<close>

definition posts :: "kernel \<Rightarrow> Mail \<Rightarrow> Client \<Rightarrow> Message \<Rightarrow> bool" where
  "posts k M c x \<longleftrightarrow> takes c x \<and> grants k NewNode (nodes_made M)"

lemma Client_Send_skips:
  assumes x: "messages M m = Some x" "raw_type x = Some ty" and no: "\<not> posts k M c x"
  shows "Client_Send k (Some m) c M = Some (c, M)"
  using assms by (auto simp: Client_Send_def posts_def takes_def)

lemma Client_Send_posts:
  assumes k: "atomics_documented k" and ok: "mail_ok held M" and x: "messages M m = Some x"
    and q: "queue_ok (nodes M) c as" and small: "nodes_made M + 2 < 2 ^ 32" and p: "posts k M c x"
  shows "\<exists>c' M'. Client_Send k (Some m) c M = Some (c', M') \<and> mail_ok held M' \<and>
    queue_ok (nodes M') c' (as @ [nodes_made M]) \<and>
    c' = c\<lparr>messageQueueHead := messageQueueHead c', messageQueueLast := messageQueueLast c'\<rparr> \<and>
    nodes_made M' = Suc (nodes_made M) \<and> messages_made M' = messages_made M \<and>
    messages M' = (messages M)(m \<mapsto> x\<lparr>references := references x + 1\<rparr>) \<and>
    map_option n_message (nodes M' (nodes_made M)) = Some (Some m) \<and>
    (\<forall>b. b \<noteq> nodes_made M \<longrightarrow> map_option n_message (nodes M' b) = map_option n_message (nodes M b)) \<and>
    (\<forall>b. b \<noteq> nodes_made M \<longrightarrow> b \<notin> set as \<longrightarrow> nodes M' b = nodes M b)"
proof -
  let ?n = "nodes_made M" let ?y = "\<lparr>n_message = Some m, n_next = None\<rparr>"
  let ?N = "(nodes M)(?n \<mapsto> ?y)" and ?ms = "(messages M)(m \<mapsto> x\<lparr>references := references x + 1\<rparr>)"
  have lk: "lockQueue c = Lock" "lockWorkThread c = Lock" and qa: "queue_at n_next (nodes M) (messageQueueHead c) (messageQueueLast c) as"
    using q by (auto simp: queue_ok_def)
  note bound = mail_okD(1) [OF ok]
  have fresh: "nodes M ?n = None" using below_fresh [OF bound] .
  have notin: "?n \<notin> set as" using qa fresh by (auto simp: queue_at_def dest: chain_allocated)
  have "queue_at n_next ?N (messageQueueHead c) (messageQueueLast c) as"
    using qa notin by (simp add: queue_at_def)
  then obtain h N' where e: "enqueue n_next_update ?n (messageQueueHead c, messageQueueLast c, ?N) = Some (h, Some ?n, N')"
    and q': "queue_at n_next N' h (Some ?n) (as @ [?n])"
    and fr: "\<forall>b. b \<notin> set as \<longrightarrow> N' b = ?N b"
    and pay: "\<forall>b. N' b = ?N b \<or> (\<exists>y. ?N b = Some y \<and> N' b = Some (y\<lparr>n_next := Some ?n\<rparr>))"
    by (rule node_link.enqueue_queue [of ?N _ _ as ?n ?y]) (use notin in auto)
  have msg: "map_option n_message (N' b) = map_option n_message (?N b)" for b
    using pay [rule_format, of b] by auto
  let ?M = "M\<lparr>messages := ?ms, nodes := N', nodes_made := Suc ?n\<rparr>"
  let ?c = "c\<lparr>messageQueueHead := h, messageQueueLast := Some ?n\<rparr>"
  from p obtain ty where "raw_type x = Some ty" "ucast ty AND registredMessageClases c \<noteq> 0" "exitState c = 0"
    "grants k NewNode ?n" by (auto simp: posts_def takes_def)
  then have step: "Client_Send k (Some m) c M = Some (?c, ?M)"
    using k x lk e by (simp add: Client_Send_def Let_def retain_at_Some)
  have cnt: "counted held N' b = counted held (nodes M) b + (if b = m then 1 else 0)" for b
  proof -
    have "holders N' b = holders ?N b" by (rule holders_cong) (rule msg)
    then have "refs_to N' b = refs_to ?N b" by (simp only: refs_to_holders)
    then show ?thesis using refs_to_new [OF fresh bound, of ?y b] by (simp add: counted_def)
  qed
  have "counted held (nodes M) m + 1 < 2 ^ 32"
    using refs_to_bound [OF bound, of m] small by (simp add: counted_def)
  moreover have alive: "\<exists>a. n_message w = Some a \<and> ?ms a \<noteq> None" if w: "N' b = Some w" for b w
  proof -
    from w msg [of b] obtain z where z: "?N b = Some z" "n_message z = n_message w"
      by (cases "?N b") (simp_all del: fun_upd_apply)
    show ?thesis
    proof (cases "b = ?n")
      case True
      with z have "n_message w = Some m" by auto
      then show ?thesis by simp
    next
      case False
      with z mail_okD(4) [OF ok, of b z] show ?thesis by auto
    qed
  qed
  moreover have bN: "below (Suc ?n) N'"
  proof -
    have "N' b \<noteq> None \<longleftrightarrow> ?N b \<noteq> None" for b using msg [of b] by (metis map_option_is_None)
    then show ?thesis using below_new [OF bound, of "Some ?y"] unfolding below_def by (metis option.exhaust)
  qed
  moreover have "mail_ok held ?M"
  proof (rule mail_okI)
    fix b z assume "messages ?M b = Some z"
    then have b: "?ms b = Some z" by simp
    have "sendable z \<and> references z = of_nat (counted held N' b) \<and> 0 < counted held N' b \<and> counted held N' b < 2 ^ 32"
    proof (cases "b = m")
      case True
      with b have "z = x\<lparr>references := references x + 1\<rparr>" by simp
      with True mail_okD(5) [OF ok x] cnt [of m] \<open>counted held (nodes M) m + 1 < 2 ^ 32\<close> show ?thesis by simp
    next
      case False
      with b have "messages M b = Some z" by simp
      with mail_okD(5) [OF ok this] False cnt [of b] show ?thesis by simp
    qed
    then show "sendable z \<and> references z = of_nat (counted held (nodes ?M) b) \<and> 0 < counted held (nodes ?M) b \<and>
        counted held (nodes ?M) b < 2 ^ 32" by simp
  next
    show "below (messages_made ?M) (messages ?M)"
      using mail_okD(2) [OF ok] x by (auto simp: below_def)
  qed (use mail_okD(3) [OF ok] alive bN in auto)
  with step q' lk msg fr x show ?thesis
    by (intro exI [of _ ?c] exI [of _ ?M]) (auto simp: queue_ok_def)
qed

section \<open>Life cycle and subscriptions\<close>

text \<open>A release that is not the last one only counts; the last one clears the queue and frees the client.\<close>

lemma release_client_more:
  assumes "atomics_documented k" and "H a = Some c" and "references c \<noteq> 1"
  shows "release_client k a (H, M) = Some (H(a \<mapsto> c\<lparr>references := references c - 1\<rparr>), M)"
  using assms by (simp add: release_client_def Release_documented)

lemma release_client_last:
  assumes k: "atomics_documented k" and c: "H a = Some c" "references c = 1"
    and ok: "mail_ok held M" and q: "queue_ok (nodes M) c as"
  shows "\<exists>M'. release_client k a (H, M) = Some (H(a := None), M') \<and> mail_ok held M' \<and>
    (\<forall>b. nodes M' b = (if b \<in> set as then None else nodes M b)) \<and>
    nodes_made M' = nodes_made M \<and> messages_made M' = messages_made M \<and>
    (\<forall>b. messages M' b \<noteq> None \<longrightarrow> map_option raw (messages M' b) = map_option raw (messages M b))"
proof -
  have ch: "chain n_next (nodes M) (messageQueueHead c) as" and lk: "lockQueue c = Lock" "lockWorkThread c = Lock"
    using q by (auto simp: queue_ok_def queue_at_def)
  from ClearQueue_chain [OF k ok ch] obtain M' where M': "ClearQueue k (messageQueueHead c) M = Some M'"
    "mail_ok held M'" "\<forall>b. nodes M' b = (if b \<in> set as then None else nodes M b)"
    "nodes_made M' = nodes_made M" "messages_made M' = messages_made M"
    "\<forall>b. messages M' b \<noteq> None \<longrightarrow> map_option raw (messages M' b) = map_option raw (messages M b)" by blast
  then have "release_client k a (H, M) = Some (H(a := None), M')"
    using k c lk by (simp add: release_client_def Release_documented Client_Free_def)
  with M' show ?thesis by blast
qed

lemma InitWithClient_ok:
  assumes "InitWithClient k n early ref u new_client = (True, c)" and "atomics_documented k"
  shows "references c = 1 \<and> exitState c = 0 \<and> unit c = u \<and> c_next c = None \<and> queue_ok N c [] \<and>
    registredMessageClases c = ucast (class_code MessageClassFirewall OR class_code MessageClassCommon)"
  using assms
  by (auto simp: InitWithClient_def new_client_def queue_ok_def queue_at_def Retain_documented Let_def
      split: if_splits)

text \<open>
  What registering and unregistering compute. The test is on the value before the update, and
  unregistering sets all the other bits instead of clearing the given ones.
\<close>

lemma RegisterMessageClasses_eq:
  "atomics_documented k \<Longrightarrow> RegisterMessageClasses k classes c =
     (registredMessageClases c AND ucast classes = ucast classes,
      c\<lparr>registredMessageClases := registredMessageClases c OR ucast classes\<rparr>)"
  by (simp add: RegisterMessageClasses_def)

lemma UnregisterMessageClasses_eq:
  "atomics_documented k \<Longrightarrow> UnregisterMessageClasses k classes c =
     (registredMessageClases c AND ucast classes = 0,
      c\<lparr>registredMessageClases := registredMessageClases c OR NOT (ucast classes)\<rparr>)"
  by (simp add: UnregisterMessageClasses_def)

text \<open>Subscription to one class, as the bit test of \<open>Send\<close> sees it.\<close>

definition subscribed :: "Client \<Rightarrow> MessagesClass \<Rightarrow> bool" where
  "subscribed c cl \<longleftrightarrow> registredMessageClases c AND ucast (class_code cl) \<noteq> 0"

abbreviation class32 :: "MessagesClass \<Rightarrow> u32" where
  "class32 cl \<equiv> ucast (class_code cl)"

lemma class32_and: "class32 c AND class32 d = (if c = d then class32 c else 0)"
  by (cases c; cases d) simp_all

lemma class32_not_and: "NOT (class32 c) AND class32 d = (if c = d then 0 else class32 d)"
  by (cases c; cases d) simp_all

lemma class32_nonzero: "class32 cl \<noteq> 0"
  by (cases cl) simp_all

lemma or_nonzero: "w OR v = (0 :: 'a::len word) \<longleftrightarrow> w = 0 \<and> v = 0"
  by (auto simp: bit_eq_iff bit_or_iff)

lemma bit_subset: "i < 32 \<Longrightarrow> w AND 2 ^ i = (2 ^ i :: u32) \<longleftrightarrow> w AND 2 ^ i \<noteq> 0"
proof -
  assume i: "i < 32"
  have b: "bit (2 ^ i :: u32) n \<longleftrightarrow> n = i" for n
    using i by (auto simp: bit_exp_iff)
  show ?thesis using i by (auto simp: bit_eq_iff [where a = "_ :: u32"] bit_and_iff b)
qed

lemma class32_exp: "\<exists>i<32. class32 cl = 2 ^ i"
  by (cases cl) (auto intro: exI [of _ 8] exI [of _ 9] exI [of _ 10] exI [of _ 11] exI [of _ 12] exI [of _ 13])

lemma class32_subset: "w AND class32 cl = class32 cl \<longleftrightarrow> w AND class32 cl \<noteq> 0"
  using class32_exp [of cl] bit_subset by force

lemma dist_and: "(w OR v) AND (u :: 'a::len word) = (w AND u) OR (v AND u)"
  by (simp add: bit.conj_disj_distrib2)

lemma subscribed_register:
  assumes "atomics_documented k"
  shows "fst (RegisterMessageClasses k (class_code cl) c) \<longleftrightarrow> subscribed c cl"
    and "subscribed (snd (RegisterMessageClasses k (class_code cl) c)) d \<longleftrightarrow> subscribed c d \<or> d = cl"
  using assms
  by (auto simp: RegisterMessageClasses_eq subscribed_def class32_subset dist_and or_nonzero class32_and
      class32_nonzero)

lemma subscribed_unregister:
  assumes "atomics_documented k"
  shows "fst (UnregisterMessageClasses k (class_code cl) c) \<longleftrightarrow> \<not> subscribed c cl"
    and "subscribed (snd (UnregisterMessageClasses k (class_code cl) c)) d \<longleftrightarrow> subscribed c d \<or> d \<noteq> cl"
  using assms
  by (auto simp: UnregisterMessageClasses_eq subscribed_def dist_and or_nonzero class32_not_and
      class32_nonzero)

section \<open>Properties\<close>

text \<open>C21. What the two subscription calls do. Registering a class subscribes the client to it and
  keeps the rest; its answer is whether the client was subscribed before, not whether it is now. Unregistering
  a class does not unsubscribe from it: it subscribes the client to every other class, and its answer is
  whether the client was not subscribed before.\<close>

theorem subscription_effect:
  assumes "atomics_documented k"
  shows "(fst (RegisterMessageClasses k (class_code cl) c) \<longleftrightarrow> subscribed c cl) \<and>
    (subscribed (snd (RegisterMessageClasses k (class_code cl) c)) d \<longleftrightarrow> subscribed c d \<or> d = cl) \<and>
    (fst (UnregisterMessageClasses k (class_code cl) c) \<longleftrightarrow> \<not> subscribed c cl) \<and>
    (subscribed (snd (UnregisterMessageClasses k (class_code cl) c)) d \<longleftrightarrow> subscribed c d \<or> d \<noteq> cl)"
  using subscribed_register [OF assms] subscribed_unregister [OF assms] by blast

lemma subscription_effect_witness:
  "subscribed (snd (UnregisterMessageClasses plain_kernel (class_code MessageClassInfoRules) new_client)) MessageClassFirewall"
  using subscription_effect [OF plain_kernel_documented, of MessageClassInfoRules new_client MessageClassFirewall] by simp

text \<open>C11. \<open>Send\<close> appends to the queue or does nothing. A message is queued exactly when the client is not
  closing, has registered a class of the message and the node can be allocated; then the new node, which refers to
  the message, is the last of the queue, the message has one reference more, every count still equals the number
  of owners, and the other nodes keep their messages. Otherwise client and mail are unchanged.\<close>

theorem Send_queues:
  assumes "atomics_documented k" and "mail_ok held M" and "messages M m = Some x" and "queue_ok (nodes M) c as"
    and "nodes_made M + 2 < 2 ^ 32"
  shows "\<exists>c' M'. Client_Send k (Some m) c M = Some (c', M') \<and> mail_ok held M' \<and>
    (if exitState c = 0 \<and> (\<exists>ty. raw_type x = Some ty \<and> ucast ty AND registredMessageClases c \<noteq> 0) \<and>
        grants k NewNode (nodes_made M)
     then queue_ok (nodes M') c' (as @ [nodes_made M]) \<and>
       posted (nodes M') (as @ [nodes_made M]) = posted (nodes M) as @ [Some m] \<and>
       messages M' = (messages M)(m \<mapsto> x\<lparr>references := references x + 1\<rparr>)
     else c' = c \<and> M' = M)"
proof (cases "posts k M c x")
  case False
  obtain ty where ty: "raw_type x = Some ty" using mail_okD(5) [OF assms(2,3)] by (auto simp: sendable_def)
  show ?thesis using Client_Send_skips [OF assms(3) ty False] False assms(2) by (auto simp: posts_def takes_def)
next
  case True
  from Client_Send_posts [OF assms(1-5) True] obtain c' M' where
    s: "Client_Send k (Some m) c M = Some (c', M')" "mail_ok held M'" "queue_ok (nodes M') c' (as @ [nodes_made M])"
      "messages M' = (messages M)(m \<mapsto> x\<lparr>references := references x + 1\<rparr>)"
      "map_option n_message (nodes M' (nodes_made M)) = Some (Some m)"
      "\<forall>b. b \<noteq> nodes_made M \<longrightarrow> map_option n_message (nodes M' b) = map_option n_message (nodes M b)" by blast
  have live: "\<exists>y. nodes M b = Some y" "b \<noteq> nodes_made M" if "b \<in> set as" for b
  proof -
    show e: "\<exists>y. nodes M b = Some y"
      using chain_allocated that assms(4) by (fastforce simp: queue_ok_def queue_at_def)
    then show "b \<noteq> nodes_made M" using below_fresh [OF mail_okD(1) [OF assms(2)]] by auto
  qed
  have "n_message (the (nodes M' b)) = n_message (the (nodes M b))" if b: "b \<in> set as" for b
  proof -
    have "map_option n_message (nodes M' b) = map_option n_message (nodes M b)" using s(6) live(2) [OF b] by blast
    with live(1) [OF b] show ?thesis by auto
  qed
  moreover have "n_message (the (nodes M' (nodes_made M))) = Some m" using s(5) by auto
  ultimately have "posted (nodes M') (as @ [nodes_made M]) = posted (nodes M) as @ [Some m]"
    by (simp add: posted_def)
  then show ?thesis using s True by (auto simp: posts_def takes_def)
qed

definition demo_mail_one :: Mail where
  "demo_mail_one = \<lparr>messages = [0 \<mapsto> \<lparr>references = 1, raw = [4, 0, 9, 8]\<rparr>], nodes = Map.empty,
     messages_made = 1, nodes_made = 0\<rparr>"

lemma demo_mail_one: "mail_ok {0} demo_mail_one"
proof -
  have "raw_type \<lparr>references = 1, raw = [4, 0, 9, 8]\<rparr> = Some 2057" "raw_size \<lparr>references = 1, raw = [4, 0, 9, 8]\<rparr> = Some 4"
    by code_simp+
  then have "sendable \<lparr>references = 1, raw = [4, 0, 9, 8]\<rparr>" by (simp add: sendable_def)
  then show ?thesis by (auto simp: mail_ok_def demo_mail_one_def below_def counted_def refs_to_def)
qed

definition demo_receiver :: Client where
  "demo_receiver = new_client\<lparr>registredMessageClases := 0x2800, lockQueue := Lock, lockWorkThread := Lock\<rparr>"

lemma Send_queues_witness:
  "\<exists>c' M'. Client_Send plain_kernel (Some 0) demo_receiver demo_mail_one = Some (c', M') \<and>
    queue_ok (nodes M') c' [0] \<and> posted (nodes M') [0] = [Some 0]"
proof -
  have q: "queue_ok (nodes demo_mail_one) demo_receiver []"
    by (simp add: queue_ok_def queue_at_def demo_receiver_def new_client_def)
  have m: "messages demo_mail_one 0 = Some \<lparr>references = 1, raw = [4, 0, 9, 8]\<rparr>"
    and s: "nodes_made demo_mail_one + 2 < 2 ^ 32" and f: "nodes_made demo_mail_one = 0"
    by (simp_all add: demo_mail_one_def)
  have t: "raw_type \<lparr>references = 1, raw = [4, 0, 9, 8]\<rparr> = Some 2057" by code_simp
  have p: "exitState demo_receiver = 0"
    "\<exists>ty. raw_type \<lparr>references = 1, raw = [4, 0, 9, 8]\<rparr> = Some ty \<and> ucast ty AND registredMessageClases demo_receiver \<noteq> 0"
    "posted (nodes demo_mail_one) [] = []"
    by (simp_all add: t demo_receiver_def new_client_def posted_def)
  show ?thesis
    using Send_queues [OF plain_kernel_documented demo_mail_one m q s] by (simp add: p f) blast
qed

end
