(* ===== verification/Clients.thy ===== *)
theory Clients
  imports Client
begin

text \<open>
  The list of connected clients and the broadcast over it (\<open>Firewall::Send\<close>, and the list part of
  \<open>KcConnect\<close> and \<open>KcDisconnect\<close> in Kext/firewall.cpp). The list is singly linked through
  \<open>Client::next\<close> and guarded by \<open>lockClientsQueue\<close>.
\<close>

interpretation client_link: link_field c_next "c_next_update :: _ \<Rightarrow> Client \<Rightarrow> Client"
  by unfold_locales simp

text \<open>\<open>for(client = this->clients; client; client = client->next) client->Send(message);\<close>\<close>

partial_function (option) Send_loop :: "kernel \<Rightarrow> ptr \<Rightarrow> ptr \<Rightarrow> Client heap \<times> Mail \<Rightarrow> (Client heap \<times> Mail) option" where
  "Send_loop k message client s =
     (case client of None \<Rightarrow> Some s
      | Some a \<Rightarrow> do {
          c \<leftarrow> fst s a;
          (c', M) \<leftarrow> Client_Send k message c (snd s);
          Send_loop k message (c_next c') ((fst s)(a \<mapsto> c'), M)
        })"

text \<open>
  The search of \<open>KcDisconnect\<close> for the client at address \<open>a\<close>: \<open>Some (Some prev)\<close> when it is found
  after \<open>prev\<close>, \<open>Some None\<close> when it is not on the list.
\<close>

partial_function (option) find_client :: "addr \<Rightarrow> Client heap \<Rightarrow> ptr \<Rightarrow> ptr \<Rightarrow> ptr option option" where
  "find_client a H prev cur =
     (case cur of None \<Rightarrow> Some None
      | Some b \<Rightarrow> do {
          c \<leftarrow> H b;
          if b = a then Some (Some prev) else find_client a H cur (c_next c)
        })"

definition unlink_client :: "addr \<Rightarrow> ptr \<Rightarrow> ptr \<times> Client heap \<Rightarrow> (ptr \<times> Client heap) option" where
  "unlink_client a prev s = (case s of (first, H) \<Rightarrow> do {
     c \<leftarrow> H a;
     case prev of
       Some p \<Rightarrow> map_option (Pair first) (modify (Some p) (\<lambda>x. x\<lparr>c_next := c_next c\<rparr>) H)
     | None \<Rightarrow> Some (c_next c, H)
   })"

section \<open>Facts about the list\<close>

lemma find_client_None [simp]: "find_client a H prev None = Some None"
  by (simp add: find_client.simps)

lemma find_client_Some [simp]:
  "H b = Some c \<Longrightarrow> find_client a H prev (Some b) =
     (if b = a then Some (Some prev) else find_client a H (Some b) (c_next c))"
  by (simp add: find_client.simps [of a H prev "Some b"])

lemma find_client_absent: "chain c_next H p as \<Longrightarrow> a \<notin> set as \<Longrightarrow> find_client a H prev p = Some None"
  by (induction as arbitrary: p prev) auto

lemma find_client_present:
  "chain c_next H p (us @ a # vs) \<Longrightarrow> a \<notin> set us \<Longrightarrow>
   find_client a H prev p = Some (Some (if us = [] then prev else Some (last us)))"
  by (induction us arbitrary: p prev) auto

lemma unlink_client_chain:
  assumes ch: "chain c_next H first (us @ a # vs)" and c: "H a = Some c"
  shows "\<exists>first' H'. unlink_client a (if us = [] then None else Some (last us)) (first, H) = Some (first', H') \<and>
    chain c_next H' first' (us @ vs) \<and>
    (\<forall>b. map_option (\<lambda>x. x\<lparr>c_next := None\<rparr>) (H' b) = map_option (\<lambda>x. x\<lparr>c_next := None\<rparr>) (H b)) \<and> H' a = Some c"
proof (cases "us = []")
  case True
  then show ?thesis using ch c by (auto simp: unlink_client_def)
next
  case False
  then obtain ws p where us: "us = ws @ [p]" by (metis append_butlast_last_id)
  from ch us obtain x where x: "H p = Some x" "path c_next H first ws (Some p)"
    by (auto simp: chain_append dest: path_last_next)
  have dist: "distinct (us @ a # vs)" by (rule chain_distinct [OF ch])
  then have p: "p \<noteq> a" "p \<notin> set ws" "p \<notin> set vs" using us by auto
  let ?H = "H(p \<mapsto> x\<lparr>c_next := c_next c\<rparr>)"
  have "chain c_next H (c_next c) vs" using ch c by (auto simp: chain_append)
  then have "chain c_next ?H first (us @ vs)"
    using x p us by (auto simp: chain_append)
  then show ?thesis using us x c p by (auto simp: unlink_client_def)
qed

section \<open>The broadcast\<close>

lemma Send_loop_None [simp]: "Send_loop k m None s = Some s"
  by (simp add: Send_loop.simps)

lemma Send_loop_Some [simp]:
  "H a = Some c \<Longrightarrow> Client_Send k m c M = Some (c', M') \<Longrightarrow>
   Send_loop k m (Some a) (H, M) = Send_loop k m (c_next c') (H(a \<mapsto> c'), M')"
  by (simp add: Send_loop.simps [of k m "Some a"])

text \<open>What a client is apart from its queue: nothing else changes when a message is sent to it.\<close>

definition sans_queue :: "Client \<Rightarrow> Client" where
  "sans_queue c = c\<lparr>messageQueueHead := None, messageQueueLast := None\<rparr>"

lemma sans_queue_fields [simp]:
  "exitState (sans_queue c) = exitState c" "registredMessageClases (sans_queue c) = registredMessageClases c"
  "unit (sans_queue c) = unit c" "references (sans_queue c) = references c" "c_next (sans_queue c) = c_next c"
  by (simp_all add: sans_queue_def)

text \<open>The messages in a queue after a message \<open>m\<close> has been offered to the client.\<close>

definition offered :: "kernel \<Rightarrow> addr \<Rightarrow> Message \<Rightarrow> Client \<Rightarrow> ptr list \<Rightarrow> ptr list \<Rightarrow> bool" where
  "offered k m x c before after \<longleftrightarrow>
     (if takes c x then after = before @ [Some m] \<or> after = before \<and> (\<exists>n. \<not> grants k NewNode n)
      else after = before)"

lemma takes_cong: "exitState c' = exitState c \<Longrightarrow> registredMessageClases c' = registredMessageClases c \<Longrightarrow>
    raw x' = raw x \<Longrightarrow> takes c' x' = takes c x"
  by (simp add: takes_def raw_type_def)

lemma posted_cong:
  "(\<And>n. n \<in> set as \<Longrightarrow> map_option n_message (N' n) = map_option n_message (N n) \<and> N n \<noteq> None) \<Longrightarrow>
   posted N' as = posted N as"
proof (induction as)
  case (Cons n as)
  then have "map_option n_message (N' n) = map_option n_message (N n)" "N n \<noteq> None" by auto
  then have "n_message (the (N' n)) = n_message (the (N n))" by (cases "N n"; cases "N' n") auto
  with Cons show ?case by (simp add: posted_def)
qed (simp add: posted_def)

lemma queue_ok_live: "queue_ok N c as \<Longrightarrow> n \<in> set as \<Longrightarrow> N n \<noteq> None"
  by (auto simp: queue_ok_def queue_at_def dest: chain_allocated)

text \<open>Offering a message to one client of the list.\<close>

lemma offer_one:
  assumes k: "atomics_documented k" and ok: "mail_ok held M" and x: "messages M m = Some x"
    and q: "queue_ok (nodes M) c as" and small: "nodes_made M + 2 < 2 ^ 32"
  shows "\<exists>c' M' as'. Client_Send k (Some m) c M = Some (c', M') \<and> mail_ok held M' \<and>
    queue_ok (nodes M') c' as' \<and> sans_queue c' = sans_queue c \<and>
    offered k m x c (posted (nodes M) as) (posted (nodes M') as') \<and>
    (\<exists>y. messages M' m = Some y \<and> raw y = raw x) \<and>
    (\<forall>b. map_option raw (messages M' b) = map_option raw (messages M b)) \<and>
    nodes_made M \<le> nodes_made M' \<and> nodes_made M' \<le> Suc (nodes_made M) \<and> messages_made M' = messages_made M \<and>
    (\<forall>n. n \<notin> set as \<longrightarrow> nodes M n \<noteq> None \<longrightarrow> nodes M' n = nodes M n) \<and>
    set as' \<subseteq> set as \<union> {nodes_made M..<nodes_made M'}"
proof (cases "posts k M c x")
  case False
  from mail_okD(5) [OF ok x] obtain ty where "raw_type x = Some ty" by (auto simp: sendable_def)
  from Client_Send_skips [OF x this False] ok q x False show ?thesis
    by (intro exI [of _ c] exI [of _ M] exI [of _ as]) (auto simp: offered_def posts_def)
next
  case True
  let ?n = "nodes_made M"
  from Client_Send_posts [OF k ok x q small True] obtain c' M' where
    s: "Client_Send k (Some m) c M = Some (c', M')" "mail_ok held M'" "queue_ok (nodes M') c' (as @ [?n])"
      "c' = c\<lparr>messageQueueHead := messageQueueHead c', messageQueueLast := messageQueueLast c'\<rparr>"
      "nodes_made M' = Suc ?n" "messages_made M' = messages_made M"
      "messages M' = (messages M)(m \<mapsto> x\<lparr>references := references x + 1\<rparr>)"
    and new: "map_option n_message (nodes M' ?n) = Some (Some m)"
    and old: "\<forall>b. b \<noteq> ?n \<longrightarrow> map_option n_message (nodes M' b) = map_option n_message (nodes M b)"
    and frame: "\<forall>b. b \<noteq> ?n \<longrightarrow> b \<notin> set as \<longrightarrow> nodes M' b = nodes M b" by blast
  have fresh: "nodes M ?n = None" using below_fresh [OF mail_okD(1) [OF ok]] .
  then have "?n \<notin> set as" using queue_ok_live [OF q, of ?n] by auto
  then have "posted (nodes M') as = posted (nodes M) as"
    using old queue_ok_live [OF q] by (intro posted_cong) metis
  moreover from new have "posted (nodes M') [?n] = [Some m]" by (auto simp: posted_def)
  ultimately have "posted (nodes M') (as @ [?n]) = posted (nodes M) as @ [Some m]"
    by (simp add: posted_def)
  moreover have "takes c x" using True by (simp add: posts_def)
  ultimately have "offered k m x c (posted (nodes M) as) (posted (nodes M') (as @ [?n]))"
    by (simp add: offered_def)
  moreover have "sans_queue c' = sans_queue c" by (subst s(4)) (simp add: sans_queue_def)
  moreover have "nodes M' b = nodes M b" if "b \<notin> set as" "nodes M b \<noteq> None" for b
    using frame [rule_format, of b] that fresh by fastforce
  ultimately show ?thesis
    using s x by (intro exI [of _ c'] exI [of _ M'] exI [of _ "as @ [?n]"]) auto
qed

text \<open>
  \<open>Q a\<close> are the nodes in the queue of the client \<open>a\<close>. The queues of different clients share no node;
  nodes in no queue are those the clients' threads have taken. The clients on the list have not been
  told to leave, and all of them get the debug messages: \<open>InitWithClient\<close> subscribes them.
\<close>

definition queues_ok :: "Client heap \<Rightarrow> Mail \<Rightarrow> addr list \<Rightarrow> (addr \<Rightarrow> addr list) \<Rightarrow> bool" where
  "queues_ok H M cs Q \<longleftrightarrow>
     (\<forall>a\<in>set cs. \<exists>c. H a = Some c \<and> queue_ok (nodes M) c (Q a)) \<and>
     (\<forall>a\<in>set cs. \<forall>b\<in>set cs. a \<noteq> b \<longrightarrow> set (Q a) \<inter> set (Q b) = {})"

definition clients_ok :: "addr set \<Rightarrow> ptr \<Rightarrow> Client heap \<Rightarrow> Mail \<Rightarrow> addr list \<Rightarrow> (addr \<Rightarrow> addr list) \<Rightarrow> bool" where
  "clients_ok held first H M cs Q \<longleftrightarrow>
     mail_ok held M \<and> chain c_next H first cs \<and> queues_ok H M cs Q \<and>
     (\<forall>a\<in>set cs. \<forall>c. H a = Some c \<longrightarrow> exitState c = 0 \<and> subscribed c MessageClassCommon)"

text \<open>
  The broadcast ends without a fault and offers the message to every client of the list, once; it
  touches no client and no node besides.
\<close>

definition broadcast_done ::
  "kernel \<Rightarrow> addr \<Rightarrow> Message \<Rightarrow> addr list \<Rightarrow> Client heap \<Rightarrow> Mail \<Rightarrow> (addr \<Rightarrow> addr list) \<Rightarrow>
   Client heap \<Rightarrow> Mail \<Rightarrow> (addr \<Rightarrow> addr list) \<Rightarrow> bool" where
  "broadcast_done k m x cs H M Q H' M' Q' \<longleftrightarrow>
     (\<forall>a\<in>set cs. \<exists>c c'. H a = Some c \<and> H' a = Some c' \<and> sans_queue c' = sans_queue c \<and>
        offered k m x c (posted (nodes M) (Q a)) (posted (nodes M') (Q' a)) \<and>
        set (Q' a) \<subseteq> set (Q a) \<union> {nodes_made M..<nodes_made M'}) \<and>
     (\<forall>a. a \<notin> set cs \<longrightarrow> H' a = H a \<and> Q' a = Q a) \<and>
     (\<exists>y. messages M' m = Some y \<and> raw y = raw x) \<and>
     (\<forall>b. map_option raw (messages M' b) = map_option raw (messages M b)) \<and>
     nodes_made M \<le> nodes_made M' \<and> nodes_made M' \<le> nodes_made M + length cs \<and>
     messages_made M' = messages_made M \<and>
     (\<forall>n. nodes M n \<noteq> None \<longrightarrow> (\<forall>a\<in>set cs. n \<notin> set (Q a)) \<longrightarrow> nodes M' n = nodes M n)"

lemma broadcast_client:
  assumes "broadcast_done k m x cs H M Q H' M' Q'" and "a \<in> set cs"
  shows "set (Q' a) \<subseteq> set (Q a) \<union> {nodes_made M..<nodes_made M'}"
    and "\<exists>c c'. H a = Some c \<and> H' a = Some c' \<and> sans_queue c' = sans_queue c \<and>
        offered k m x c (posted (nodes M) (Q a)) (posted (nodes M') (Q' a))"
  using assms unfolding broadcast_done_def by blast+

lemma queue_ok_nodes_cong:
  "(\<And>n. n \<in> set as \<Longrightarrow> N' n = N n) \<Longrightarrow> queue_ok N' c as = queue_ok N c as"
  unfolding queue_ok_def queue_at_def by (subst chain_cong [of as n_next N' N]) auto

lemma live_below: "mail_ok held M \<Longrightarrow> nodes M n \<noteq> None \<Longrightarrow> n < nodes_made M"
  using mail_okD(1) by (fastforce simp: below_def)

lemma Send_loop_ok:
  assumes k: "atomics_documented k"
  shows "mail_ok held M \<Longrightarrow> messages M m = Some x \<Longrightarrow> chain c_next H p cs \<Longrightarrow> queues_ok H M cs Q \<Longrightarrow>
    nodes_made M + length cs + 1 < 2 ^ 32 \<Longrightarrow>
    \<exists>H' M' Q'. Send_loop k (Some m) p (H, M) = Some (H', M') \<and> mail_ok held M' \<and>
      chain c_next H' p cs \<and> queues_ok H' M' cs Q' \<and> broadcast_done k m x cs H M Q H' M' Q'"
proof (induction cs arbitrary: M x H p Q)
  case Nil
  then show ?case by (auto simp: queues_ok_def broadcast_done_def)
next
  case (Cons a cs)
  from Cons.prems(3,4) obtain c where p: "p = Some a" and c: "H a = Some c" "chain c_next H (c_next c) cs"
    and q: "queue_ok (nodes M) c (Q a)"
    by (auto simp: queues_ok_def)
  have dist: "a \<notin> set cs" using chain_head_notin_tail [OF Cons.prems(3)] .
  have disj: "set (Q a) \<inter> set (Q b) = {}" if "b \<in> set cs" for b
    using Cons.prems(4) dist that unfolding queues_ok_def by (metis list.set_intros)
  have small: "nodes_made M + 2 < 2 ^ 32" using Cons.prems(5) by simp
  from offer_one [OF k Cons.prems(1,2) q small] obtain c' M1 as' where
    s: "Client_Send k (Some m) c M = Some (c', M1)" and ok1: "mail_ok held M1"
    and q1: "queue_ok (nodes M1) c' as'" and sq: "sans_queue c' = sans_queue c"
    and off: "offered k m x c (posted (nodes M) (Q a)) (posted (nodes M1) as')"
    and m1: "\<exists>y. messages M1 m = Some y \<and> raw y = raw x"
    and raws1: "\<forall>b. map_option raw (messages M1 b) = map_option raw (messages M b)"
    and made1: "nodes_made M \<le> nodes_made M1" "nodes_made M1 \<le> Suc (nodes_made M)" "messages_made M1 = messages_made M"
    and fr1: "\<forall>n. n \<notin> set (Q a) \<longrightarrow> nodes M n \<noteq> None \<longrightarrow> nodes M1 n = nodes M n"
    and sub1: "set as' \<subseteq> set (Q a) \<union> {nodes_made M..<nodes_made M1}" by blast
  from m1 obtain y where y: "messages M1 m = Some y" "raw y = raw x" by blast
  let ?H = "H(a \<mapsto> c')" and ?Q = "Q(a := as')"
  have live: "nodes M n \<noteq> None" if "b \<in> set (a # cs)" "n \<in> set (Q b)" for b n
    using Cons.prems(4) that queue_ok_live unfolding queues_ok_def by metis
  have same1: "nodes M1 n = nodes M n" if "b \<in> set cs" "n \<in> set (Q b)" for b n
    using fr1 live [of b n] disj [OF that(1)] that by auto
  have nx: "c_next c' = c_next c" using sq by (metis sans_queue_fields(5))
  have ch1: "chain c_next ?H (c_next c') cs" using c(2) dist nx by simp
  have qs1: "queues_ok ?H M1 cs ?Q"
    unfolding queues_ok_def
  proof (intro conjI ballI impI)
    fix b assume b: "b \<in> set cs"
    with Cons.prems(4) obtain d where d: "H b = Some d" "queue_ok (nodes M) d (Q b)"
      unfolding queues_ok_def by (metis list.set_intros(2))
    have "queue_ok (nodes M1) d (Q b) = queue_ok (nodes M) d (Q b)"
      by (rule queue_ok_nodes_cong) (rule same1 [OF b])
    with d b dist show "\<exists>d. ?H b = Some d \<and> queue_ok (nodes M1) d (?Q b)" by auto
  next
    fix b d assume "b \<in> set cs" "d \<in> set cs" "b \<noteq> d"
    with Cons.prems(4) dist show "set (?Q b) \<inter> set (?Q d) = {}"
      unfolding queues_ok_def by (metis fun_upd_other list.set_intros(2))
  qed
  have "nodes_made M1 + length cs + 1 < 2 ^ 32" using Cons.prems(5) made1 by simp
  from Cons.IH [OF ok1 y(1) ch1 qs1 this] obtain H' M' Q' where
    loop: "Send_loop k (Some m) (c_next c') (?H, M1) = Some (H', M')" and ok': "mail_ok held M'"
    and ch': "chain c_next H' (c_next c') cs" and qs': "queues_ok H' M' cs Q'"
    and dn: "broadcast_done k m y cs ?H M1 ?Q H' M' Q'" by blast
  have out: "H' a = Some c'" "Q' a = as'" using dn dist by (auto simp: broadcast_done_def)
  have below: "n < nodes_made M" if "b \<in> set (a # cs)" "n \<in> set (Q b)" for b n
    using live_below [OF Cons.prems(1) live [OF that]] .
  have mk: "nodes_made M1 \<le> nodes_made M'" "nodes_made M' \<le> nodes_made M1 + length cs" "messages_made M' = messages_made M1"
    using dn by (auto simp: broadcast_done_def)
  have sameas: "nodes M' n = nodes M1 n" if "n \<in> set as'" for n
  proof -
    have "n \<notin> set (Q b)" if "b \<in> set cs" for b
      using sub1 \<open>n \<in> set as'\<close> disj [OF that] below [of b n] that by auto
    then have "\<forall>b\<in>set cs. n \<notin> set (?Q b)" using dist by auto
    with dn queue_ok_live [OF q1 that] show ?thesis by (simp add: broadcast_done_def)
  qed
  have subs: "set (Q' b) \<subseteq> set (Q b) \<union> {nodes_made M..<nodes_made M'}" if "b \<in> set (a # cs)" for b
  proof (cases "b = a")
    case True
    with out sub1 mk show ?thesis by auto
  next
    case False
    with that have "b \<in> set cs" by simp
    from broadcast_client(1) [OF dn this] False made1 show ?thesis by auto
  qed
  have "queues_ok H' M' (a # cs) Q'"
    unfolding queues_ok_def
  proof (intro conjI ballI impI)
    fix b assume "b \<in> set (a # cs)"
    moreover have "queue_ok (nodes M') c' as' = queue_ok (nodes M1) c' as'"
      by (rule queue_ok_nodes_cong) (rule sameas)
    ultimately show "\<exists>d. H' b = Some d \<and> queue_ok (nodes M') d (Q' b)"
      using qs' out q1 by (auto simp: queues_ok_def)
  next
    fix b d assume bd: "b \<in> set (a # cs)" "d \<in> set (a # cs)" "b \<noteq> d"
    have new: "set as' \<inter> set (Q' e) = {}" if e: "e \<in> set cs" for e
    proof -
      have "set (Q' e) \<subseteq> set (Q e) \<union> {nodes_made M1..<nodes_made M'}"
        using broadcast_client(1) [OF dn e] e dist by (simp split: if_splits)
      moreover have "n < nodes_made M1" if "n \<in> set as'" for n
        using sub1 that below [of a n] made1 by auto
      moreover have "set as' \<inter> set (Q e) = {}"
      proof -
        have "set (Q e) \<inter> {nodes_made M..<nodes_made M1} = {}" using below [of e] e by fastforce
        with sub1 disj [OF e] show ?thesis by blast
      qed
      ultimately show ?thesis by fastforce
    qed
    show "set (Q' b) \<inter> set (Q' d) = {}"
      using bd new qs' out unfolding queues_ok_def by (metis inf_commute set_ConsD)
  qed
  moreover have "broadcast_done k m x (a # cs) H M Q H' M' Q'"
    unfolding broadcast_done_def
  proof (intro conjI)
    show "\<forall>b\<in>set (a # cs). \<exists>d d'. H b = Some d \<and> H' b = Some d' \<and> sans_queue d' = sans_queue d \<and>
        offered k m x d (posted (nodes M) (Q b)) (posted (nodes M') (Q' b)) \<and>
        set (Q' b) \<subseteq> set (Q b) \<union> {nodes_made M..<nodes_made M'}"
    proof
      fix b assume b: "b \<in> set (a # cs)"
      show "\<exists>d d'. H b = Some d \<and> H' b = Some d' \<and> sans_queue d' = sans_queue d \<and>
        offered k m x d (posted (nodes M) (Q b)) (posted (nodes M') (Q' b)) \<and>
        set (Q' b) \<subseteq> set (Q b) \<union> {nodes_made M..<nodes_made M'}"
      proof (cases "b = a")
        case True
        have "posted (nodes M') as' = posted (nodes M1) as'"
          by (rule posted_cong) (use sameas queue_ok_live [OF q1] in auto)
        with True out c off sq subs [OF b] show ?thesis by auto
      next
        case False
        with b have bc: "b \<in> set cs" by simp
        have "b \<noteq> a" using False .
        with broadcast_client(2) [OF dn bc] obtain d d' where d: "H b = Some d" "H' b = Some d'" "sans_queue d' = sans_queue d"
          "offered k m y d (posted (nodes M1) (Q b)) (posted (nodes M') (Q' b))"
          by auto
        have "posted (nodes M1) (Q b) = posted (nodes M) (Q b)"
          by (rule posted_cong) (use same1 [OF bc] live [OF b] in auto)
        moreover have "takes d y = takes d x" using y by (intro takes_cong) auto
        ultimately show ?thesis using d subs [OF b] by (auto simp: offered_def)
      qed
    qed
    show "\<forall>b. b \<notin> set (a # cs) \<longrightarrow> H' b = H b \<and> Q' b = Q b"
      using dn by (auto simp: broadcast_done_def)
    show "\<exists>z. messages M' m = Some z \<and> raw z = raw x" using dn y by (auto simp: broadcast_done_def)
    show "\<forall>b. map_option raw (messages M' b) = map_option raw (messages M b)"
      using dn raws1 by (simp add: broadcast_done_def)
    show "\<forall>n. nodes M n \<noteq> None \<longrightarrow> (\<forall>b\<in>set (a # cs). n \<notin> set (Q b)) \<longrightarrow> nodes M' n = nodes M n"
    proof (intro allI impI)
      fix n assume n: "nodes M n \<noteq> None" "\<forall>b\<in>set (a # cs). n \<notin> set (Q b)"
      then have e: "nodes M1 n = nodes M n" using fr1 by simp
      moreover have "\<forall>b\<in>set cs. n \<notin> set (?Q b)" using n(2) dist by auto
      ultimately show "nodes M' n = nodes M n" using dn n(1) by (simp add: broadcast_done_def)
    qed
  qed (use made1 mk in auto)
  moreover have "Send_loop k (Some m) p (H, M) = Some (H', M')" using p c s loop by simp
  moreover have "chain c_next H' p (a # cs)" using p out ch' by simp
  ultimately show ?case using ok' by blast
qed

section \<open>The list of clients as a whole\<close>

lemma clients_okD:
  assumes "clients_ok held p H M cs Q"
  shows "mail_ok held M" and "chain c_next H p cs" and "queues_ok H M cs Q" and "distinct cs"
    and "a \<in> set cs \<Longrightarrow> \<exists>c. H a = Some c \<and> queue_ok (nodes M) c (Q a) \<and> exitState c = 0 \<and> subscribed c MessageClassCommon"
  using assms unfolding clients_ok_def queues_ok_def by (auto dest: chain_distinct)

lemma broadcast_ok:
  assumes k: "atomics_documented k" and ok: "clients_ok held p H M cs Q" and m: "messages M m = Some x"
    and room: "nodes_made M + length cs + 1 < 2 ^ 32"
  shows "\<exists>H' M' Q'. Send_loop k (Some m) p (H, M) = Some (H', M') \<and> clients_ok held p H' M' cs Q' \<and>
    broadcast_done k m x cs H M Q H' M' Q'"
proof -
  note D = clients_okD [OF ok]
  from Send_loop_ok [OF k D(1) m D(2,3) room] obtain H' M' Q' where
    s: "Send_loop k (Some m) p (H, M) = Some (H', M')" "mail_ok held M'" "chain c_next H' p cs"
      "queues_ok H' M' cs Q'" and b: "broadcast_done k m x cs H M Q H' M' Q'" by blast
  have "exitState c' = 0 \<and> subscribed c' MessageClassCommon" if "a \<in> set cs" "H' a = Some c'" for a c'
  proof -
    from broadcast_client(2) [OF b that(1)] that(2) obtain c where c: "H a = Some c" "sans_queue c' = sans_queue c"
      by auto
    with D(5) [OF that(1)] have "exitState c = 0" "subscribed c MessageClassCommon" by auto
    moreover have "exitState c' = exitState c" "registredMessageClases c' = registredMessageClases c"
      using c(2) by (metis sans_queue_fields(1), metis sans_queue_fields(2))
    ultimately show ?thesis by (simp add: subscribed_def)
  qed
  with s b show ?thesis by (auto simp: clients_ok_def)
qed

lemma clients_ok_mail:
  assumes "clients_ok held p H M cs Q" and "mail_ok held' M'" and "nodes M' = nodes M"
  shows "clients_ok held' p H M' cs Q"
  using assms by (simp add: clients_ok_def queues_ok_def)

text \<open>A new client joins at the front.\<close>

lemma clients_ok_join:
  assumes ok: "clients_ok held p H M cs Q" and n: "H n = None"
    and c: "\<And>N. queue_ok N c []" "exitState c = 0" "subscribed c MessageClassCommon"
  shows "clients_ok held (Some n) (H(n \<mapsto> c\<lparr>c_next := p\<rparr>)) M (n # cs) (Q(n := []))"
proof -
  have out: "n \<notin> set cs" using clients_okD(5) [OF ok, of n] n by auto
  have "queue_ok (nodes M) (c\<lparr>c_next := p\<rparr>) []" using c(1) [of "nodes M"] by (simp add: queue_ok_def)
  moreover have "subscribed (c\<lparr>c_next := p\<rparr>) MessageClassCommon" using c(3) by (simp add: subscribed_def)
  ultimately show ?thesis
    using ok out c(2) by (auto simp: clients_ok_def queues_ok_def)
qed

text \<open>A client leaves: it is unlinked, told to leave, and the list's reference to it is released.\<close>

lemma clients_ok_unlink:
  assumes ok: "clients_ok held p H M (us @ a # vs) Q" and ch: "chain c_next H' p' (us @ vs)"
    and same: "\<forall>b. map_option (\<lambda>x. x\<lparr>c_next := None\<rparr>) (H' b) = map_option (\<lambda>x. x\<lparr>c_next := None\<rparr>) (H b)"
  shows "clients_ok held p' H' M (us @ vs) Q"
proof -
  have cell: "\<exists>c. H' b = Some c \<and> queue_ok (nodes M) c (Q b) \<and> exitState c = 0 \<and> subscribed c MessageClassCommon"
    if b: "b \<in> set (us @ vs)" for b
  proof -
    from clients_okD(5) [OF ok, of b] b obtain c where c: "H b = Some c" "queue_ok (nodes M) c (Q b)" "exitState c = 0"
      "subscribed c MessageClassCommon" by auto
    with same [rule_format, of b] obtain d where d: "H' b = Some d" "d\<lparr>c_next := None\<rparr> = c\<lparr>c_next := None\<rparr>"
      by (cases "H' b") auto
    have "f d = f c" if "\<And>x. f (x\<lparr>c_next := None\<rparr>) = f x" for f :: "Client \<Rightarrow> bool"
      using d(2) that by metis
    from this [of "\<lambda>x. queue_ok (nodes M) x (Q b)"] this [of "\<lambda>x. exitState x = 0"]
      this [of "\<lambda>x. subscribed x MessageClassCommon"] c d
    show ?thesis by (auto simp: queue_ok_def subscribed_def)
  qed
  have disj: "set (Q b) \<inter> set (Q d) = {}" if "b \<in> set (us @ vs)" "d \<in> set (us @ vs)" "b \<noteq> d" for b d
    using clients_okD(3) [OF ok] that by (auto simp: queues_ok_def)
  show ?thesis
    unfolding clients_ok_def queues_ok_def
  proof (intro conjI ballI allI impI)
    show "mail_ok held M" using clients_okD(1) [OF ok] .
    show "chain c_next H' p' (us @ vs)" using ch .
    show "\<exists>c. H' b = Some c \<and> queue_ok (nodes M) c (Q b)" if "b \<in> set (us @ vs)" for b
      using cell [OF that] by blast
    show "exitState c = 0" "subscribed c MessageClassCommon" if "b \<in> set (us @ vs)" "H' b = Some c" for b c
      using cell [OF that(1)] that(2) by auto
  qed (rule disj)
qed

lemma clients_ok_cell:
  assumes "clients_ok held p H M cs Q" and "a \<notin> set cs"
  shows "clients_ok held p (H(a := y)) M cs Q"
proof -
  have "(H(a := y)) b = H b" if "b \<in> set cs" for b using assms(2) that by auto
  then show ?thesis using assms by (simp add: clients_ok_def queues_ok_def)
qed

lemma clients_ok_nodes:
  assumes ok: "clients_ok held p H M cs Q" and m: "mail_ok held M'"
    and same: "\<And>b n. b \<in> set cs \<Longrightarrow> n \<in> set (Q b) \<Longrightarrow> nodes M' n = nodes M n"
  shows "clients_ok held p H M' cs Q"
proof -
  have "queue_ok (nodes M') c (Q b) = queue_ok (nodes M) c (Q b)" if "b \<in> set cs" for b c
    using same [OF that] by (intro queue_ok_nodes_cong)
  then show ?thesis using ok m by (auto simp: clients_ok_def queues_ok_def)
qed

lemma clients_ok_release:
  assumes k: "atomics_documented k" and ok: "clients_ok held p H M cs Q" and a: "a \<notin> set cs" "H a = Some c"
    and q: "queue_ok (nodes M) c as" and apart: "\<forall>b\<in>set cs. set as \<inter> set (Q b) = {}"
  shows "\<exists>H' M'. release_client k a (H, M) = Some (H', M') \<and> clients_ok held p H' M' cs Q \<and>
    nodes_made M' = nodes_made M \<and> messages_made M' = messages_made M \<and>
    H' = H(a := (if references c = 1 then None else Some (c\<lparr>references := references c - 1\<rparr>))) \<and>
    (\<forall>b. messages M' b \<noteq> None \<longrightarrow> map_option raw (messages M' b) = map_option raw (messages M b))"
proof (cases "references c = 1")
  case False
  with release_client_more [of k H a c M] k a(2) clients_ok_cell [OF ok a(1)] show ?thesis by simp
next
  case True
  from release_client_last [where H = H and a = a, OF k a(2) True clients_okD(1) [OF ok] q] obtain M' where
    r: "release_client k a (H, M) = Some (H(a := None), M')" "mail_ok held M'"
      "\<forall>b. nodes M' b = (if b \<in> set as then None else nodes M b)"
      "nodes_made M' = nodes_made M" "messages_made M' = messages_made M"
      "\<forall>b. messages M' b \<noteq> None \<longrightarrow> map_option raw (messages M' b) = map_option raw (messages M b)" by blast
  have "clients_ok held p (H(a := None)) M' cs Q"
    by (rule clients_ok_nodes [OF clients_ok_cell [OF ok a(1)] r(2)]) (use r(3) apart in auto)
  with True r show ?thesis by auto
qed

end
