(* ===== verification/Rule.thy ===== *)
theory Rule
  imports RawMessages SimpleBase "HOL-Library.List_Lexorder" "HOL-Library.Product_Lexorder"
begin

text \<open>
  A firewall rule (class \<open>Rule\<close> of Kext/rule.h, Kext/rule.cpp): its construction from the client's
  raw \<open>AddRule\<close> message and the comparison that orders the rules of the firewall.

  The record has the fields the program reads or writes. A \<open>OSString\<close> is its characters; it is
  made by \<open>withCString\<close>, which copies up to the NUL. The sort key of a rule is a value of the type
  \<open>rule_key\<close>, an instance of \<open>linorder\<close>; \<open>Compare\<close> is the sign of that order.
\<close>

datatype RuleState = RuleStateActive | RuleStateInactive | RuleStateDeleted

primrec state_code :: "RuleState \<Rightarrow> u8" where
  "state_code RuleStateActive = 1"
| "state_code RuleStateInactive = 2"
| "state_code RuleStateDeleted = 3"

record Rule = SimpleBase +
  r_id :: u32
  r_processName :: "u8 list"
  r_filePath :: "u8 list"
  r_sockDomain :: u16
  r_sockType :: u16
  r_sockProtocol :: u16
  r_fromSockAddress :: "u8 list option"
  r_direction :: u8
  r_allow :: u8
  r_state :: u8
  r_prev :: ptr
  r_next :: ptr

section \<open>Construction from a message\<close>

text \<open>
  \<open>Rule::Init(message)\<close> for the \<open>n\<close>-th rule object: \<open>Some None\<close> when it returns false (no message,
  or one of the three allocations fails), \<open>None\<close> when an offset of the message leads outside the
  memory \<open>m\<close>. The links are those of a fresh object, NULL.
\<close>

definition from_address :: "kernel \<Rightarrow> nat \<Rightarrow> ptr \<Rightarrow> u8 list \<Rightarrow> u8 list option option" where
  "from_address k n t m =
     (case t of None \<Rightarrow> Some None
      | Some off \<Rightarrow> do {
          len \<leftarrow> rd_u8 m off;
          if grants k NewFromAddress n then map_option Some (peek off (unat len) m) else Some None
        })"

definition Rule_Init :: "kernel \<Rightarrow> abi \<Rightarrow> nat \<Rightarrow> u8 list option \<Rightarrow> Rule option option" where
  "Rule_Init k abi n message =
     (case message of None \<Rightarrow> Some None
      | Some m \<Rightarrow> do {
          processName \<leftarrow> GetProcessName abi m;
          if \<not> grants k NewProcessName n then Some None else do {
            filePath \<leftarrow> GetFilePath abi m;
            if \<not> grants k NewFilePath n then Some None else do {
              t \<leftarrow> GetFromSockAddress abi m;
              fromSockAddress \<leftarrow> from_address k n t m;
              if t \<noteq> None \<and> fromSockAddress = None then Some None else do {
                ident \<leftarrow> get_field abi RawMessageAddRule F_id m;
                sockDomain \<leftarrow> get_field abi RawMessageAddRule F_sockDomain m;
                sockType \<leftarrow> get_field abi RawMessageAddRule F_sockType m;
                sockProtocol \<leftarrow> get_field abi RawMessageAddRule F_sockProtocol m;
                direction \<leftarrow> get_field abi RawMessageAddRule F_direction m;
                allow \<leftarrow> get_field abi RawMessageAddRule F_allow m;
                state \<leftarrow> get_field abi RawMessageAddRule F_state m;
                Some (Some \<lparr>references = 1, r_id = of_nat ident,
                  r_processName = processName, r_filePath = filePath,
                  r_sockDomain = of_nat sockDomain, r_sockType = of_nat sockType,
                  r_sockProtocol = of_nat sockProtocol, r_fromSockAddress = fromSockAddress,
                  r_direction = of_nat direction, r_allow = of_nat allow, r_state = of_nat state,
                  r_prev = None, r_next = None\<rparr>)
              }
            }
          }
        })"

text \<open>What every rule made from a message satisfies.\<close>

definition fresh_rule :: "Rule \<Rightarrow> bool" where
  "fresh_rule r \<longleftrightarrow> references r = 1 \<and> cstr (r_processName r) \<and> cstr (r_filePath r) \<and>
     r_prev r = None \<and> r_next r = None"

lemma Rule_Init_fresh: "Rule_Init k abi n message = Some (Some r) \<Longrightarrow> fresh_rule r"
  by (auto simp: Rule_Init_def fresh_rule_def GetProcessName_def GetFilePath_def
      dest: cstring_at_cstr split: option.splits bind_splits if_splits)

lemma Rule_Init_grants:
  "Rule_Init k abi n message = Some (Some r) \<Longrightarrow>
   grants k NewProcessName n \<and> grants k NewFilePath n"
  by (auto simp: Rule_Init_def split: option.splits bind_splits if_splits)

section \<open>Comparison\<close>

text \<open>The standard \<open>strcmp\<close>: the difference of the first characters that differ, as unsigned.\<close>

fun strcmp :: "u8 list \<Rightarrow> u8 list \<Rightarrow> int" where
  "strcmp [] [] = 0"
| "strcmp [] (b # bs) = - uint b"
| "strcmp (a # as) [] = uint a"
| "strcmp (a # as) (b # bs) = (if a = b then strcmp as bs else uint a - uint b)"

definition Compare :: "Rule \<Rightarrow> Rule \<Rightarrow> int" where
  "Compare this toRule =
     (let result = strcmp (r_processName this) (r_processName toRule) in
      if result \<noteq> 0 then result else
      let result = strcmp (r_filePath this) (r_filePath toRule) in
      if result \<noteq> 0 then result else
      let result = uint (r_sockDomain this) - uint (r_sockDomain toRule) in
      if result \<noteq> 0 then result else
      let result = uint (r_sockType this) - uint (r_sockType toRule) in
      if result \<noteq> 0 then result else
      let result = uint (r_sockProtocol this) - uint (r_sockProtocol toRule) in
      if result \<noteq> 0 then result else
      let result = uint (r_direction this) - uint (r_direction toRule) in
      if result \<noteq> 0 then result else
      uint (r_allow this) - uint (r_allow toRule))"

text \<open>The key: names first, then the numeric fields, compared lexicographically.\<close>

datatype rule_key = RuleKey (key_names: "u8 list \<times> u8 list") (key_numbers: "u16 \<times> u16 \<times> u16 \<times> u8 \<times> u8")

instantiation rule_key :: linorder
begin

definition less_eq_rule_key :: "rule_key \<Rightarrow> rule_key \<Rightarrow> bool" where
  "less_eq_rule_key a b \<longleftrightarrow> (key_names a, key_numbers a) \<le> (key_names b, key_numbers b)"

definition less_rule_key :: "rule_key \<Rightarrow> rule_key \<Rightarrow> bool" where
  "less_rule_key a b \<longleftrightarrow> (key_names a, key_numbers a) < (key_names b, key_numbers b)"

instance
proof
  fix x y z :: rule_key
  show "x < y \<longleftrightarrow> x \<le> y \<and> \<not> y \<le> x"
    unfolding less_rule_key_def less_eq_rule_key_def by (rule less_le_not_le)
  show "x \<le> x" unfolding less_eq_rule_key_def by (rule order_refl)
  show "x \<le> z" if "x \<le> y" "y \<le> z"
    using that unfolding less_eq_rule_key_def by (rule order_trans)
  show "x = y" if "x \<le> y" "y \<le> x"
  proof -
    have "(key_names x, key_numbers x) = (key_names y, key_numbers y)"
      using that unfolding less_eq_rule_key_def by (rule order_antisym)
    then show ?thesis by (cases x; cases y) simp
  qed
  show "x \<le> y \<or> y \<le> x" unfolding less_eq_rule_key_def by (rule linear)
qed

end

definition rule_key :: "Rule \<Rightarrow> rule_key" where
  "rule_key r =
     RuleKey (r_processName r, r_filePath r)
       (r_sockDomain r, r_sockType r, r_sockProtocol r, r_direction r, r_allow r)"

definition names_ok :: "Rule \<Rightarrow> bool" where
  "names_ok r \<longleftrightarrow> cstr (r_processName r) \<and> cstr (r_filePath r)"

lemma fresh_rule_names: "fresh_rule r \<Longrightarrow> names_ok r"
  by (simp add: fresh_rule_def names_ok_def)

lemma uint_eq [simp]: "uint (a :: 'a::len word) = uint b \<longleftrightarrow> a = b"
  by (simp add: word_uint_eq_iff)

lemma uint_diff_pos [simp]: "uint (b :: 'a::len word) < uint a \<longleftrightarrow> b < a"
  by (simp add: word_less_def)

lemma uint_nonzero: "(b :: u8) \<noteq> 0 \<Longrightarrow> 0 < uint b"
  by (metis unsigned_eq_0_iff uint_ge_0 order_le_less)

lemma strcmp_eq: "cstr as \<Longrightarrow> cstr bs \<Longrightarrow> strcmp as bs = 0 \<longleftrightarrow> as = bs"
  by (induction as bs rule: strcmp.induct) (auto simp: cstr_def dest: uint_nonzero)

lemma strcmp_pos: "cstr as \<Longrightarrow> cstr bs \<Longrightarrow> 0 < strcmp as bs \<longleftrightarrow> bs < as"
  by (induction as bs rule: strcmp.induct) (auto simp: cstr_def uint_nonzero)

lemma lex_less: "(a :: 'a::linorder, b :: 'b::linorder) < (c, d) \<longleftrightarrow> a < c \<or> a = c \<and> b < d"
  by auto

lemma lex_step: "0 < (if d \<noteq> 0 then d else e) \<longleftrightarrow> 0 < d \<or> d = 0 \<and> 0 < (e :: int)"
  by auto

text \<open>\<open>Compare\<close> is the order of the keys: zero when they are equal, positive when its receiver's is greater.\<close>

lemma Compare_eq:
  assumes "names_ok x" "names_ok y"
  shows "Compare x y = 0 \<longleftrightarrow> rule_key x = rule_key y"
  using assms by (auto simp: Compare_def Let_def rule_key_def names_ok_def strcmp_eq)

lemma Compare_pos:
  assumes "names_ok x" "names_ok y"
  shows "0 < Compare x y \<longleftrightarrow> rule_key y < rule_key x"
proof -
  have "strcmp (r_processName x) (r_processName y) = 0 \<longleftrightarrow> r_processName y = r_processName x"
    "strcmp (r_filePath x) (r_filePath y) = 0 \<longleftrightarrow> r_filePath y = r_filePath x"
    "0 < strcmp (r_processName x) (r_processName y) \<longleftrightarrow> r_processName y < r_processName x"
    "0 < strcmp (r_filePath x) (r_filePath y) \<longleftrightarrow> r_filePath y < r_filePath x"
    using assms by (auto simp: names_ok_def strcmp_eq strcmp_pos)
  then show ?thesis
    unfolding Compare_def Let_def lex_step rule_key_def less_rule_key_def rule_key.sel lex_less
    by (simp only: diff_gt_0_iff_gt uint_diff_pos right_minus_eq uint_eq prod.inject) (simp only: eq_commute disj_assoc conj_assoc conj_disj_distribL)
qed

text \<open>The other side of a comparison: fields the comparison does not read.\<close>

lemma rule_key_links [simp]:
  "rule_key (r\<lparr>r_prev := p\<rparr>) = rule_key r" "rule_key (r\<lparr>r_next := p\<rparr>) = rule_key r"
  "rule_key (r\<lparr>references := c\<rparr>) = rule_key r" "rule_key (r\<lparr>r_state := s\<rparr>) = rule_key r"
  by (simp_all add: rule_key_def)

lemma names_ok_links [simp]:
  "names_ok (r\<lparr>r_prev := p\<rparr>) = names_ok r" "names_ok (r\<lparr>r_next := p\<rparr>) = names_ok r"
  "names_ok (r\<lparr>references := c\<rparr>) = names_ok r" "names_ok (r\<lparr>r_state := s\<rparr>) = names_ok r"
  by (simp_all add: names_ok_def)

end
