(* ===== verification/Rules.thy ===== *)
theory Rules
  imports Rule Chain
begin

text \<open>
  The rule base of the firewall (class \<open>Rules\<close> of Kext/rule.h, Kext/rule.cpp): a doubly linked
  chain of rules, sorted by decreasing key. Every operation runs under the lock of the object, so
  it is one atomic step; calling it before \<open>Init\<close> has made the lock is a fault.

  The abstract view of the chain is the list of its rules without links and counts; \<open>insert_rule\<close>,
  \<open>find\<close>, \<open>remove_rule\<close> and \<open>map_first\<close> on such lists say what \<open>AddRule\<close>, \<open>FindRule\<close>,
  \<open>DeleteRule\<close> and \<open>ActivateRule\<close> do to it.
\<close>

record Rules =
  root :: ptr
  lastChangedTime :: u64
  rules_lock :: bool
  rules_heap :: "Rule heap"
  rules_made :: nat \<comment> \<open>rule objects allocated so far; the next one gets this address\<close>
  clock_reads :: nat \<comment> \<open>calls of clock_get_uptime so far\<close>

definition locked :: "Rules \<Rightarrow> 'a option \<Rightarrow> 'a option" where
  "locked R body = (if rules_lock R then body else None)"

lemma locked_Some [simp]: "rules_lock R \<Longrightarrow> locked R body = body"
  by (simp add: locked_def)

text \<open>\<open>clock_get_uptime(&lastChangedTime)\<close>\<close>

definition touch :: "kernel \<Rightarrow> Rules \<Rightarrow> Rules" where
  "touch k R = R\<lparr>lastChangedTime := uptime k (clock_reads R), clock_reads := Suc (clock_reads R)\<rparr>"

definition Rules_Init :: "kernel \<Rightarrow> Rules \<Rightarrow> bool \<times> Rules" where
  "Rules_Init k R =
     (if grants k NewLock 0 then (True, R\<lparr>lastChangedTime := 0, rules_lock := True\<rparr>)
      else (False, R\<lparr>lastChangedTime := 0, rules_lock := False\<rparr>))"

definition RemoveFromChain :: "addr \<Rightarrow> Rules \<Rightarrow> Rules option" where
  "RemoveFromChain rule R = do {
     (root', h) \<leftarrow> unlink r_next r_next_update r_prev r_prev_update rule (root R, rules_heap R);
     h' \<leftarrow> modify (Some rule) (\<lambda>x. x\<lparr>r_prev := None, r_next := None\<rparr>) h;
     Some (R\<lparr>root := root', rules_heap := h'\<rparr>)
   }"

text \<open>\<open>while(root) RemoveFromChain(root)->Release();\<close> and the release of the lock.\<close>

partial_function (option) Free_loop :: "kernel \<Rightarrow> Rules \<Rightarrow> Rules option" where
  "Free_loop k R =
     (case root R of None \<Rightarrow> Some R
      | Some a \<Rightarrow> do {
          R1 \<leftarrow> RemoveFromChain a R;
          h \<leftarrow> release_at k (Some a) (rules_heap R1);
          Free_loop k (R1\<lparr>rules_heap := h\<rparr>)
        })"

definition Rules_Free :: "kernel \<Rightarrow> Rules \<Rightarrow> Rules option" where
  "Rules_Free k R =
     (if rules_lock R then map_option (\<lambda>R'. R'\<lparr>rules_lock := False\<rparr>) (Free_loop k R) else Some R)"

definition IsRulesChanged :: "Rules \<Rightarrow> u64 \<Rightarrow> bool" where
  "IsRulesChanged R fromTime \<longleftrightarrow> lastChangedTime R > fromTime"

section \<open>Lookup\<close>

text \<open>The nested conditions of \<open>FindRule\<close>; the socket address and the state are not looked at.\<close>

definition rule_matches :: "u8 list \<Rightarrow> u8 list \<Rightarrow> u16 \<Rightarrow> u16 \<Rightarrow> u16 \<Rightarrow> u8 \<Rightarrow> Rule \<Rightarrow> bool" where
  "rule_matches processName filePath sockDomain sockType sockProtocol direction current \<longleftrightarrow>
     (length (r_processName current) = 0 \<or> r_processName current = processName) \<and>
     (length (r_filePath current) = 0 \<or> r_filePath current = filePath) \<and>
     (r_sockDomain current = 0 \<or> r_sockDomain current = sockDomain) \<and>
     (r_sockType current = 0 \<or> r_sockType current = sockType) \<and>
     (r_sockProtocol current = 0 \<or> r_sockProtocol current = sockProtocol) \<and>
     r_direction current AND direction > 0"

definition FindRule ::
  "kernel \<Rightarrow> u8 list \<Rightarrow> u8 list \<Rightarrow> u16 \<Rightarrow> u16 \<Rightarrow> u16 \<Rightarrow> u8 \<Rightarrow> Rules \<Rightarrow> (ptr \<times> Rules) option" where
  "FindRule k processName filePath sockDomain sockType sockProtocol direction R = locked R (do {
     current \<leftarrow> search r_next (rule_matches processName filePath sockDomain sockType sockProtocol direction)
                 (rules_heap R) (root R);
     case current of None \<Rightarrow> Some (None, R)
     | Some a \<Rightarrow> do {
         h \<leftarrow> retain_at k (Some a) (rules_heap R);
         Some (Some a, R\<lparr>rules_heap := h\<rparr>)
       }
   })"

section \<open>Changes\<close>

text \<open>The loop of \<open>AddRule\<close>: where it ends for the new rule \<open>workRule\<close>.\<close>

datatype add_position = Exists addr | InsertBefore addr | AtEnd ptr

partial_function (option) AddRule_loop :: "Rule \<Rightarrow> Rule heap \<Rightarrow> ptr \<Rightarrow> ptr \<Rightarrow> add_position option" where
  "AddRule_loop workRule h prev current =
     (case current of None \<Rightarrow> Some (AtEnd prev)
      | Some c \<Rightarrow> Option.bind (h c) (\<lambda>x.
          let result = Compare workRule x in
          if result = 0 then Some (Exists c)
          else if result > 0 then Some (InsertBefore c)
          else AddRule_loop workRule h current (r_next x)))"

text \<open>The result is the returned \<open>int\<close>, the out parameter \<open>*rule\<close> and the new state.\<close>

definition AddRule ::
  "kernel \<Rightarrow> abi \<Rightarrow> u8 list option \<Rightarrow> Rules \<Rightarrow> (int \<times> ptr \<times> Rules) option" where
  "AddRule k abi messageRule R0 =
     (if \<not> grants k NewRule (rules_made R0) then Some (-1, None, R0)
      else do {
        let w = rules_made R0;
        let R = R0\<lparr>rules_made := Suc w\<rparr>;
        init \<leftarrow> Rule_Init k abi w messageRule;
        case init of None \<Rightarrow> Some (-1, None, R)
        | Some workRule \<Rightarrow> locked R (do {
            let h0 = (rules_heap R)(w \<mapsto> workRule);
            pos \<leftarrow> AddRule_loop workRule h0 None (root R);
            case pos of
              Exists c \<Rightarrow> do {
                h1 \<leftarrow> release_at k (Some w) h0;
                h2 \<leftarrow> retain_at k (Some c) h1;
                Some (1, Some c, R\<lparr>rules_heap := h2\<rparr>)
              }
            | InsertBefore c \<Rightarrow> do {
                (root', h1) \<leftarrow> link_before r_next_update r_prev r_prev_update w c (root R, h0);
                h2 \<leftarrow> retain_at k (Some w) h1;
                Some (0, Some w, touch k (R\<lparr>root := root', rules_heap := h2\<rparr>))
              }
            | AtEnd prev \<Rightarrow> do {
                (root', h1) \<leftarrow> link_last r_next_update w prev (root R, h0);
                h2 \<leftarrow> retain_at k (Some w) h1;
                Some (0, Some w, R\<lparr>root := root', rules_heap := h2\<rparr>)
              }
          })
      })"

definition DeleteRule :: "kernel \<Rightarrow> u32 \<Rightarrow> Rules \<Rightarrow> (int \<times> Rules) option" where
  "DeleteRule k ruleId R = locked R (do {
     workRule \<leftarrow> search r_next (\<lambda>x. r_id x = ruleId) (rules_heap R) (root R);
     case workRule of None \<Rightarrow> Some (-1, R)
     | Some a \<Rightarrow> do {
         h \<leftarrow> modify (Some a) (\<lambda>x. x\<lparr>r_state := state_code RuleStateDeleted\<rparr>) (rules_heap R);
         R1 \<leftarrow> RemoveFromChain a (R\<lparr>rules_heap := h\<rparr>);
         Some (0, touch k R1)
       }
   })"

definition ActivateRule :: "kernel \<Rightarrow> u32 \<Rightarrow> Rules \<Rightarrow> (int \<times> Rules) option" where
  "ActivateRule k ruleId R = locked R (do {
     workRule \<leftarrow> search r_next (\<lambda>x. r_id x = ruleId) (rules_heap R) (root R);
     case workRule of None \<Rightarrow> Some (-1, R)
     | Some a \<Rightarrow> do {
         x \<leftarrow> rules_heap R a;
         if r_state x = state_code RuleStateInactive
         then Some (0, touch k (R\<lparr>rules_heap := (rules_heap R)(a \<mapsto> x\<lparr>r_state := state_code RuleStateActive\<rparr>)\<rparr>))
         else Some (1, R)
       }
   })"

text \<open>The body of the source's \<open>DeactivateRule\<close> is that of \<open>ActivateRule\<close>.\<close>

definition DeactivateRule :: "kernel \<Rightarrow> u32 \<Rightarrow> Rules \<Rightarrow> (int \<times> Rules) option" where
  "DeactivateRule k ruleId R = locked R (do {
     workRule \<leftarrow> search r_next (\<lambda>x. r_id x = ruleId) (rules_heap R) (root R);
     case workRule of None \<Rightarrow> Some (-1, R)
     | Some a \<Rightarrow> do {
         x \<leftarrow> rules_heap R a;
         if r_state x = state_code RuleStateInactive
         then Some (0, touch k (R\<lparr>rules_heap := (rules_heap R)(a \<mapsto> x\<lparr>r_state := state_code RuleStateActive\<rparr>)\<rparr>))
         else Some (1, R)
       }
   })"

section \<open>The contract\<close>

text \<open>
  \<open>payload\<close> is what a rule says, without its place in the chain and its reference count; the
  operations on lists of payloads are the specification.
\<close>

definition payload :: "Rule \<Rightarrow> Rule" where
  "payload r = r\<lparr>references := 0, r_prev := None, r_next := None\<rparr>"

definition view :: "Rule heap \<Rightarrow> addr list \<Rightarrow> Rule list" where
  "view h as = map (\<lambda>a. payload (the (h a))) as"

fun insert_rule :: "Rule \<Rightarrow> Rule list \<Rightarrow> Rule list" where
  "insert_rule r [] = [r]"
| "insert_rule r (x # xs) =
     (if rule_key r = rule_key x then x # xs
      else if rule_key x < rule_key r then r # x # xs
      else x # insert_rule r xs)"

fun remove_rule :: "u32 \<Rightarrow> Rule list \<Rightarrow> Rule list" where
  "remove_rule i [] = []"
| "remove_rule i (x # xs) = (if r_id x = i then xs else x # remove_rule i xs)"

fun activate_rule :: "u32 \<Rightarrow> Rule list \<Rightarrow> Rule list" where
  "activate_rule i [] = []"
| "activate_rule i (x # xs) =
     (if r_id x = i
      then (if r_state x = state_code RuleStateInactive
            then x\<lparr>r_state := state_code RuleStateActive\<rparr> else x) # xs
      else x # activate_rule i xs)"

text \<open>The order of the chain: keys strictly decrease, so no two rules have the same key.\<close>

definition sorted_rules :: "Rule list \<Rightarrow> bool" where
  "sorted_rules rs \<longleftrightarrow> sorted_wrt (\<lambda>x y. rule_key y < rule_key x) rs"

text \<open>
  The invariant of the rule base. Back links are the predecessor or NULL; \<open>exact\<close> says that they
  are all exact, which is what unlinking and inserting need to keep every rule.
\<close>

definition rules_wf :: "Rules \<Rightarrow> addr list \<Rightarrow> bool" where
  "rules_wf R as \<longleftrightarrow>
     rules_lock R \<and>
     chain r_next (rules_heap R) (root R) as \<and>
     wbacks r_prev (rules_heap R) None as \<and>
     sorted_rules (view (rules_heap R) as) \<and>
     (\<forall>a x. rules_heap R a = Some x \<longrightarrow> names_ok x \<and> a < rules_made R)"

definition exact :: "Rules \<Rightarrow> addr list \<Rightarrow> bool" where
  "exact R as \<longleftrightarrow> backs r_prev (rules_heap R) None as"

section \<open>Views of heaps\<close>

interpretation rule_links: two_links r_next r_next_update r_prev "r_prev_update :: _ \<Rightarrow> Rule \<Rightarrow> Rule"
  by unfold_locales (auto simp: strip_def)

lemma payload_fields [simp]:
  "r_id (payload r) = r_id r" "r_state (payload r) = r_state r" "rule_key (payload r) = rule_key r"
  "r_processName (payload r) = r_processName r" "r_filePath (payload r) = r_filePath r"
  "r_direction (payload r) = r_direction r" "r_sockDomain (payload r) = r_sockDomain r"
  "r_sockType (payload r) = r_sockType r" "r_sockProtocol (payload r) = r_sockProtocol r"
  by (simp_all add: payload_def rule_key_def)

lemma payload_updates [simp]:
  "payload (r\<lparr>references := c\<rparr>) = payload r" "payload (r\<lparr>r_prev := p\<rparr>) = payload r"
  "payload (r\<lparr>r_next := p\<rparr>) = payload r"
  "payload (r\<lparr>r_state := s\<rparr>) = (payload r)\<lparr>r_state := s\<rparr>"
  "payload (payload r) = payload r"
  by (simp_all add: payload_def)

lemma payload_strip: "payload r = (strip r_next_update r_prev_update r)\<lparr>references := 0\<rparr>"
  by (simp add: payload_def strip_def)

lemma strip_payload:
  "map_option (strip r_next_update r_prev_update) x = map_option (strip r_next_update r_prev_update) y \<Longrightarrow>
   map_option payload x = map_option payload y"
  by (cases x; cases y) (simp_all add: payload_strip)

lemma view_Nil [simp]: "view h [] = []"
  and view_Cons [simp]: "view h (a # as) = payload (the (h a)) # view h as"
  and view_append [simp]: "view h (as @ bs) = view h as @ view h bs"
  and length_view [simp]: "length (view h as) = length as"
  by (simp_all add: view_def)

lemma in_view: "a \<in> set as \<Longrightarrow> h a = Some x \<Longrightarrow> payload x \<in> set (view h as)"
  by (force simp: view_def)

lemma view_cong:
  "(\<And>a. a \<in> set as \<Longrightarrow> map_option payload (h' a) = map_option payload (h a)) \<Longrightarrow> view h' as = view h as"
proof (induction as)
  case (Cons a as)
  have "map_option payload (h' a) = map_option payload (h a)" using Cons.prems by simp
  with Cons show ?case by (cases "h a"; cases "h' a") auto
qed simp

lemma view_upd [simp]: "a \<notin> set as \<Longrightarrow> view (h(a := y)) as = view h as"
  by (rule view_cong) auto

lemma view_upd_same: "h a = Some x \<Longrightarrow> payload y = payload x \<Longrightarrow> view (h(a \<mapsto> y)) as = view h as"
  by (rule view_cong) auto

lemma view_strip:
  "\<forall>b. map_option (strip r_next_update r_prev_update) (h' b) =
       map_option (strip r_next_update r_prev_update) (h b) \<Longrightarrow> view h' as = view h as"
  by (rule view_cong, rule strip_payload) blast

lemma names_strip:
  assumes "map_option (strip r_next_update r_prev_update) x = map_option (strip r_next_update r_prev_update) y"
    and "x = Some a"
  shows "\<exists>b. y = Some b \<and> payload b = payload a \<and> names_ok b = names_ok a \<and> references b = references a"
proof -
  from assms obtain b where b: "y = Some b"
    "strip r_next_update r_prev_update a = strip r_next_update r_prev_update b" by (cases y) auto
  have "names_ok b = names_ok (strip r_next_update r_prev_update b)"
    "references b = references (strip r_next_update r_prev_update b)"
    "names_ok a = names_ok (strip r_next_update r_prev_update a)"
    "references a = references (strip r_next_update r_prev_update a)"
    by (simp_all add: strip_def)
  with b show ?thesis by (simp add: payload_strip)
qed

lemma strip_references:
  assumes "map_option (strip r_next_update r_prev_update) x = map_option (strip r_next_update r_prev_update) y"
  shows "map_option references (x :: Rule option) = map_option references y"
proof (cases x)
  case None
  with assms show ?thesis by (cases y) simp_all
next
  case (Some a)
  from names_strip [OF assms Some] Some show ?thesis by auto
qed

section \<open>The list specification\<close>

lemma sorted_rules_append:
  "sorted_rules (xs @ ys) \<longleftrightarrow> sorted_rules xs \<and> sorted_rules ys \<and>
     (\<forall>x\<in>set xs. \<forall>y\<in>set ys. rule_key y < rule_key x)"
  by (auto simp: sorted_rules_def sorted_wrt_append)

lemma sorted_rules_Nil [simp]: "sorted_rules []"
  and sorted_rules_Cons [simp]:
    "sorted_rules (x # xs) \<longleftrightarrow> (\<forall>y\<in>set xs. rule_key y < rule_key x) \<and> sorted_rules xs"
  by (auto simp: sorted_rules_def)

lemma insert_rule_skip:
  "\<forall>x\<in>set us. rule_key r < rule_key x \<Longrightarrow> insert_rule r (us @ xs) = us @ insert_rule r xs"
  by (induction us) (auto dest: less_not_sym)

lemma insert_rule_set:
  "set (insert_rule r xs) = (if \<exists>x\<in>set xs. rule_key x = rule_key r then set (insert_rule r xs) else insert r (set xs))"
  by (induction xs) auto

lemma insert_rule_subset: "set (insert_rule r xs) \<subseteq> insert r (set xs)"
  by (induction xs) auto

lemma insert_rule_superset: "set xs \<subseteq> set (insert_rule r xs)"
  by (induction xs) auto

lemma insert_rule_sorted: "sorted_rules xs \<Longrightarrow> sorted_rules (insert_rule r xs)"
proof (induction xs)
  case (Cons x xs)
  then show ?case using insert_rule_subset [of r xs] by (auto simp: not_less_iff_gr_or_eq)
qed simp

lemma remove_rule_skip:
  "\<forall>x\<in>set us. r_id x \<noteq> i \<Longrightarrow> remove_rule i (us @ xs) = us @ remove_rule i xs"
  by (induction us) auto

lemma remove_rule_absent: "\<forall>x\<in>set xs. r_id x \<noteq> i \<Longrightarrow> remove_rule i xs = xs"
  by (induction xs) auto

lemma remove_rule_subset: "set (remove_rule i xs) \<subseteq> set xs"
  by (induction xs) auto

lemma remove_rule_sorted: "sorted_rules xs \<Longrightarrow> sorted_rules (remove_rule i xs)"
  by (induction xs) (auto dest: subsetD [OF remove_rule_subset])

lemma activate_rule_skip:
  "\<forall>x\<in>set us. r_id x \<noteq> i \<Longrightarrow> activate_rule i (us @ xs) = us @ activate_rule i xs"
  by (induction us) auto

lemma activate_rule_absent: "\<forall>x\<in>set xs. r_id x \<noteq> i \<Longrightarrow> activate_rule i xs = xs"
  by (induction xs) auto

lemma activate_rule_keys: "map rule_key (activate_rule i xs) = map rule_key xs"
  by (induction xs) auto

lemma sorted_rules_keys: "sorted_rules xs \<longleftrightarrow> sorted_wrt (\<lambda>a b. b < a) (map rule_key xs)"
  by (simp add: sorted_rules_def sorted_wrt_map)

lemma activate_rule_sorted: "sorted_rules xs \<Longrightarrow> sorted_rules (activate_rule i xs)"
  by (simp add: sorted_rules_keys activate_rule_keys)

section \<open>Lookup and activation\<close>

lemmas rules_wfD = rules_wf_def [THEN iffD1]

lemma rules_wf_cells: "rules_wf R as \<Longrightarrow> a \<in> set as \<Longrightarrow> \<exists>x. rules_heap R a = Some x \<and> names_ok x"
  by (auto simp: rules_wf_def dest: chain_allocated)

lemma rules_wf_distinct: "rules_wf R as \<Longrightarrow> distinct as"
  unfolding rules_wf_def using chain_distinct by blast

lemma rules_wf_touch [simp]: "rules_wf (touch k R) as = rules_wf R as"
  by (simp add: rules_wf_def touch_def)

lemma exact_touch [simp]: "exact (touch k R) as = exact R as"
  by (simp add: exact_def touch_def)

lemma touch_fields [simp]:
  "rules_heap (touch k R) = rules_heap R" "root (touch k R) = root R"
  "rules_made (touch k R) = rules_made R" "rules_lock (touch k R) = rules_lock R"
  "lastChangedTime (touch k R) = uptime k (clock_reads R)"
  by (simp_all add: touch_def)

text \<open>The search loops over the chain are \<open>find\<close> on the view.\<close>

lemma search_view:
  assumes "rules_wf R as" and "\<And>x. P (payload x) = P x"
  shows "\<exists>found. search r_next P (rules_heap R) (root R) = Some found \<and>
    (case found of
       None \<Rightarrow> \<forall>x\<in>set (view (rules_heap R) as). \<not> P x
     | Some a \<Rightarrow> \<exists>us vs x. as = us @ a # vs \<and> rules_heap R a = Some x \<and> P x \<and>
         (\<forall>y\<in>set (view (rules_heap R) us). \<not> P y))"
proof -
  have ch: "chain r_next (rules_heap R) (root R) as" using assms(1) by (simp add: rules_wf_def)
  have view: "\<forall>x\<in>set (view (rules_heap R) us). \<not> P x"
    if "set us \<subseteq> set as" "\<forall>b\<in>set us. \<not> holds_at (rules_heap R) P b" for us
    using that chain_allocated [OF ch] by (fastforce simp: view_def assms(2) holds_at_def)
  show ?thesis
  proof (cases "find (holds_at (rules_heap R) P) as")
    case None
    then have "\<forall>b\<in>set as. \<not> holds_at (rules_heap R) P b" by (simp add: find_None_iff)
    with None view [of as] show ?thesis by (simp add: search_chain [OF ch])
  next
    case (Some a)
    then obtain us vs x where "as = us @ a # vs" "rules_heap R a = Some x" "P x"
      "\<forall>b\<in>set us. \<not> holds_at (rules_heap R) P b"
      by (rule find_holds_at_SomeD)
    with Some view [of us] show ?thesis by (fastforce simp: search_chain [OF ch])
  qed
qed

text \<open>Changing a cell in place, links and key kept, keeps the invariant.\<close>

lemma rules_wf_update:
  assumes wf: "rules_wf R as" and a: "rules_heap R a = Some x"
    and y: "r_next y = r_next x" "r_prev y = r_prev x" "rule_key y = rule_key x" "names_ok y"
  shows "rules_wf (R\<lparr>rules_heap := (rules_heap R)(a \<mapsto> y)\<rparr>) as"
    and "exact (R\<lparr>rules_heap := (rules_heap R)(a \<mapsto> y)\<rparr>) as = exact R as"
proof -
  have "map rule_key (view ((rules_heap R)(a \<mapsto> y)) as) = map rule_key (view (rules_heap R) as)"
    using a y by (auto simp: view_def)
  then show "rules_wf (R\<lparr>rules_heap := (rules_heap R)(a \<mapsto> y)\<rparr>) as"
    using wf a y by (auto simp: rules_wf_def chain_upd_same wbacks_upd_same sorted_rules_keys)
  show "exact (R\<lparr>rules_heap := (rules_heap R)(a \<mapsto> y)\<rparr>) as = exact R as"
    using a y by (simp add: exact_def backs_upd_same)
qed

lemma find_skip: "\<forall>y\<in>set us. \<not> P y \<Longrightarrow> find P (us @ xs) = find P xs"
  by (induction us) auto

lemma rule_matches_payload: "rule_matches p f d t q i (payload x) = rule_matches p f d t q i x"
  by (simp add: rule_matches_def)

lemma FindRule_step:
  assumes k: "atomics_documented k" and wf: "rules_wf R as"
  shows "\<exists>found R'. FindRule k p f d t q i R = Some (found, R') \<and> rules_wf R' as \<and>
    exact R' as = exact R as \<and> view (rules_heap R') as = view (rules_heap R) as \<and>
    (case found of
       None \<Rightarrow> find (rule_matches p f d t q i) (view (rules_heap R) as) = None \<and> R' = R
     | Some a \<Rightarrow> \<exists>x. a \<in> set as \<and> rules_heap R a = Some x \<and>
         find (rule_matches p f d t q i) (view (rules_heap R) as) = Some (payload x) \<and>
         R' = R\<lparr>rules_heap := (rules_heap R)(a \<mapsto> x\<lparr>references := references x + 1\<rparr>)\<rparr>)"
proof -
  let ?P = "rule_matches p f d t q i"
  have lock: "rules_lock R" using wf by (simp add: rules_wf_def)
  obtain found where s: "search r_next ?P (rules_heap R) (root R) = Some found"
    and c: "case found of
       None \<Rightarrow> \<forall>x\<in>set (view (rules_heap R) as). \<not> ?P x
     | Some a \<Rightarrow> \<exists>us vs x. as = us @ a # vs \<and> rules_heap R a = Some x \<and> ?P x \<and>
         (\<forall>y\<in>set (view (rules_heap R) us). \<not> ?P y)"
    using search_view [OF wf, of ?P] rule_matches_payload by blast
  show ?thesis
  proof (cases found)
    case None
    then show ?thesis using s c wf lock by (simp add: FindRule_def find_None_iff)
  next
    case (Some a)
    with c obtain us vs x where x: "as = us @ a # vs" "rules_heap R a = Some x" "?P x"
      and us: "\<forall>y\<in>set (view (rules_heap R) us). \<not> ?P y" by auto
    let ?x = "x\<lparr>references := references x + 1\<rparr>"
    have "find ?P (view (rules_heap R) as) = Some (payload x)"
      using us x by (simp add: find_skip rule_matches_payload)
    moreover have "names_ok x" using wf x by (simp add: rules_wf_def)
    ultimately show ?thesis
      using s Some x lock k rules_wf_update [OF wf x(2), of ?x]
      by (auto simp: FindRule_def retain_at_Some view_upd_same)
  qed
qed

text \<open>The two activation operations, as the source has them.\<close>

lemma Deactivate_is_Activate: "DeactivateRule k i R = ActivateRule k i R"
  by (simp add: DeactivateRule_def ActivateRule_def)

definition activation_result :: "u32 \<Rightarrow> Rule list \<Rightarrow> int" where
  "activation_result i xs =
     (case find (\<lambda>x. r_id x = i) xs of None \<Rightarrow> -1
      | Some x \<Rightarrow> if r_state x = state_code RuleStateInactive then 0 else 1)"

lemma ActivateRule_step:
  assumes wf: "rules_wf R as"
  shows "\<exists>R'. ActivateRule k i R = Some (activation_result i (view (rules_heap R) as), R') \<and>
    rules_wf R' as \<and> exact R' as = exact R as \<and>
    view (rules_heap R') as = activate_rule i (view (rules_heap R) as) \<and>
    lastChangedTime R' = (if activation_result i (view (rules_heap R) as) = 0
      then uptime k (clock_reads R) else lastChangedTime R)"
proof -
  let ?P = "\<lambda>x. r_id x = i"
  have lock: "rules_lock R" using wf by (simp add: rules_wf_def)
  obtain found where s: "search r_next ?P (rules_heap R) (root R) = Some found"
    and c: "case found of
       None \<Rightarrow> \<forall>x\<in>set (view (rules_heap R) as). \<not> ?P x
     | Some a \<Rightarrow> \<exists>us vs x. as = us @ a # vs \<and> rules_heap R a = Some x \<and> ?P x \<and>
         (\<forall>y\<in>set (view (rules_heap R) us). \<not> ?P y)"
    using search_view [OF wf, of ?P] by auto
  show ?thesis
  proof (cases found)
    case None
    then show ?thesis using s c wf lock
      by (simp add: ActivateRule_def activation_result_def find_None_iff [THEN iffD2] activate_rule_absent)
  next
    case (Some a)
    with c obtain us vs x where x: "as = us @ a # vs" "rules_heap R a = Some x" "r_id x = i"
      and us: "\<forall>y\<in>set (view (rules_heap R) us). \<not> ?P y" by auto
    have res: "activation_result i (view (rules_heap R) as) =
        (if r_state x = state_code RuleStateInactive then 0 else 1)"
      using us x by (simp add: activation_result_def find_skip)
    have notin: "a \<notin> set us" "a \<notin> set vs"
      using wf x(1) by (auto simp: rules_wf_def dest!: chain_distinct)
    have act: "activate_rule i (view (rules_heap R) as) =
        view (rules_heap R) us @ (if r_state x = state_code RuleStateInactive
            then (payload x)\<lparr>r_state := state_code RuleStateActive\<rparr> else payload x) # view (rules_heap R) vs"
      using us x by (simp add: activate_rule_skip)
    let ?y = "x\<lparr>r_state := state_code RuleStateActive\<rparr>"
    have "names_ok x" using wf x by (simp add: rules_wf_def)
    then show ?thesis
      using s Some x lock rules_wf_update [OF wf x(2), of ?y] wf res act notin
      by (auto simp: ActivateRule_def)
  qed
qed

text \<open>The exact frame of both: which element is looked at and which fields are written.\<close>

lemma rule_matches_explicit:
  "rule_matches pn fp sd st sp dir x \<longleftrightarrow>
     (r_processName x = [] \<or> r_processName x = pn) \<and> (r_filePath x = [] \<or> r_filePath x = fp) \<and>
     (r_sockDomain x = 0 \<or> r_sockDomain x = sd) \<and> (r_sockType x = 0 \<or> r_sockType x = st) \<and>
     (r_sockProtocol x = 0 \<or> r_sockProtocol x = sp) \<and> r_direction x AND dir \<noteq> 0"
  by (simp add: rule_matches_def word_greater_zero_iff)

lemma FindRule_exact:
  assumes "atomics_documented k" and "rules_wf R as"
  shows "\<exists>found R'. FindRule k p f d t q i R = Some (found, R') \<and> rules_wf R' as \<and>
    (case found of
       None \<Rightarrow> (\<forall>x\<in>set (view (rules_heap R) as). \<not> rule_matches p f d t q i x) \<and> R' = R
     | Some a \<Rightarrow> \<exists>us vs x. as = us @ a # vs \<and> rules_heap R a = Some x \<and> rule_matches p f d t q i x \<and>
         (\<forall>y\<in>set (view (rules_heap R) us). \<not> rule_matches p f d t q i y) \<and>
         R' = R\<lparr>rules_heap := (rules_heap R)(a \<mapsto> x\<lparr>references := references x + 1\<rparr>)\<rparr>)"
proof -
  let ?P = "rule_matches p f d t q i"
  obtain found R' where r: "FindRule k p f d t q i R = Some (found, R')" "rules_wf R' as"
    and c: "case found of None \<Rightarrow> find ?P (view (rules_heap R) as) = None \<and> R' = R
     | Some a \<Rightarrow> \<exists>x. a \<in> set as \<and> rules_heap R a = Some x \<and> find ?P (view (rules_heap R) as) = Some (payload x) \<and>
         R' = R\<lparr>rules_heap := (rules_heap R)(a \<mapsto> x\<lparr>references := references x + 1\<rparr>)\<rparr>"
    using FindRule_step [OF assms, of p f d t q i] by blast
  have "search r_next ?P (rules_heap R) (root R) = Some found"
    using r(1) by (auto simp: FindRule_def locked_def bind_eq_Some_conv split: if_splits option.splits)
  with search_view [OF assms(2), of ?P] rule_matches_payload
  have "case found of None \<Rightarrow> \<forall>x\<in>set (view (rules_heap R) as). \<not> ?P x
     | Some a \<Rightarrow> \<exists>us vs x. as = us @ a # vs \<and> rules_heap R a = Some x \<and> ?P x \<and>
         (\<forall>y\<in>set (view (rules_heap R) us). \<not> ?P y)" by auto
  with r c show ?thesis by (intro exI [of _ found] exI [of _ R']) (auto split: option.splits)
qed

lemma ActivateRule_frame:
  assumes "rules_wf R as" and "ActivateRule k i R = Some (res, R')"
  shows "if res = 0 then \<exists>us a vs x. as = us @ a # vs \<and> rules_heap R a = Some x \<and> r_id x = i \<and>
      r_state x = state_code RuleStateInactive \<and> (\<forall>y\<in>set (view (rules_heap R) us). r_id y \<noteq> i) \<and>
      R' = R\<lparr>rules_heap := (rules_heap R)(a \<mapsto> x\<lparr>r_state := state_code RuleStateActive\<rparr>),
        lastChangedTime := uptime k (clock_reads R), clock_reads := Suc (clock_reads R)\<rparr>
    else R' = R"
proof -
  let ?P = "\<lambda>x. r_id x = i"
  obtain found where s: "search r_next ?P (rules_heap R) (root R) = Some found"
    and c: "case found of
       None \<Rightarrow> \<forall>x\<in>set (view (rules_heap R) as). \<not> ?P x
     | Some a \<Rightarrow> \<exists>us vs x. as = us @ a # vs \<and> rules_heap R a = Some x \<and> ?P x \<and>
         (\<forall>y\<in>set (view (rules_heap R) us). \<not> ?P y)"
    using search_view [OF assms(1), of ?P] by auto
  have "rules_lock R" using assms(1) by (simp add: rules_wf_def)
  note step = this s assms(2) [unfolded ActivateRule_def]
  show ?thesis
  proof (cases found)
    case None
    with step show ?thesis by auto
  next
    case (Some a)
    with c obtain us vs x where x: "as = us @ a # vs" "rules_heap R a = Some x" "r_id x = i"
      "\<forall>y\<in>set (view (rules_heap R) us). r_id y \<noteq> i" by auto
    show ?thesis
    proof (cases "r_state x = state_code RuleStateInactive")
      case True
      with step Some x have "res = 0" and
        "R' = touch k (R\<lparr>rules_heap := (rules_heap R)(a \<mapsto> x\<lparr>r_state := state_code RuleStateActive\<rparr>)\<rparr>)" by auto
      with True x show ?thesis by (auto simp: touch_def)
    qed (use step Some x in auto)
  qed
qed

section \<open>Insertion\<close>

lemma AddRule_loop_None [simp]: "AddRule_loop w h prev None = Some (AtEnd prev)"
  by (simp add: AddRule_loop.simps)

lemma AddRule_loop_Some [simp]:
  "h c = Some x \<Longrightarrow> AddRule_loop w h prev (Some c) =
     (if Compare w x = 0 then Some (Exists c) else if Compare w x > 0 then Some (InsertBefore c)
      else AddRule_loop w h (Some c) (r_next x))"
  by (simp add: AddRule_loop.simps [of w h prev "Some c"] Let_def)

text \<open>
  Where the loop ends on a chain: the rules it passes have greater keys; it stops at the first
  rule whose key is not greater.
\<close>

inductive lands :: "Rule \<Rightarrow> Rule heap \<Rightarrow> ptr \<Rightarrow> addr list \<Rightarrow> addr list \<Rightarrow> addr list \<Rightarrow> add_position \<Rightarrow> bool"
  for w h where
    lands_end: "lands w h prev us us [] (AtEnd (if us = [] then prev else Some (last us)))"
      if "\<forall>y\<in>set (view h us). rule_key w < rule_key y"
  | lands_exists: "lands w h prev (us @ c # vs) us (c # vs) (Exists c)"
      if "\<forall>y\<in>set (view h us). rule_key w < rule_key y" "h c = Some x" "rule_key w = rule_key x"
  | lands_before: "lands w h prev (us @ c # vs) us (c # vs) (InsertBefore c)"
      if "\<forall>y\<in>set (view h us). rule_key w < rule_key y" "h c = Some x" "rule_key x < rule_key w"

inductive_cases lands_endE: "lands w h prev as us vs (AtEnd p)"
inductive_cases lands_existsE: "lands w h prev as us vs (Exists c)"
inductive_cases lands_beforeE: "lands w h prev as us vs (InsertBefore c)"

lemma lands_Cons:
  assumes "lands w h (Some a) as us vs pos" and "h a = Some x" "rule_key w < rule_key x"
  shows "lands w h prev (a # as) (a # us) vs pos"
  using assms(1)
proof cases
  case lands_end
  have "lands w h prev (a # us) (a # us) [] (AtEnd (if a # us = [] then prev else Some (last (a # us))))"
    using lands_end assms by (intro lands.lands_end) simp
  with lands_end show ?thesis by (cases "us = []") simp_all
next
  case (lands_exists c x' bs)
  have "lands w h prev ((a # us) @ c # bs) (a # us) (c # bs) (Exists c)"
    using lands_exists assms by (intro lands.lands_exists) simp_all
  with lands_exists show ?thesis by simp
next
  case (lands_before c x' bs)
  have "lands w h prev ((a # us) @ c # bs) (a # us) (c # bs) (InsertBefore c)"
    using lands_before assms by (intro lands.lands_before [where x = x']) simp_all
  with lands_before show ?thesis by simp
qed

lemma AddRule_loop_chain:
  assumes "chain r_next h cur as" and "names_ok w" and "\<forall>a x. h a = Some x \<longrightarrow> names_ok x"
  shows "\<exists>pos us vs. AddRule_loop w h prev cur = Some pos \<and> lands w h prev as us vs pos"
  using assms(1)
proof (induction as arbitrary: prev cur)
  case Nil
  then show ?case using lands_end [of h "[]" w prev] by auto
next
  case (Cons a as)
  then obtain x where a: "cur = Some a" "h a = Some x" "chain r_next h (r_next x) as" by auto
  have names: "names_ok x" using assms(3) a by blast
  consider "rule_key w = rule_key x" | "rule_key x < rule_key w" | "rule_key w < rule_key x"
    by (metis linorder_less_linear)
  then show ?case
  proof cases
    case 1
    then show ?thesis using lands_exists [of h "[]" w a x prev as] a names assms(2)
      by (auto simp: Compare_eq)
  next
    case 2
    then show ?thesis using lands_before [of h "[]" w a x prev as] a names assms(2)
      by (auto simp: Compare_eq Compare_pos)
  next
    case 3
    then have "AddRule_loop w h prev cur = AddRule_loop w h (Some a) (r_next x)"
      using a names assms(2) by (auto simp: Compare_eq Compare_pos dest: less_not_sym)
    moreover obtain pos us vs where "AddRule_loop w h (Some a) (r_next x) = Some pos"
      and "lands w h (Some a) as us vs pos"
      using Cons.IH [OF a(3)] by blast
    moreover from this(2) have "lands w h prev (a # as) (a # us) vs pos"
      by (rule lands_Cons [where x = x]) (use a 3 in auto)
    ultimately show ?thesis by auto
  qed
qed

text \<open>A heap whose cells differ in links only keeps the names and the addresses.\<close>

lemma cells_strip:
  assumes "\<forall>b. map_option (strip r_next_update r_prev_update) (h' b) =
      map_option (strip r_next_update r_prev_update) (h b)"
    and "\<forall>a x. h a = Some x \<longrightarrow> names_ok x \<and> a < n"
  shows "\<forall>a x. h' a = Some x \<longrightarrow> names_ok x \<and> a < n"
proof (intro allI impI)
  fix a x assume "h' a = Some x"
  with assms(1) obtain y where "h a = Some y" "names_ok y = names_ok x"
    using names_strip by metis
  with assms(2) show "names_ok x \<and> a < n" by auto
qed

text \<open>The heap in which the new rule is linked, and where the loop ends in it.\<close>

abbreviation with_new :: "Rules \<Rightarrow> Rule \<Rightarrow> Rule heap" where
  "with_new R r \<equiv> (rules_heap R)(rules_made R \<mapsto> r)"

lemma new_address:
  assumes "rules_wf R as"
  shows "rules_made R \<notin> set as" "rules_heap R (rules_made R) = None"
  using assms by (auto simp: rules_wf_def dest!: chain_allocated)

lemma new_heap:
  assumes wf: "rules_wf R as" and r: "fresh_rule r"
  shows "chain r_next (with_new R r) (root R) as" "wbacks r_prev (with_new R r) None as" "view (with_new R r) as = view (rules_heap R) as"
  "\<forall>a x. (with_new R r) a = Some x \<longrightarrow> names_ok x \<and> a < Suc (rules_made R)" "sorted_rules (view (rules_heap R) as)"
  "exact R as = backs r_prev (with_new R r) None as" "rules_lock R"
  using wf new_address [OF wf] fresh_rule_names [OF r]
  by (auto simp: rules_wf_def exact_def less_Suc_eq)

lemma loop_lands:
  assumes wf: "rules_wf R as" and r: "fresh_rule r"
  shows "\<exists>pos us vs. AddRule_loop r (with_new R r) None (root R) = Some pos \<and> lands r (with_new R r) None as us vs pos"
  using new_heap [OF wf r] fresh_rule_names [OF r] by (intro AddRule_loop_chain) auto

lemma add_exists:
  assumes k: "atomics_documented k" and wf: "rules_wf R as" and r: "fresh_rule r"
    and ld: "lands r (with_new R r) None as us vs (Exists c)"
  shows "\<exists>x. c \<in> set as \<and> rules_heap R c = Some x \<and> rule_key x = rule_key r \<and>
    release_at k (Some (rules_made R)) (with_new R r) = Some (rules_heap R) \<and>
    retain_at k (Some c) (rules_heap R) = Some ((rules_heap R)(c \<mapsto> x\<lparr>references := references x + 1\<rparr>)) \<and>
    insert_rule (payload r) (view (rules_heap R) as) = view (rules_heap R) as"
proof -
  note na = new_address [OF wf]
  from ld obtain x bs where 1: "as = us @ c # bs" "with_new R r c = Some x" "rule_key r = rule_key x"
    "\<forall>y\<in>set (view (with_new R r) us). rule_key r < rule_key y"
    by (auto elim: lands_existsE)
  then have cw: "c \<noteq> rules_made R" using na by auto
  have "release_at k (Some (rules_made R)) (with_new R r) = Some (rules_heap R)"
    using k r na by (auto simp: release_at_Some fresh_rule_def)
  moreover have "view (with_new R r) us = view (rules_heap R) us" using 1 na by simp
  then have "insert_rule (payload r) (view (rules_heap R) as) = view (rules_heap R) as"
    using 1 cw by (simp add: insert_rule_skip)
  ultimately show ?thesis using 1 cw k by (auto simp: retain_at_Some)
qed

lemma add_before:
  assumes wf: "rules_wf R as" and r: "fresh_rule r" and ld: "lands r (with_new R r) None as us vs (InsertBefore c)"
  shows "\<exists>root' h1 as' y. link_before r_next_update r_prev r_prev_update (rules_made R) c (root R, with_new R r) = Some (root', h1) \<and>
    h1 (rules_made R) = Some y \<and> payload y = payload r \<and> references y = 1 \<and> rules_made R \<in> set as' \<and> set as' \<subseteq> insert (rules_made R) (set as) \<and>
    rules_wf (R\<lparr>rules_made := Suc (rules_made R), root := root', rules_heap := h1\<rparr>) as' \<and>
    (exact R as \<longrightarrow> exact (R\<lparr>rules_made := Suc (rules_made R), root := root', rules_heap := h1\<rparr>) as' \<and>
       view h1 as' = insert_rule (payload r) (view (rules_heap R) as)) \<and>
    (\<forall>x\<in>set (view (rules_heap R) as). rule_key x \<noteq> rule_key r) \<and>
    (\<forall>b. b \<noteq> rules_made R \<longrightarrow> map_option references (h1 b) = map_option references (rules_heap R b))"
proof -
  note na = new_address [OF wf] and nh = new_heap [OF wf r]
  from ld obtain x bs where x: "as = us @ c # bs" "with_new R r c = Some x" "rule_key x < rule_key r"
    and 1: "\<forall>y\<in>set (view (with_new R r) us). rule_key r < rule_key y"
    by (auto elim: lands_beforeE)
  have cw: "c \<noteq> rules_made R" "rules_made R \<notin> set us" "rules_made R \<notin> set bs" using x na by auto
  let ?as = "if r_prev x = None then rules_made R # c # bs else us @ rules_made R # c # bs"
  obtain root' h1 where l: "link_before r_next_update r_prev r_prev_update (rules_made R) c (root R, with_new R r) = Some (root', h1)"
    and ch: "chain r_next h1 root' ?as" and wb: "wbacks r_prev h1 None ?as"
    and bk: "backs r_prev (with_new R r) None (us @ c # bs) \<longrightarrow> backs r_prev h1 None (us @ rules_made R # c # bs)"
    and st: "\<forall>b. map_option (strip r_next_update r_prev_update) (h1 b) = map_option (strip r_next_update r_prev_update) ((with_new R r) b)"
    by (rule rule_links.link_before_weak [of "with_new R r" "root R" us c bs x "rules_made R" r])
      (use x nh cw na in auto)
  have v: "view h1 zs = view (with_new R r) zs" for zs using st by (rule view_strip)
  from st have "map_option (strip r_next_update r_prev_update) ((with_new R r) (rules_made R)) =
      map_option (strip r_next_update r_prev_update) (h1 (rules_made R))" by simp
  from names_strip [OF this, of r] obtain y where y: "h1 (rules_made R) = Some y" "payload y = payload r" "references y = references r"
    by auto
  have us: "\<forall>y\<in>set (view (rules_heap R) us). rule_key r < rule_key y" and
    vs: "\<forall>y\<in>set (view (rules_heap R) bs). rule_key y < rule_key x"
    using 1 nh(5) cw x by (auto simp: sorted_rules_append)
  have ins: "insert_rule (payload r) (view (rules_heap R) as) = view (with_new R r) (us @ rules_made R # c # bs)"
    using us x cw by (auto simp: insert_rule_skip)
  have sorted: "sorted_rules (view (with_new R r) (us @ rules_made R # c # bs))"
    unfolding ins [symmetric] by (rule insert_rule_sorted [OF nh(5)])
  then have sorted_tail: "sorted_rules (view (with_new R r) ?as)"
    by (simp only: view_append sorted_rules_append split: if_split) simp
  have "rules_wf (R\<lparr>rules_made := Suc (rules_made R), root := root', rules_heap := h1\<rparr>) ?as"
    using ch wb sorted_tail cells_strip [OF st nh(4)] nh(7) v [of ?as] by (auto simp: rules_wf_def)
  moreover have "exact R as \<longrightarrow> backs r_prev h1 None ?as \<and> view h1 ?as = insert_rule (payload r) (view (rules_heap R) as)"
  proof
    assume "exact R as"
    then have b: "backs r_prev (with_new R r) None (us @ c # bs)" using nh x by simp
    then have "?as = us @ rules_made R # c # bs" using x by (auto simp: backs_append split: if_splits)
    with bk b show "backs r_prev h1 None ?as \<and> view h1 ?as = insert_rule (payload r) (view (rules_heap R) as)"
      by (simp only: ins v)
  qed
  moreover have "\<forall>x\<in>set (view (rules_heap R) as). rule_key x \<noteq> rule_key r"
    using us vs x cw by (auto dest: less_trans)
  moreover have "map_option references (h1 b) = map_option references (rules_heap R b)" if "b \<noteq> rules_made R" for b
    using strip_references [OF st [rule_format, of b]] that by simp
  ultimately show ?thesis
    using l y r x by (intro exI [of _ root'] exI [of _ h1] exI [of _ ?as] exI [of _ y])
      (auto simp: fresh_rule_def exact_def)
qed

lemma add_at_end:
  assumes wf: "rules_wf R as" and r: "fresh_rule r" and ld: "lands r (with_new R r) None as us vs (AtEnd p)"
  shows "\<exists>root' h1. link_last r_next_update (rules_made R) p (root R, with_new R r) = Some (root', h1) \<and>
    h1 (rules_made R) = Some r \<and>
    rules_wf (R\<lparr>rules_made := Suc (rules_made R), root := root', rules_heap := h1\<rparr>) (as @ [rules_made R]) \<and>
    view h1 (as @ [rules_made R]) = insert_rule (payload r) (view (rules_heap R) as) \<and>
    (\<forall>x\<in>set (view (rules_heap R) as). rule_key r < rule_key x) \<and>
    (\<forall>b. b \<noteq> rules_made R \<longrightarrow> map_option references (h1 b) = map_option references (rules_heap R b))"
proof -
  note na = new_address [OF wf] and nh = new_heap [OF wf r]
  from ld have 1: "p = (if as = [] then None else Some (last as))"
    "\<forall>y\<in>set (view (with_new R r) as). rule_key r < rule_key y"
    by (auto elim: lands_endE)
  obtain root' h1 where l: "link_last r_next_update (rules_made R)
      (if as = [] then None else Some (last as)) (root R, with_new R r) = Some (root', h1)"
    and ch: "chain r_next h1 root' (as @ [rules_made R])" and wb: "wbacks r_prev h1 None (as @ [rules_made R])" and hw: "h1 (rules_made R) = Some r"
    and st: "\<forall>b. map_option (strip r_next_update r_prev_update) (h1 b) = map_option (strip r_next_update r_prev_update) ((with_new R r) b)"
    by (rule rule_links.link_last_weak [of "with_new R r" "root R" as "rules_made R" r])
      (use r nh na in \<open>auto simp: fresh_rule_def\<close>)
  have v: "view h1 bs = view (with_new R r) bs" for bs using st by (rule view_strip)
  have us: "\<forall>y\<in>set (view (rules_heap R) as). rule_key r < rule_key y"
    using 1 nh by simp
  have ins: "insert_rule (payload r) (view (rules_heap R) as) = view (with_new R r) (as @ [rules_made R])"
    using insert_rule_skip [of "view (rules_heap R) as" "payload r" "[]"] us nh by simp
  have "sorted_rules (view (with_new R r) (as @ [rules_made R]))"
    unfolding ins [symmetric] by (rule insert_rule_sorted [OF nh(5)])
  then have "rules_wf (R\<lparr>rules_made := Suc (rules_made R), root := root', rules_heap := h1\<rparr>) (as @ [rules_made R])"
    using ch wb cells_strip [OF st nh(4)] nh(7) v [of "as @ [rules_made R]"] by (auto simp: rules_wf_def)
  moreover have "map_option references (h1 b) = map_option references (rules_heap R b)" if "b \<noteq> rules_made R" for b
    using strip_references [OF st [rule_format, of b]] that by simp
  ultimately show ?thesis using 1 l hw ins v us by auto
qed

text \<open>Taking a reference of a rule on the chain.\<close>

lemma retain_cell:
  assumes k: "atomics_documented k" and wf: "rules_wf R as" and a: "rules_heap R a = Some x"
  shows "retain_at k (Some a) (rules_heap R) = Some ((rules_heap R)(a \<mapsto> x\<lparr>references := references x + 1\<rparr>))"
    and "rules_wf (R\<lparr>rules_heap := (rules_heap R)(a \<mapsto> x\<lparr>references := references x + 1\<rparr>)\<rparr>) as"
    and "exact (R\<lparr>rules_heap := (rules_heap R)(a \<mapsto> x\<lparr>references := references x + 1\<rparr>)\<rparr>) as = exact R as"
    and "view ((rules_heap R)(a \<mapsto> x\<lparr>references := references x + 1\<rparr>)) as = view (rules_heap R) as"
proof -
  have "names_ok x" using wf a by (simp add: rules_wf_def)
  then show "rules_wf (R\<lparr>rules_heap := (rules_heap R)(a \<mapsto> x\<lparr>references := references x + 1\<rparr>)\<rparr>) as"
    "exact (R\<lparr>rules_heap := (rules_heap R)(a \<mapsto> x\<lparr>references := references x + 1\<rparr>)\<rparr>) as = exact R as"
    using rules_wf_update [OF wf a, of "x\<lparr>references := references x + 1\<rparr>"] by auto
  show "retain_at k (Some a) (rules_heap R) = Some ((rules_heap R)(a \<mapsto> x\<lparr>references := references x + 1\<rparr>))"
    using k a by (simp add: retain_at_Some)
  show "view ((rules_heap R)(a \<mapsto> x\<lparr>references := references x + 1\<rparr>)) as = view (rules_heap R) as"
    using a by (simp add: view_upd_same)
qed

lemma rules_wf_made: "rules_wf R as \<Longrightarrow> rules_wf (R\<lparr>rules_made := Suc (rules_made R)\<rparr>) as"
  by (auto simp: rules_wf_def less_Suc_eq)

text \<open>
  The outcome of \<open>AddRule\<close> for a message that yields the rule \<open>r\<close>: the returned code, the rule
  handed out, the state after.
\<close>

definition added :: "Rule \<Rightarrow> Rules \<Rightarrow> addr list \<Rightarrow> int \<Rightarrow> addr \<Rightarrow> Rules \<Rightarrow> addr list \<Rightarrow> bool" where
  "added r R as res a R' as' \<longleftrightarrow>
     rules_wf R' as' \<and> a \<in> set as' \<and>
     res = (if \<exists>y\<in>set (view (rules_heap R) as). rule_key y = rule_key r then 1 else 0) \<and>
     (\<exists>x. rules_heap R' a = Some x \<and> rule_key x = rule_key r \<and>
        (res = 0 \<longrightarrow> payload x = payload r \<and> references x = 2)) \<and>
     (exact R as \<longrightarrow> view (rules_heap R') as' = insert_rule (payload r) (view (rules_heap R) as)) \<and>
     (exact R as \<longrightarrow> exact R' as' \<or> as \<noteq> [] \<and> as' = as @ [a] \<and> res = 0) \<and>
     (\<forall>b. b \<noteq> a \<longrightarrow> map_option references (rules_heap R' b) = map_option references (rules_heap R b)) \<and>
     (res = 1 \<longrightarrow> a \<in> set as \<and> as' = as \<and>
        map_option references (rules_heap R' a) = map_option (\<lambda>x. references x + 1) (rules_heap R a)) \<and>
     set as' \<subseteq> insert a (set as)"

lemma AddRule_step:
  assumes k: "atomics_documented k" and wf: "rules_wf R as" and g: "grants k NewRule (rules_made R)"
    and i: "Rule_Init k abi (rules_made R) message = Some (Some r)"
  shows "\<exists>res a R' as'. AddRule k abi message R = Some (res, Some a, R') \<and> added r R as res a R' as'"
proof -
  have r: "fresh_rule r" by (rule Rule_Init_fresh [OF i])
  have lock: "rules_lock R" using wf by (simp add: rules_wf_def)
  obtain pos us vs where loop: "AddRule_loop r (with_new R r) None (root R) = Some pos"
    and ld: "lands r (with_new R r) None as us vs pos" using loop_lands [OF wf r] by blast
  show ?thesis
  proof (cases pos)
    case (Exists c)
    with ld add_exists [OF k wf r] obtain x where x: "c \<in> set as" "rules_heap R c = Some x" "rule_key x = rule_key r"
      "release_at k (Some (rules_made R)) (with_new R r) = Some (rules_heap R)"
      "insert_rule (payload r) (view (rules_heap R) as) = view (rules_heap R) as" by blast
    let ?R = "R\<lparr>rules_made := Suc (rules_made R)\<rparr>"
    note rc = retain_cell [OF k rules_wf_made [OF wf], of c x, simplified, OF x(2)]
    have "payload x \<in> set (view (rules_heap R) as)" using x by (simp add: in_view)
    then have ex: "\<exists>y\<in>set (view (rules_heap R) as). rule_key y = rule_key r"
      by (rule rev_bexI) (simp add: x)
    let ?R' = "?R\<lparr>rules_heap := (rules_heap R)(c \<mapsto> x\<lparr>references := references x + 1\<rparr>)\<rparr>"
    have "AddRule k abi message R = Some (1, Some c, ?R')"
      using g i loop Exists lock x rc by (simp add: AddRule_def Let_def)
    moreover have "added r R as 1 c ?R' as"
      using rc x ex by (auto simp: added_def exact_def)
    ultimately show ?thesis by blast
  next
    case (InsertBefore c)
    with ld add_before [OF wf r] obtain root' h1 as' y where
      l: "link_before r_next_update r_prev r_prev_update (rules_made R) c (root R, with_new R r) = Some (root', h1)"
      and y: "h1 (rules_made R) = Some y" "payload y = payload r" "references y = 1" "rules_made R \<in> set as'"
      and wf1: "rules_wf (R\<lparr>rules_made := Suc (rules_made R), root := root', rules_heap := h1\<rparr>) as'"
      and ex1: "exact R as \<longrightarrow> exact (R\<lparr>rules_made := Suc (rules_made R), root := root', rules_heap := h1\<rparr>) as' \<and>
        view h1 as' = insert_rule (payload r) (view (rules_heap R) as)"
      and no: "\<forall>x\<in>set (view (rules_heap R) as). rule_key x \<noteq> rule_key r"
      and sub: "set as' \<subseteq> insert (rules_made R) (set as)"
      and rf: "\<forall>b. b \<noteq> rules_made R \<longrightarrow> map_option references (h1 b) = map_option references (rules_heap R b)" by blast
    let ?h = "h1(rules_made R \<mapsto> y\<lparr>references := references y + 1\<rparr>)"
    note rc = retain_cell [OF k wf1, simplified, OF y(1)]
    have key: "rule_key y = rule_key r" using y(2) by (metis payload_fields(3))
    let ?R' = "touch k (R\<lparr>rules_made := Suc (rules_made R), root := root', rules_heap := ?h\<rparr>)"
    have "AddRule k abi message R = Some (0, Some (rules_made R), ?R')"
      using g i loop InsertBefore lock l rc by (simp add: AddRule_def Let_def)
    moreover have "added r R as 0 (rules_made R) ?R' as'"
      using rc y ex1 no key sub rf by (auto simp: added_def)
    ultimately show ?thesis by blast
  next
    case (AtEnd p)
    with ld add_at_end [OF wf r] obtain root' h1 where
      l: "link_last r_next_update (rules_made R) p (root R, with_new R r) = Some (root', h1)"
      and y: "h1 (rules_made R) = Some r"
      and wf1: "rules_wf (R\<lparr>rules_made := Suc (rules_made R), root := root', rules_heap := h1\<rparr>) (as @ [rules_made R])"
      and v: "view h1 (as @ [rules_made R]) = insert_rule (payload r) (view (rules_heap R) as)"
      and no: "\<forall>x\<in>set (view (rules_heap R) as). rule_key r < rule_key x"
      and rf: "\<forall>b. b \<noteq> rules_made R \<longrightarrow> map_option references (h1 b) = map_option references (rules_heap R b)" by blast
    let ?h = "h1(rules_made R \<mapsto> r\<lparr>references := references r + 1\<rparr>)"
    note rc = retain_cell [OF k wf1, simplified, OF y]
    let ?R' = "R\<lparr>rules_made := Suc (rules_made R), root := root', rules_heap := ?h\<rparr>"
    have "AddRule k abi message R = Some (0, Some (rules_made R), ?R')"
      using g i loop AtEnd lock l rc by (simp add: AddRule_def Let_def)
    moreover have "as = [] \<longrightarrow> exact ?R' [rules_made R]" using r by (simp add: exact_def fresh_rule_def)
    then have "added r R as 0 (rules_made R) ?R' (as @ [rules_made R])"
      using rc v no r rf by (auto simp: added_def fresh_rule_def)
    ultimately show ?thesis by blast
  qed
qed

text \<open>The three ways \<open>AddRule\<close> reports \<open>-1\<close>; the rule base is as before.\<close>

lemma AddRule_fails:
  assumes "\<not> grants k NewRule (rules_made R) \<or> Rule_Init k abi (rules_made R) message = Some None"
  shows "\<exists>R'. AddRule k abi message R = Some (-1, None, R') \<and>
    (rules_wf R as \<longrightarrow> rules_wf R' as) \<and> root R' = root R \<and> rules_heap R' = rules_heap R"
  using assms by (auto simp: AddRule_def Let_def rules_wf_made)

section \<open>Removal\<close>

text \<open>
  \<open>RemoveFromChain\<close> on a rule of the chain: with exact back links just that rule goes; a rule
  whose back link is NULL although it is not the first takes all the rules before it along.
\<close>

lemma RemoveFromChain_step:
  assumes wf: "rules_wf R (us @ a # vs)" and a: "rules_heap R a = Some x"
  shows "\<exists>R'. RemoveFromChain a R = Some R' \<and>
    rules_wf R' (if r_prev x = None then vs else us @ vs) \<and>
    (exact R (us @ a # vs) \<longrightarrow> exact R' (us @ vs) \<and> (r_prev x = None \<longrightarrow> us = [])) \<and>
    (\<forall>bs. view (rules_heap R') bs = view (rules_heap R) bs) \<and>
    rules_heap R' a = Some (x\<lparr>r_prev := None, r_next := None\<rparr>) \<and>
    (\<forall>b. b \<notin> set (us @ a # vs) \<longrightarrow> rules_heap R' b = rules_heap R b) \<and>
    (\<forall>b. map_option references (rules_heap R' b) = map_option references (rules_heap R b)) \<and>
    rules_lock R' = rules_lock R \<and> rules_made R' = rules_made R \<and> clock_reads R' = clock_reads R"
proof -
  let ?as = "us @ a # vs" and ?bs = "if r_prev x = None then vs else us @ vs"
  have ch: "chain r_next (rules_heap R) (root R) ?as" and wb: "wbacks r_prev (rules_heap R) None ?as"
    using wf by (auto simp: rules_wf_def)
  have dist: "a \<notin> set us" "a \<notin> set vs" using chain_distinct [OF ch] by auto
  from ch wb a obtain root' h where
    u: "unlink r_next r_next_update r_prev r_prev_update a (root R, rules_heap R) = Some (root', h)"
    and ch': "chain r_next h root' ?bs" and wb': "wbacks r_prev h None ?bs" and ha: "h a = Some x"
    and fr: "\<forall>b. b \<notin> set (us @ vs) \<longrightarrow> h b = rules_heap R b"
    and st: "\<forall>b. map_option (strip r_next_update r_prev_update) (h b) =
        map_option (strip r_next_update r_prev_update) (rules_heap R b)"
    by (rule rule_links.unlink_weak)
  let ?h = "h(a \<mapsto> x\<lparr>r_prev := None, r_next := None\<rparr>)"
  let ?R = "R\<lparr>root := root', rules_heap := ?h\<rparr>"
  have step: "RemoveFromChain a R = Some ?R" using u ha by (simp add: RemoveFromChain_def)
  have v: "view h bs = view (rules_heap R) bs" for bs using st by (rule view_strip)
  moreover have "view ?h bs = view h bs" for bs using ha by (simp add: view_upd_same)
  ultimately have view: "view ?h bs = view (rules_heap R) bs" for bs by metis
  have "\<forall>b y. h b = Some y \<longrightarrow> names_ok y \<and> b < rules_made R"
    using wf by (intro cells_strip [OF st]) (simp add: rules_wf_def)
  then have cells: "\<forall>b y. ?h b = Some y \<longrightarrow> names_ok y \<and> b < rules_made R" using ha by auto
  have "sorted_rules (view ?h ?bs)"
    using wf by (simp add: view rules_wf_def sorted_rules_append)
  then have wf': "rules_wf ?R ?bs"
    using wf ch' wb' cells dist by (auto simp: rules_wf_def)
  have "map_option references (h b) = map_option references (rules_heap R b)" for b
  proof (cases "h b")
    case None
    with st [rule_format, of b] show ?thesis by simp
  next
    case (Some y)
    with names_strip [OF st [rule_format, of b] Some] show ?thesis by auto
  qed
  then have refs: "map_option references (?h b) = map_option references (rules_heap R b)" for b
    using ha a by simp
  have ex: "exact ?R (us @ vs) \<and> (r_prev x = None \<longrightarrow> us = [])" if e: "exact R ?as"
  proof -
    have bk: "backs r_prev (rules_heap R) None ?as" using e by (simp add: exact_def)
    from ch bk a obtain r2 h2 where
      "unlink r_next r_next_update r_prev r_prev_update a (root R, rules_heap R) = Some (r2, h2)"
      "backs r_prev h2 None (us @ vs)"
      by (rule rule_links.unlink_strict)
    then have "backs r_prev h None (us @ vs)" using u by simp
    moreover have "r_prev x = None \<longrightarrow> us = []" using bk a by (auto simp: backs_append split: if_splits)
    ultimately show ?thesis using dist by (simp add: exact_def)
  qed
  show ?thesis
  proof (intro exI [of _ ?R] conjI allI)
    show "b \<notin> set ?as \<longrightarrow> rules_heap ?R b = rules_heap R b" for b using fr by simp
  qed (use step wf' ex view refs in simp_all)
qed

lemma DeleteRule_step:
  assumes wf: "rules_wf R as"
  shows "\<exists>res R' as'. DeleteRule k i R = Some (res, R') \<and> rules_wf R' as' \<and>
    res = (if \<exists>x\<in>set (view (rules_heap R) as). r_id x = i then 0 else -1) \<and>
    set as' \<subseteq> set as \<and>
    (exact R as \<longrightarrow> exact R' as' \<and>
       view (rules_heap R') as' = remove_rule i (view (rules_heap R) as)) \<and>
    (res = -1 \<longrightarrow> R' = R \<and> as' = as) \<and>
    (res = 0 \<longrightarrow> lastChangedTime R' = uptime k (clock_reads R)) \<and>
    (\<forall>b. map_option references (rules_heap R' b) = map_option references (rules_heap R b))"
proof -
  let ?P = "\<lambda>x. r_id x = i"
  have lock: "rules_lock R" using wf by (simp add: rules_wf_def)
  obtain found where s: "search r_next ?P (rules_heap R) (root R) = Some found"
    and c: "case found of
       None \<Rightarrow> \<forall>x\<in>set (view (rules_heap R) as). \<not> ?P x
     | Some a \<Rightarrow> \<exists>us vs x. as = us @ a # vs \<and> rules_heap R a = Some x \<and> ?P x \<and>
         (\<forall>y\<in>set (view (rules_heap R) us). \<not> ?P y)"
    using search_view [OF wf, of ?P] by auto
  show ?thesis
  proof (cases found)
    case None
    then show ?thesis using s c wf lock
      by (intro exI [of _ "-1"] exI [of _ R] exI [of _ as]) (auto simp: DeleteRule_def remove_rule_absent)
  next
    case (Some a)
    with c obtain us vs x where x: "as = us @ a # vs" "rules_heap R a = Some x" "r_id x = i"
      and us: "\<forall>y\<in>set (view (rules_heap R) us). \<not> ?P y" by auto
    let ?x = "x\<lparr>r_state := state_code RuleStateDeleted\<rparr>"
    let ?R = "R\<lparr>rules_heap := (rules_heap R)(a \<mapsto> ?x)\<rparr>"
    have "names_ok x" using wf x by (simp add: rules_wf_def)
    then have wf1: "rules_wf ?R (us @ a # vs)" "exact ?R (us @ a # vs) = exact R as"
      using rules_wf_update [OF wf x(2), of ?x] x(1) by auto
    have notin: "a \<notin> set us" "a \<notin> set vs"
      using wf x(1) by (auto simp: rules_wf_def dest!: chain_distinct)
    obtain R1 where R1: "RemoveFromChain a ?R = Some R1"
      "rules_wf R1 (if r_prev ?x = None then vs else us @ vs)"
      "exact ?R (us @ a # vs) \<longrightarrow> exact R1 (us @ vs) \<and> (r_prev ?x = None \<longrightarrow> us = [])"
      "\<forall>bs. view (rules_heap R1) bs = view (rules_heap ?R) bs"
      "\<forall>b. map_option references (rules_heap R1 b) = map_option references (rules_heap ?R b)"
      "clock_reads R1 = clock_reads ?R"
      using RemoveFromChain_step [OF wf1(1), of ?x] by auto
    let ?as = "if r_prev x = None then vs else us @ vs"
    have "\<exists>y\<in>set (view (rules_heap R) as). r_id y = i"
      using x by (intro rev_bexI [OF in_view [of a as _ x]]) simp_all
    moreover have "remove_rule i (view (rules_heap R) as) = view (rules_heap R) (us @ vs)"
      using us x by (simp add: remove_rule_skip)
    moreover have "view (rules_heap R1) (us @ vs) = view (rules_heap R) (us @ vs)"
      using R1(4) notin by simp
    ultimately show ?thesis
      using s Some lock R1 wf1(2) x
      by (intro exI [of _ 0] exI [of _ "touch k R1"] exI [of _ ?as])
        (auto simp: DeleteRule_def modify_eq_Some)
  qed
qed

section \<open>Teardown\<close>

lemma Free_loop_None [simp]: "root R = None \<Longrightarrow> Free_loop k R = Some R"
  by (simp add: Free_loop.simps)

text \<open>The loop of \<open>Rules::Free\<close> ends with an empty chain and has released each rule once.\<close>

lemma Free_loop_chain:
  assumes "atomics_documented k" and "rules_wf R as"
  shows "\<exists>R'. Free_loop k R = Some R' \<and> rules_wf R' [] \<and>
    (\<forall>a\<in>set as. \<forall>x. rules_heap R a = Some x \<longrightarrow> references x = 1 \<longrightarrow> rules_heap R' a = None) \<and>
    (\<forall>b. b \<notin> set as \<longrightarrow> rules_heap R' b = rules_heap R b)"
  using assms(2)
proof (induction as arbitrary: R)
  case Nil
  then show ?case by (auto simp: rules_wf_def)
next
  case (Cons a as)
  from rules_wf_distinct [OF Cons.prems] have dist: "a \<notin> set as" by simp
  from Cons.prems obtain x where x: "root R = Some a" "rules_heap R a = Some x"
    by (auto simp: rules_wf_def)
  from RemoveFromChain_step [of R "[]" a as x, unfolded append_Nil if_cancel] Cons.prems x obtain R1 where
    R1: "RemoveFromChain a R = Some R1" "rules_wf R1 as"
      "rules_heap R1 a = Some (x\<lparr>r_prev := None, r_next := None\<rparr>)"
      "\<forall>b. b \<notin> set (a # as) \<longrightarrow> rules_heap R1 b = rules_heap R b"
      "\<forall>b. map_option references (rules_heap R1 b) = map_option references (rules_heap R b)"
    by auto
  let ?y = "if references x = 1 then None
    else Some (x\<lparr>r_prev := None, r_next := None, references := references x - 1\<rparr>)"
  let ?R2 = "R1\<lparr>rules_heap := (rules_heap R1)(a := ?y)\<rparr>"
  have rel: "release_at k (Some a) (rules_heap R1) = Some ((rules_heap R1)(a := ?y))"
    using assms(1) R1(3) by (simp add: release_at_Some)
  have "\<forall>b z. ((rules_heap R1)(a := ?y)) b = Some z \<longrightarrow> names_ok z \<and> b < rules_made R1"
  proof -
    from R1(2) have c: "\<forall>b z. rules_heap R1 b = Some z \<longrightarrow> names_ok z \<and> b < rules_made R1"
      by (simp add: rules_wf_def)
    from c [rule_format, OF R1(3)] have "names_ok x" "a < rules_made R1" by simp_all
    with c show ?thesis by simp
  qed
  then have wf2: "rules_wf ?R2 as"
    using R1(2) dist by (simp add: rules_wf_def)
  from Cons.IH [OF wf2] obtain R' where R': "Free_loop k ?R2 = Some R'" "rules_wf R' []"
    "\<forall>b\<in>set as. \<forall>z. rules_heap ?R2 b = Some z \<longrightarrow> references z = 1 \<longrightarrow> rules_heap R' b = None"
    "\<forall>b. b \<notin> set as \<longrightarrow> rules_heap R' b = rules_heap ?R2 b" by blast
  have "Free_loop k R = Some R'"
    using x R1(1) rel R'(1) by (simp add: Free_loop.simps [of k R])
  moreover have "rules_heap R' b = None"
    if "b \<in> set (a # as)" "rules_heap R b = Some z" "references z = 1" for b z
  proof (cases "b = a")
    case True
    then show ?thesis using R'(4) dist x that by simp
  next
    case False
    from R1(5) [rule_format, of b] that(2) obtain z' where "rules_heap R1 b = Some z'" "references z' = references z"
      by (cases "rules_heap R1 b") auto
    then show ?thesis using R'(3) that False by simp
  qed
  moreover have "rules_heap R' b = rules_heap R b" if "b \<notin> set (a # as)" for b
    using R'(4) R1(4) that by simp
  ultimately show ?case using R'(2) by blast
qed

lemma Rules_Free_step:
  assumes "atomics_documented k" and "rules_wf R as"
  shows "\<exists>R'. Rules_Free k R = Some R' \<and> root R' = None \<and> \<not> rules_lock R' \<and>
    (\<forall>a\<in>set as. \<forall>x. rules_heap R a = Some x \<longrightarrow> references x = 1 \<longrightarrow> rules_heap R' a = None)"
proof -
  from Free_loop_chain [OF assms] obtain R' where "Free_loop k R = Some R'" "rules_wf R' []"
    "\<forall>a\<in>set as. \<forall>x. rules_heap R a = Some x \<longrightarrow> references x = 1 \<longrightarrow> rules_heap R' a = None" by blast
  moreover have "rules_lock R" using assms(2) by (simp add: rules_wf_def)
  ultimately show ?thesis by (intro exI [of _ "R'\<lparr>rules_lock := False\<rparr>"]) (auto simp: Rules_Free_def rules_wf_def)
qed

text \<open>A rule base just initialised.\<close>

definition no_rules :: Rules where
  "no_rules = \<lparr>root = None, lastChangedTime = 0, rules_lock = False, rules_heap = Map.empty,
     rules_made = 0, clock_reads = 0\<rparr>"

lemma Rules_Init_wf:
  assumes "Rules_Init k R = (True, R')" and "root R = None" and "rules_heap R = Map.empty"
  shows "rules_wf R' [] \<and> exact R' []"
  using assms by (auto simp: Rules_Init_def rules_wf_def exact_def split: if_splits)

section \<open>Where the back link that \<open>AddRule\<close> leaves NULL matters\<close>

text \<open>
  A rule appended after others has no back link. Deleting it by its id takes it for the root:
  the rule base is empty afterwards.
\<close>

lemma append_then_delete:
  assumes k: "atomics_documented k" and wf: "rules_wf R as" and g: "grants k NewRule (rules_made R)"
    and i: "Rule_Init k abi (rules_made R) message = Some (Some r)"
    and last: "\<forall>x\<in>set (view (rules_heap R) as). rule_key r < rule_key x \<and> r_id x \<noteq> r_id r"
  shows "\<exists>R1 R2. AddRule k abi message R = Some (0, Some (rules_made R), R1) \<and> rules_wf R1 (as @ [rules_made R]) \<and>
    DeleteRule k (r_id r) R1 = Some (0, R2) \<and> root R2 = None"
proof -
  have r: "fresh_rule r" by (rule Rule_Init_fresh [OF i])
  have lock: "rules_lock R" using wf by (simp add: rules_wf_def)
  have na: "rules_made R \<notin> set as" using new_address [OF wf] by simp
  obtain pos us vs where loop: "AddRule_loop r (with_new R r) None (root R) = Some pos"
    and ld: "lands r (with_new R r) None as us vs pos" using loop_lands [OF wf r] by blast
  have no: "\<forall>x\<in>set as. \<forall>y. with_new R r x = Some y \<longrightarrow> rule_key r < rule_key y"
    using last in_view na by (metis fun_upd_other payload_fields(3))
  obtain p where p: "pos = AtEnd p"
    using ld no by (cases pos) (auto elim!: lands_existsE lands_beforeE dest: less_not_sym)
  with ld add_at_end [OF wf r] obtain root' h1 where
    l: "link_last r_next_update (rules_made R) p (root R, with_new R r) = Some (root', h1)"
    and y: "h1 (rules_made R) = Some r"
    and wf1: "rules_wf (R\<lparr>rules_made := Suc (rules_made R), root := root', rules_heap := h1\<rparr>) (as @ [rules_made R])"
    and v: "view h1 (as @ [rules_made R]) = insert_rule (payload r) (view (rules_heap R) as)"
    by blast
  let ?r = "r\<lparr>references := references r + 1\<rparr>"
  let ?h = "h1(rules_made R \<mapsto> ?r)"
  note rc = retain_cell [OF k wf1, simplified, OF y]
  let ?R1 = "R\<lparr>rules_made := Suc (rules_made R), root := root', rules_heap := ?h\<rparr>"
  let ?x = "?r\<lparr>r_state := state_code RuleStateDeleted\<rparr>"
  have add: "AddRule k abi message R = Some (0, Some (rules_made R), ?R1)"
    using g i loop p lock l rc by (simp add: AddRule_def Let_def)
  have v1: "view ?h as = view (rules_heap R) as"
  proof -
    have "view h1 (as @ [rules_made R]) = view (rules_heap R) as @ [payload r]"
      using v last insert_rule_skip [of "view (rules_heap R) as" "payload r" "[]"] by simp
    then show ?thesis using na by simp
  qed
  have ch1: "chain r_next ?h root' (as @ [rules_made R])" using rc(2) by (simp add: rules_wf_def)
  have "\<forall>b\<in>set as. \<not> holds_at ?h (\<lambda>x. r_id x = r_id r) b"
  proof
    fix b assume b: "b \<in> set as"
    with chain_allocated [OF ch1, of b] obtain z where z: "?h b = Some z" by auto
    from in_view [where h = ?h, OF b z] have "payload z \<in> set (view (rules_heap R) as)" by (simp only: v1)
    with last z show "\<not> holds_at ?h (\<lambda>x. r_id x = r_id r) b" by auto
  qed
  then have s: "search r_next (\<lambda>x. r_id x = r_id r) ?h root' = Some (Some (rules_made R))"
    by (simp add: search_chain [OF ch1] find_skip)
  let ?R2 = "?R1\<lparr>rules_heap := ?h(rules_made R \<mapsto> ?x)\<rparr>"
  have wf2: "rules_wf ?R2 (as @ rules_made R # [])"
    using rules_wf_update(1) [OF rc(2), of "rules_made R" ?r ?x] fresh_rule_names [OF r] by simp
  from RemoveFromChain_step [OF wf2, of ?x] obtain R2 where
    R2: "RemoveFromChain (rules_made R) ?R2 = Some R2" "rules_wf R2 []"
    using r by (auto simp: fresh_rule_def)
  have "DeleteRule k (r_id r) ?R1 = Some (0, touch k R2)"
    using s lock R2 by (simp add: DeleteRule_def)
  moreover have "root (touch k R2) = None" using R2 by (simp add: rules_wf_def)
  ultimately show ?thesis using add rc(2) by blast
qed

section \<open>Sequences of rule operations\<close>

text \<open>
  The operations of the class as one family, for kernels whose atomics behave as documented. \<open>readable\<close>: the message of an addition can be read (its
  offsets stay inside the memory); the memory may be short.
\<close>

datatype rule_op =
    OpFind "u8 list" "u8 list" u16 u16 u16 u8 | OpAdd "u8 list option" | OpDelete u32 | OpActivate u32 | OpDeactivate u32

primrec run_rule_op :: "kernel \<Rightarrow> abi \<Rightarrow> rule_op \<Rightarrow> Rules \<Rightarrow> Rules option" where
  "run_rule_op k abi (OpFind p f d t q i) R = map_option snd (FindRule k p f d t q i R)"
| "run_rule_op k abi (OpAdd m) R = map_option (\<lambda>(res, rule, R'). R') (AddRule k abi m R)"
| "run_rule_op k abi (OpDelete i) R = map_option snd (DeleteRule k i R)"
| "run_rule_op k abi (OpActivate i) R = map_option snd (ActivateRule k i R)"
| "run_rule_op k abi (OpDeactivate i) R = map_option snd (DeactivateRule k i R)"

definition readable :: "kernel \<Rightarrow> abi \<Rightarrow> u8 list option \<Rightarrow> bool" where
  "readable k abi m \<longleftrightarrow> (\<forall>n. Rule_Init k abi n m \<noteq> None)"

definition rule_op_ok :: "kernel \<Rightarrow> abi \<Rightarrow> rule_op \<Rightarrow> bool" where
  "rule_op_ok k abi x \<longleftrightarrow> atomics_documented k \<and> (case x of OpAdd m \<Rightarrow> readable k abi m | _ \<Rightarrow> True)"

lemma AddRule_total:
  assumes k: "atomics_documented k" and wf: "rules_wf R as" and m: "readable k abi m"
  shows "\<exists>res rule R' as'. AddRule k abi m R = Some (res, rule, R') \<and> rules_wf R' as'"
proof (cases "grants k NewRule (rules_made R) \<and> Rule_Init k abi (rules_made R) m \<noteq> Some None")
  case True
  moreover from m have "Rule_Init k abi (rules_made R) m \<noteq> None" by (simp add: readable_def)
  ultimately obtain r where "Rule_Init k abi (rules_made R) m = Some (Some r)" by auto
  from AddRule_step [OF k wf _ this] True show ?thesis by (auto simp: added_def)
next
  case False
  with AddRule_fails [of k R abi m as] wf show ?thesis by blast
qed

text \<open>What the operations do to the abstract list of rules; \<open>FindRule\<close> does not change it.\<close>

primrec rule_op_spec :: "rule_op \<Rightarrow> Rule list \<Rightarrow> Rule list" where
  "rule_op_spec (OpFind p f d t q i) xs = xs"
| "rule_op_spec (OpAdd m) xs = xs"
| "rule_op_spec (OpDelete i) xs = remove_rule i xs"
| "rule_op_spec (OpActivate i) xs = activate_rule i xs"
| "rule_op_spec (OpDeactivate i) xs = activate_rule i xs"

definition represents :: "Rules \<Rightarrow> Rule list \<Rightarrow> bool" where
  "represents R xs \<longleftrightarrow> (\<exists>as. rules_wf R as \<and> exact R as \<and> view (rules_heap R) as = xs)"

definition edit_op :: "kernel \<Rightarrow> rule_op \<Rightarrow> bool" where
  "edit_op k x \<longleftrightarrow> atomics_documented k \<and> (case x of OpAdd m \<Rightarrow> False | _ \<Rightarrow> True)"

definition rules_some_wf :: "nat \<Rightarrow> Rules \<Rightarrow> bool" where
  "rules_some_wf n R \<longleftrightarrow> (\<exists>as. rules_wf R as)"

lemma rule_op_total:
  assumes wf: "rules_some_wf (Suc n) R" and x: "rule_op_ok k abi x"
  shows "\<exists>R'. run_rule_op k abi x R = Some R' \<and> rules_some_wf n R'"
proof -
  from wf obtain as where as: "rules_wf R as" by (auto simp: rules_some_wf_def)
  from x have k: "atomics_documented k" by (simp add: rule_op_ok_def)
  show ?thesis
  proof (cases x)
    case (OpFind p f d t q i)
    with FindRule_step [OF k as, of p f d t q i] show ?thesis by (auto simp: rules_some_wf_def)
  next
    case (OpAdd m)
    with x AddRule_total [OF k as, of abi m] show ?thesis by (auto simp: rules_some_wf_def rule_op_ok_def)
  next
    case (OpDelete i)
    with DeleteRule_step [OF as, of k i] show ?thesis by (auto simp: rules_some_wf_def)
  next
    case (OpActivate i)
    with ActivateRule_step [OF as, of k i] show ?thesis by (auto simp: rules_some_wf_def)
  next
    case (OpDeactivate i)
    with ActivateRule_step [OF as, of k i] show ?thesis by (auto simp: rules_some_wf_def Deactivate_is_Activate)
  qed
qed

lemma edit_op_simulated:
  assumes r: "represents R xs" and x: "edit_op k x"
  shows "\<exists>R'. run_rule_op k abi x R = Some R' \<and> represents R' (rule_op_spec x xs)"
proof -
  from r obtain as where as: "rules_wf R as" "exact R as" "view (rules_heap R) as = xs" by (auto simp: represents_def)
  from x have k: "atomics_documented k" by (simp add: edit_op_def)
  show ?thesis
  proof (cases x)
    case (OpFind p f d t q i)
    with FindRule_step [OF k as(1), of p f d t q i] as show ?thesis by (fastforce simp: represents_def)
  next
    case (OpAdd m)
    with x show ?thesis by (simp add: edit_op_def)
  next
    case (OpDelete i)
    with DeleteRule_step [OF as(1), of k i] as show ?thesis by (fastforce simp: represents_def)
  next
    case (OpActivate i)
    with ActivateRule_step [OF as(1), of k i] as show ?thesis by (fastforce simp: represents_def)
  next
    case (OpDeactivate i)
    with ActivateRule_step [OF as(1), of k i] as show ?thesis by (fastforce simp: represents_def Deactivate_is_Activate)
  qed
qed

interpretation rule_ops: total_ops rules_some_wf "rule_op_ok k abi" "run_rule_op k abi" for k abi
  by unfold_locales (rule rule_op_total)

interpretation rule_edits: simulation represents "edit_op k" "run_rule_op k abi" rule_op_spec for k abi
  by unfold_locales (rule edit_op_simulated)

section \<open>Properties\<close>

text \<open>
  A small rule base for the concrete instances: the message of a rule for the process \<open>[c]\<close>, the rule
  made from it, and the rule base that holds the rule for \<open>b\<close> alone.
\<close>

definition demo_message :: "u8 \<Rightarrow> u8 list" where
  "demo_message c = [36, 0, 7, 0, 9, 0, 0, 0, of_nat (unat c), 0, 0, 0, 32, 0, 34, 0, 2, 0, 1, 0, 6, 0,
     0, 0, 0, 0, 1, 1, 0, 0, 0, 0, c, 0, 98, 0]"

definition demo_rule :: "u8 \<Rightarrow> Rule" where
  "demo_rule c = \<lparr>references = 1, r_id = of_nat (unat c), r_processName = [c], r_filePath = [98],
     r_sockDomain = 2, r_sockType = 1, r_sockProtocol = 6, r_fromSockAddress = None, r_direction = 1,
     r_allow = 1, r_state = 0, r_prev = None, r_next = None\<rparr>"

definition demo_rules :: Rules where
  "demo_rules = \<lparr>root = Some 0, lastChangedTime = 0, rules_lock = True,
     rules_heap = [0 \<mapsto> demo_rule 98], rules_made = 1, clock_reads = 0\<rparr>"

lemma demo_init:
  "Rule_Init plain_kernel X86_64 n (Some (demo_message 97)) = Some (Some (demo_rule 97))"
  "Rule_Init plain_kernel X86_64 n (Some (demo_message 99)) = Some (Some (demo_rule 99))"
  by code_simp+

lemma demo_rules_wf: "rules_wf demo_rules [0]" "exact demo_rules [0]" "rules_made demo_rules = 1"
  by (simp_all add: rules_wf_def exact_def demo_rules_def demo_rule_def sorted_rules_def view_def names_ok_def cstr_def)

lemma demo_view: "view (rules_heap demo_rules) [0] = [payload (demo_rule 98)]"
  by (simp add: view_def demo_rules_def)

text \<open>C1. Adding a rule refines insertion into a sorted list. Starting from a well-formed rule
  base whose back links are intact, \<open>AddRule\<close> with a readable message neither faults nor loops; the list it
  leaves is the old list with the rule inserted in front of the first smaller one (unchanged when a rule
  with the same key is there); it returns 1 exactly in that case and 0 otherwise, hands out a rule with the
  key of the message, and keeps the base well formed (no duplicate keys, descending order).\<close>

theorem AddRule_refines:
  assumes "atomics_documented k" and "rules_wf R as" and "exact R as" and "grants k NewRule (rules_made R)"
    and "Rule_Init k abi (rules_made R) message = Some (Some r)"
  shows "\<exists>res a R' as'. AddRule k abi message R = Some (res, Some a, R') \<and> rules_wf R' as' \<and>
    view (rules_heap R') as' = insert_rule (payload r) (view (rules_heap R) as) \<and>
    res = (if \<exists>y\<in>set (view (rules_heap R) as). rule_key y = rule_key r then 1 else 0) \<and>
    a \<in> set as' \<and> (\<exists>x. rules_heap R' a = Some x \<and> rule_key x = rule_key r)"
  using AddRule_step [OF assms(1,2,4,5)] assms(3) unfolding added_def by blast

lemma AddRule_refines_witness:
  "\<exists>res a R' as'. AddRule plain_kernel X86_64 (Some (demo_message 99)) demo_rules = Some (res, Some a, R') \<and>
    rules_wf R' as' \<and> view (rules_heap R') as' = [payload (demo_rule 99), payload (demo_rule 98)] \<and> res = 0"
proof -
  have k: "insert_rule (payload (demo_rule 99)) [payload (demo_rule 98)] = [payload (demo_rule 99), payload (demo_rule 98)]"
    "rule_key (payload (demo_rule 98)) \<noteq> rule_key (demo_rule 99)"
    by code_simp+
  show ?thesis
    using AddRule_refines [OF plain_kernel_documented demo_rules_wf(1,2) plain_kernel_grants demo_init(2)]
    unfolding demo_view k(1) using k(2) by fastforce
qed

text \<open>C8. Sequences of operations refine the list operations. From a rule base that
  represents a list of rules, any sequence of look-ups, deletions, activations and "deactivations"
  runs to its end without a fault, and the rule base it leaves represents the list after the
  corresponding sequence of list operations.\<close>

theorem rule_edits_refine:
  assumes "atomics_documented k" and "represents R xs" and "\<forall>x\<in>set ops. \<forall>m. x \<noteq> OpAdd m"
  shows "\<exists>R'. run_all (run_rule_op k abi) ops R = Some R' \<and> represents R' (fold rule_op_spec ops xs)"
proof -
  have "list_all (edit_op k) ops"
    using assms(1,3) by (auto simp: list_all_iff edit_op_def split: rule_op.splits)
  then show ?thesis using rule_edits.runs_simulated assms(2) by blast
qed

lemma rule_edits_refine_witness:
  "\<exists>R'. run_all (run_rule_op plain_kernel X86_64) [OpActivate 98, OpDelete 98] demo_rules = Some R' \<and> represents R' []"
proof -
  have r: "represents demo_rules [payload (demo_rule 98)]"
    using demo_rules_wf demo_view by (auto simp: represents_def)
  have e: "fold rule_op_spec [OpActivate 98, OpDelete 98] [payload (demo_rule 98)] = []" by code_simp
  show ?thesis using rule_edits_refine [OF plain_kernel_documented r, of "[OpActivate 98, OpDelete 98]"] e by simp
qed

text \<open>C7. No sequence of operations on the rule base, additions included, faults, loops or
  breaks the invariant, as long as the messages of the additions can be read: every run from a
  well-formed base ends in a well-formed base, whatever allocations are refused on the way.\<close>

theorem rule_ops_total:
  assumes "atomics_documented k" and "rules_wf R as"
    and "\<forall>m. OpAdd m \<in> set ops \<longrightarrow> readable k abi m"
  shows "\<exists>R' as'. run_all (run_rule_op k abi) ops R = Some R' \<and> rules_wf R' as'"
proof -
  have "list_all (rule_op_ok k abi) ops"
    using assms(1,3) by (auto simp: list_all_iff rule_op_ok_def split: rule_op.splits)
  moreover have "rules_some_wf (length ops) R" using assms(2) by (auto simp: rules_some_wf_def)
  ultimately show ?thesis using rule_ops.runs_total unfolding rules_some_wf_def by blast
qed

lemma rule_ops_total_witness:
  "\<exists>R' as'. run_all (run_rule_op plain_kernel X86_64) [OpAdd (Some (demo_message 97)), OpAdd None, OpDelete 97] demo_rules
     = Some R' \<and> rules_wf R' as'"
proof -
  have "readable plain_kernel X86_64 (Some (demo_message 97))" "readable plain_kernel X86_64 None"
    by (simp_all add: readable_def demo_init Rule_Init_def [of _ _ _ None])
  then show ?thesis
    using rule_ops_total [OF plain_kernel_documented demo_rules_wf(1),
      of "[OpAdd (Some (demo_message 97)), OpAdd None, OpDelete 97]" X86_64] by auto
qed

text \<open>C4. A look-up hands out the first rule of the base that matches the socket, with one
  more reference to it, or NULL when none does; nothing else of the base changes. A rule matches when its
  process name and its file path are empty or equal to those of the socket, its domain, type and protocol
  are each 0 or equal, and its direction has a bit in common with the one asked for. So a rule with
  direction 0 never matches (the comment in rule.h:44 says it stands for both), and neither the state nor
  the address of the rule is looked at.\<close>

theorem FindRule_first_match:
  assumes "atomics_documented k" and "rules_wf R as"
  shows "let M = (\<lambda>x. (r_processName x = [] \<or> r_processName x = pn) \<and> (r_filePath x = [] \<or> r_filePath x = fp) \<and>
      (r_sockDomain x = 0 \<or> r_sockDomain x = sd) \<and> (r_sockType x = 0 \<or> r_sockType x = st) \<and>
      (r_sockProtocol x = 0 \<or> r_sockProtocol x = sp) \<and> r_direction x AND dir \<noteq> 0) in
    \<exists>found R'. FindRule k pn fp sd st sp dir R = Some (found, R') \<and> rules_wf R' as \<and>
    (case found of
       None \<Rightarrow> (\<forall>x\<in>set (view (rules_heap R) as). \<not> M x) \<and> R' = R
     | Some a \<Rightarrow> \<exists>us vs x. as = us @ a # vs \<and> rules_heap R a = Some x \<and> M x \<and>
         (\<forall>y\<in>set (view (rules_heap R) us). \<not> M y) \<and>
         R' = R\<lparr>rules_heap := (rules_heap R)(a \<mapsto> x\<lparr>references := references x + 1\<rparr>)\<rparr>)"
  using FindRule_exact [OF assms, of pn fp sd st sp dir] unfolding rule_matches_explicit Let_def .

lemma FindRule_first_match_witness:
  "(\<exists>R'. FindRule plain_kernel [98] [98] 2 1 6 1 demo_rules = Some (Some 0, R') \<and>
     (\<exists>x. rules_heap R' 0 = Some x \<and> references x = 2)) \<and>
   FindRule plain_kernel [98] [98] 2 6 1 1 demo_rules = Some (None, demo_rules) \<and>
   FindRule plain_kernel [98] [98] 2 1 6 2 demo_rules = Some (None, demo_rules)"
proof -
  have r: "r_processName (demo_rule 98) = [98]" "r_filePath (demo_rule 98) = [98]" "r_sockDomain (demo_rule 98) = 2"
    "r_sockType (demo_rule 98) = 1" "r_sockProtocol (demo_rule 98) = 6" "r_direction (demo_rule 98) = 1"
    "rules_heap demo_rules = [0 \<mapsto> demo_rule 98]" "references (demo_rule 98) = 1"
    by (simp_all add: demo_rule_def demo_rules_def)
  note F = FindRule_first_match [OF plain_kernel_documented demo_rules_wf(1), of "[98]" "[98]" 2]
  show ?thesis
    using F [of 1 6 1] F [of 6 1 1] F [of 1 6 2]
    by (auto simp: demo_view r Cons_eq_append_conv split: option.splits if_splits)
qed

text \<open>C3. Deleting by id refines removal from the list: on a base whose back links are
  intact the first rule with the id is taken out and nothing else, the result is 0 if there was one and
  -1 (with the base untouched) otherwise, and a removal is stamped with the time. The removed rule keeps its
  reference: it is never freed.\<close>

theorem DeleteRule_refines:
  assumes "rules_wf R as" and "exact R as"
  shows "\<exists>res R' as'. DeleteRule k i R = Some (res, R') \<and> rules_wf R' as' \<and> exact R' as' \<and>
    view (rules_heap R') as' = remove_rule i (view (rules_heap R) as) \<and>
    res = (if \<exists>x\<in>set (view (rules_heap R) as). r_id x = i then 0 else -1) \<and>
    (res = -1 \<longrightarrow> R' = R) \<and> (res = 0 \<longrightarrow> lastChangedTime R' = uptime k (clock_reads R)) \<and>
    (\<forall>b. map_option references (rules_heap R' b) = map_option references (rules_heap R b))"
  using DeleteRule_step [OF assms(1), of k i] assms(2) by blast

lemma DeleteRule_refines_witness:
  "\<exists>R'. DeleteRule plain_kernel 98 demo_rules = Some (0, R') \<and> rules_wf R' [] \<and> lastChangedTime R' = 1"
proof -
  obtain res R' as' where r: "DeleteRule plain_kernel 98 demo_rules = Some (res, R')" "rules_wf R' as'"
    and v: "view (rules_heap R') as' = remove_rule 98 [payload (demo_rule 98)]"
    and c: "res = (if \<exists>x\<in>set [payload (demo_rule 98)]. r_id x = 98 then 0 else -1)"
    and t: "res = 0 \<longrightarrow> lastChangedTime R' = uptime plain_kernel (clock_reads demo_rules)"
    using DeleteRule_refines [OF demo_rules_wf(1,2), of plain_kernel 98] unfolding demo_view by blast
  have i: "r_id (demo_rule 98) = 98" by code_simp
  from v i have "as' = []" by (simp add: view_def)
  with r c t i show ?thesis by (simp add: demo_rules_def)
qed

text \<open>C9. \<open>ActivateRule\<close> looks at the first rule with the id. When that rule is inactive it
  makes it active, stamps the base with the time and returns 0; when it is not, it returns 1, and when there
  is no rule with the id, -1. In the last two cases the rule base is what it was; in the first nothing but
  the state of that one rule and the time of the last change is written: no reference, no link and no other
  rule. \<open>DeactivateRule\<close> does exactly the same: it never makes a rule inactive.\<close>

theorem Activate_Deactivate:
  assumes "rules_wf R as"
  shows "\<exists>res R'. ActivateRule k i R = Some (res, R') \<and> DeactivateRule k i R = Some (res, R') \<and>
    res = (case find (\<lambda>x. r_id x = i) (view (rules_heap R) as) of None \<Rightarrow> -1
           | Some x \<Rightarrow> if r_state x = state_code RuleStateInactive then 0 else 1) \<and>
    rules_wf R' as \<and> view (rules_heap R') as = activate_rule i (view (rules_heap R) as) \<and>
    (if res = 0 then \<exists>us a vs x. as = us @ a # vs \<and> rules_heap R a = Some x \<and> r_id x = i \<and>
        r_state x = state_code RuleStateInactive \<and> (\<forall>y\<in>set (view (rules_heap R) us). r_id y \<noteq> i) \<and>
        R' = R\<lparr>rules_heap := (rules_heap R)(a \<mapsto> x\<lparr>r_state := state_code RuleStateActive\<rparr>),
          lastChangedTime := uptime k (clock_reads R), clock_reads := Suc (clock_reads R)\<rparr>
     else R' = R)"
proof -
  obtain R' where R': "ActivateRule k i R = Some (activation_result i (view (rules_heap R) as), R')"
    "rules_wf R' as" "view (rules_heap R') as = activate_rule i (view (rules_heap R) as)"
    using ActivateRule_step [OF assms, of k i] by blast
  show ?thesis
    using R' ActivateRule_frame [OF assms R'(1)] unfolding Deactivate_is_Activate activation_result_def by blast
qed

lemma Activate_Deactivate_witness:
  "DeactivateRule plain_kernel 98 demo_rules = Some (1, demo_rules) \<and>
   DeactivateRule plain_kernel 99 demo_rules = Some (-1, demo_rules) \<and>
   (let R = demo_rules\<lparr>rules_heap := [0 \<mapsto> (demo_rule 98)\<lparr>r_state := 2\<rparr>]\<rparr> in
    \<exists>R'. DeactivateRule plain_kernel 98 R = Some (0, R') \<and> rules_heap R' = [0 \<mapsto> (demo_rule 98)\<lparr>r_state := 1\<rparr>])"
proof -
  let ?R = "demo_rules\<lparr>rules_heap := [0 \<mapsto> (demo_rule 98)\<lparr>r_state := 2\<rparr>]\<rparr>"
  have "rules_wf ?R [0]"
    by (simp add: rules_wf_def demo_rules_def demo_rule_def sorted_rules_def view_def names_ok_def cstr_def)
  note D = Activate_Deactivate [OF demo_rules_wf(1), of plain_kernel 98]
    Activate_Deactivate [OF demo_rules_wf(1), of plain_kernel 99] Activate_Deactivate [OF this, of plain_kernel 98]
  have "r_id (demo_rule 98) = 98" "r_state (demo_rule 98) = 0" by (simp_all add: demo_rule_def)
  then show ?thesis
    using D unfolding demo_view by (auto simp: view_def Cons_eq_append_conv Let_def)
qed

text \<open>C15. \<open>Free\<close> of a well-formed rule base returns: the loop that takes the root out until
  there is none ends, even where back links are missing; the base is empty and its lock gone, and every rule
  of the chain that had no other owner is freed.\<close>

theorem Rules_Free_terminates:
  assumes "atomics_documented k" and "rules_wf R as"
  shows "\<exists>R'. Rules_Free k R = Some R' \<and> root R' = None \<and> \<not> rules_lock R' \<and>
    (\<forall>a\<in>set as. \<forall>x. rules_heap R a = Some x \<longrightarrow> references x = 1 \<longrightarrow> rules_heap R' a = None)"
  using Rules_Free_step [OF assms] .

lemma Rules_Free_terminates_witness:
  "\<exists>R'. Rules_Free plain_kernel demo_rules = Some R' \<and> root R' = None \<and> rules_heap R' 0 = None"
  using Rules_Free_terminates [OF plain_kernel_documented demo_rules_wf(1)]
  by (auto simp: demo_rules_def demo_rule_def)

text \<open>C16. The missing back link of an appended rule. When the new rule is smaller than all
  the others it is appended; deleting it again by its id leaves an empty rule base, whatever rules there were
  before, because the unlinking takes a rule without a back link for the root.\<close>

theorem append_then_delete_empties:
  assumes "atomics_documented k" and "rules_wf R as" and "grants k NewRule (rules_made R)"
    and "Rule_Init k abi (rules_made R) message = Some (Some r)"
    and "\<forall>x\<in>set (view (rules_heap R) as). rule_key r < rule_key x \<and> r_id x \<noteq> r_id r"
  shows "\<exists>R1 R2. AddRule k abi message R = Some (0, Some (rules_made R), R1) \<and> rules_wf R1 (as @ [rules_made R]) \<and>
    DeleteRule k (r_id r) R1 = Some (0, R2) \<and> root R2 = None"
  using append_then_delete [OF assms] .

lemma append_then_delete_empties_witness:
  "\<exists>R1 R2. AddRule plain_kernel X86_64 (Some (demo_message 97)) demo_rules = Some (0, Some 1, R1) \<and>
    rules_wf R1 [0, 1] \<and> DeleteRule plain_kernel (r_id (demo_rule 97)) R1 = Some (0, R2) \<and> root R2 = None"
proof -
  have "rule_key (demo_rule 97) < rule_key (payload (demo_rule 98))"
    "r_id (payload (demo_rule 98)) \<noteq> r_id (demo_rule 97)"
    by code_simp+
  then have "\<forall>x\<in>set (view (rules_heap demo_rules) [0]). rule_key (demo_rule 97) < rule_key x \<and> r_id x \<noteq> r_id (demo_rule 97)"
    unfolding demo_view by simp
  from append_then_delete_empties [OF plain_kernel_documented demo_rules_wf(1) plain_kernel_grants demo_init(1) this]
  show ?thesis by (simp add: demo_rules_wf(3))
qed

text \<open>When the rule cannot be allocated or built from the message (no message, or no memory for
  a name or the address), \<open>AddRule\<close> returns -1 and no rule, and the rule base is as it was.\<close>

theorem AddRule_failure:
  assumes "\<not> grants k NewRule (rules_made R) \<or> Rule_Init k abi (rules_made R) message = Some None"
  shows "\<exists>R'. AddRule k abi message R = Some (-1, None, R') \<and>
    (rules_wf R as \<longrightarrow> rules_wf R' as) \<and> root R' = root R \<and> rules_heap R' = rules_heap R"
  using AddRule_fails [OF assms] .

lemma AddRule_failure_witness:
  "\<exists>R'. AddRule plain_kernel X86_64 None demo_rules = Some (-1, None, R') \<and> rules_wf R' [0]"
  using AddRule_failure [of plain_kernel demo_rules X86_64 None "[0]"] demo_rules_wf(1) by (auto simp: Rule_Init_def)

text \<open>C17. \<open>Compare\<close> decides the lexicographic order of the keys (process name, file path, domain,
  type, protocol, direction, allow): zero exactly for equal keys, positive exactly when the receiver's is
  greater, negative otherwise. Names are compared as unsigned bytes.\<close>

theorem Compare_is_key_order:
  assumes "names_ok x" and "names_ok y"
  shows "(Compare x y = 0 \<longleftrightarrow> rule_key x = rule_key y) \<and> (0 < Compare x y \<longleftrightarrow> rule_key y < rule_key x) \<and>
    (Compare x y < 0 \<longleftrightarrow> rule_key x < rule_key y)"
  using Compare_eq [OF assms] Compare_pos [OF assms] by (metis less_linear less_asym less_irrefl)

lemma Compare_is_key_order_witness: "0 < Compare (demo_rule 255) (demo_rule 97)"
  using Compare_is_key_order [of "demo_rule 255" "demo_rule 97"]
  by (simp add: names_ok_def cstr_def demo_rule_def rule_key_def less_rule_key_def)

end
