(* ===== verification/Application.thy ===== *)
theory Application
  imports SimpleBase Chain
begin

text \<open>
  The running applications (Kext/application.h, Kext/application.cpp): a doubly linked chain of
  objects shared with the sockets that belong to them. A socket filter asks for the application of
  the calling process (\<open>Get\<close>), the file-operation listener adds one at each \<open>exec\<close>
  (\<open>CallbackProcessListener\<close>), and a thread (\<open>CheckIsLiveRoutine\<close>) walks the chain and removes those
  whose process is gone.

  What the kernel says of the calling process and of the executed file is an argument.
\<close>

record Application = SimpleBase +
  pid :: u32
  p_pid :: u32
  uid :: u32
  gid :: u32
  processName :: "u8 list option"
  filePath :: "u8 list option"
  createTime :: u64
  modifyTime :: u64
  dataSize :: u64
  a_prev :: ptr
  a_next :: ptr

record Applications =
  app_head :: ptr
  app_lock :: lock_ptr
  lockRoutine :: lock_ptr
  app_closing :: s32
  countProcessesToCheck :: s32
  processListener :: bool
  app_heap :: "Application heap"
  apps_made :: nat

interpretation app_links: two_links a_next a_next_update a_prev "a_prev_update :: _ \<Rightarrow> Application \<Rightarrow> Application"
  by unfold_locales (auto simp: strip_def)

record caller =
  selfpid :: u32
  selfppid :: u32
  selfname :: "u8 list"
  kauth_uid :: u32
  kauth_gid :: u32

text \<open>
  \<open>vnode_getattr\<close>: its result (0 is success) and the attributes. \<open>va_data_size\<close> is what the field holds after the
  call, whether or not the file system supports it (\<open>VATTR_INIT\<close> does not clear it); the other two are \<open>None\<close> when
  they are not supported.
\<close>

record vattr =
  va_result :: u32
  va_data_size :: u64
  va_data_size_supported :: bool
  va_modify_time :: "u64 option"
  va_create_time :: "u64 option"

section \<open>Operations\<close>

definition with_string :: "kernel \<Rightarrow> alloc_site \<Rightarrow> nat \<Rightarrow> u8 list \<Rightarrow> u8 list option" where
  "with_string k site n s = (if grants k site n then Some s else None)"

text \<open>
  \<open>Add(cred, vnode, filePath)\<close>; the last argument is the identity and the attributes of the
  executed file when \<open>cred\<close> and \<open>vnode\<close> are given. As in the source, the attributes are used when
  \<open>vnode_getattr\<close> does not return 0.
\<close>

definition new_application :: "kernel \<Rightarrow> nat \<Rightarrow> caller \<Rightarrow> (u32 \<times> u32 \<times> u8 list \<times> vattr) option \<Rightarrow> Application" where
  "new_application k n who file =
     (let base = \<lparr>references = 0, pid = selfpid who, p_pid = selfppid who, uid = 0, gid = 0,
            processName = with_string k NewProcessName n (selfname who), filePath = None,
            createTime = 0, modifyTime = 0, dataSize = 0, a_prev = None, a_next = None\<rparr> in
      case file of
        Some (u, g, fpath, va) \<Rightarrow>
          let r = base\<lparr>filePath := with_string k NewFilePath n fpath, uid := u, gid := g\<rparr> in
          if va_result va \<noteq> 0 \<and> va_data_size va \<noteq> 0 then
            r\<lparr>dataSize := (if va_data_size_supported va then va_data_size va else dataSize r),
              modifyTime := (case va_modify_time va of Some t \<Rightarrow> t | None \<Rightarrow> modifyTime r),
              createTime := (case va_create_time va of Some t \<Rightarrow> t | None \<Rightarrow> createTime r)\<rparr>
          else r
      | None \<Rightarrow> base\<lparr>filePath := with_string k NewFilePath n [], uid := kauth_uid who, gid := kauth_gid who\<rparr>)"

definition Applications_Add ::
  "kernel \<Rightarrow> caller \<Rightarrow> (u32 \<times> u32 \<times> u8 list \<times> vattr) option \<Rightarrow> Applications \<Rightarrow> (ptr \<times> Applications) option" where
  "Applications_Add k who file A =
     (if app_closing A \<noteq> 0 then Some (None, A)
      else if \<not> grants k NewApplication (apps_made A) then Some (None, A)
      else do {
        let n = apps_made A;
        h \<leftarrow> retain_at k (Some n) ((app_heap A)(n \<mapsto> new_application k n who file));
        (head', h') \<leftarrow> push_front a_next a_next_update a_prev_update n (app_head A, h);
        Some (Some n, A\<lparr>app_head := head', app_heap := h', apps_made := Suc n,
          countProcessesToCheck := countProcessesToCheck A + 1\<rparr>)
      })"

definition app_locked :: "Applications \<Rightarrow> 'a option \<Rightarrow> 'a option" where
  "app_locked A body = (if app_lock A = Lock then body else None)"

lemma app_locked_Some [simp]: "app_lock A = Lock \<Longrightarrow> app_locked A body = body"
  by (simp add: app_locked_def)

definition Applications_Get :: "kernel \<Rightarrow> caller \<Rightarrow> Applications \<Rightarrow> (ptr \<times> Applications) option" where
  "Applications_Get k who A =
     (if app_closing A \<noteq> 0 then Some (None, A)
      else app_locked A (do {
        found \<leftarrow> search a_next (\<lambda>x. pid x = selfpid who) (app_heap A) (app_head A);
        case found of
          Some a \<Rightarrow> do {
            h \<leftarrow> retain_at k (Some a) (app_heap A);
            Some (Some a, A\<lparr>app_heap := h\<rparr>)
          }
        | None \<Rightarrow> do {
            (result, A1) \<leftarrow> Applications_Add k who None A;
            case result of None \<Rightarrow> Some (None, A1)
            | Some a \<Rightarrow> do {
                h \<leftarrow> retain_at k (Some a) (app_heap A1);
                Some (Some a, A1\<lparr>app_heap := h\<rparr>)
              }
          }
      }))"

text \<open>\<open>AddLocked\<close> and the listener: it never decides, it only records an \<open>exec\<close>.\<close>

definition AddLocked ::
  "kernel \<Rightarrow> caller \<Rightarrow> (u32 \<times> u32 \<times> u8 list \<times> vattr) option \<Rightarrow> Applications \<Rightarrow> Applications option" where
  "AddLocked k who file A = app_locked A (map_option snd (Applications_Add k who file A))"

definition CallbackProcessListener ::
  "kernel \<Rightarrow> caller \<Rightarrow> bool \<Rightarrow> (u32 \<times> u32 \<times> u8 list \<times> vattr) option \<Rightarrow> Applications \<Rightarrow> Applications option" where
  "CallbackProcessListener k who isExec file A = (if isExec then AddLocked k who file A else Some A)"

definition Applications_Remove :: "addr \<Rightarrow> Applications \<Rightarrow> Applications option" where
  "Applications_Remove a A = do {
     (head', h) \<leftarrow> unlink a_next a_next_update a_prev a_prev_update a (app_head A, app_heap A);
     Some (A\<lparr>app_head := head', app_heap := h\<rparr>)
   }"

text \<open>
  One turn of the loop of \<open>CheckIsLiveRoutine\<close> under the lock; \<open>checked\<close> is its cursor, held by a
  reference between two turns, and \<open>alive\<close> what \<open>proc_find\<close> answers.
\<close>

definition check_turn :: "kernel \<Rightarrow> (u32 \<Rightarrow> bool) \<Rightarrow> ptr \<Rightarrow> Applications \<Rightarrow> (ptr \<times> Applications) option" where
  "check_turn k alive checked A = app_locked A (do {
     (checked1, A1) \<leftarrow>
       (case checked of
          None \<Rightarrow> Some (app_head A, A)
        | Some a \<Rightarrow> do {
            x \<leftarrow> app_heap A a;
            h \<leftarrow> release_at k (Some a) (app_heap A);
            Some (a_next x, A\<lparr>app_heap := h\<rparr>)
          });
     let A2 = (if 0 <s countProcessesToCheck A1
               then A1\<lparr>countProcessesToCheck := countProcessesToCheck A1 - 1\<rparr> else A1);
     case checked1 of
       None \<Rightarrow> Some (None, A2)
     | Some c \<Rightarrow> do {
         x \<leftarrow> app_heap A2 c;
         if alive (pid x) then do {
           h \<leftarrow> retain_at k (Some c) (app_heap A2);
           Some (Some c, A2\<lparr>app_heap := h\<rparr>)
         } else do {
           A3 \<leftarrow> Applications_Remove c A2;
           h \<leftarrow> release_at k (Some c) (app_heap A3);
           Some (None, A3\<lparr>app_heap := h, countProcessesToCheck := countProcessesToCheck A3 + 1\<rparr>)
         }
       }
   })"

text \<open>\<open>while(head) Remove(head)->Release();\<close>\<close>

partial_function (option) app_free_loop :: "kernel \<Rightarrow> Applications \<Rightarrow> Applications option" where
  "app_free_loop k A =
     (case app_head A of None \<Rightarrow> Some A
      | Some a \<Rightarrow> do {
          A1 \<leftarrow> Applications_Remove a A;
          h \<leftarrow> release_at k (Some a) (app_heap A1);
          app_free_loop k (A1\<lparr>app_heap := h\<rparr>)
        })"

definition Applications_Init :: "kernel \<Rightarrow> nat \<Rightarrow> bool \<Rightarrow> bool \<Rightarrow> Applications \<Rightarrow> bool \<times> Applications" where
  "Applications_Init k n threadStarts listens A =
     (let A = A\<lparr>app_closing := 0\<rparr> in
      if grants k NewLock n then
        let A = A\<lparr>app_lock := Lock\<rparr> in
        if grants k NewLock (n + 1) then
          let A = A\<lparr>lockRoutine := Lock\<rparr> in
          if threadStarts then
            if listens then (True, A\<lparr>processListener := True\<rparr>)
            else (False, A\<lparr>app_closing := snd (OSIncrementAtomic k (app_closing A)), app_lock := FreedLock, lockRoutine := FreedLock\<rparr>)
          else (False, A\<lparr>app_lock := FreedLock, lockRoutine := FreedLock\<rparr>)
        else (False, A\<lparr>app_lock := FreedLock\<rparr>)
      else (False, A))"

definition Applications_Free :: "kernel \<Rightarrow> Applications \<Rightarrow> Applications option" where
  "Applications_Free k A =
     (let A = A\<lparr>app_closing := snd (OSIncrementAtomic k (app_closing A)), processListener := False\<rparr> in
      if app_lock A = NoLock then Some A
      else if lockRoutine A = FreedLock \<or> app_lock A = FreedLock then None
      else map_option (\<lambda>A'. A'\<lparr>app_lock := NoLock\<rparr>) (app_free_loop k (A\<lparr>lockRoutine := NoLock\<rparr>)))"

section \<open>The hexadecimal dump of a digest\<close>

definition hexval :: "u8 list" where
  "hexval = [48, 49, 50, 51, 52, 53, 54, 55, 56, 57, 65, 66, 67, 68, 69, 70]"

text \<open>\<open>SHA1_RESULTLEN\<close> is 20; the loop writes two characters per byte and a NUL.\<close>

definition hexdump :: "u8 list \<Rightarrow> u8 list \<Rightarrow> u8 list option" where
  "hexdump sha1 buffer = do {
     digest \<leftarrow> peek 0 20 sha1;
     poke 0 (concat (map (\<lambda>b. [hexval ! unat (drop_bit 4 b AND 0xF), hexval ! unat (b AND 0x0F)]) digest) @ [0]) buffer
   }"

section \<open>The invariant\<close>

definition apps_ok :: "(addr \<Rightarrow> nat) \<Rightarrow> Applications \<Rightarrow> addr list \<Rightarrow> bool" where
  "apps_ok cnt A as \<longleftrightarrow>
     app_lock A = Lock \<and> chain a_next (app_heap A) (app_head A) as \<and> backs a_prev (app_heap A) None as \<and>
     counted_heap cnt (app_heap A) \<and> (\<forall>a x. app_heap A a = Some x \<longrightarrow> a < apps_made A)"

lemma strip_field:
  assumes "\<And>x. f (strip s t x) = f x" and "map_option (strip s t) x = map_option (strip s t) y"
  shows "map_option f x = map_option f y"
proof -
  have "map_option f z = map_option f (map_option (strip s t) z)" for z
    using assms(1) by (cases z) simp_all
  with assms(2) show ?thesis by metis
qed

lemma strip_refs:
  assumes "\<forall>b. map_option (strip a_next_update a_prev_update) (h' b) =
    map_option (strip a_next_update a_prev_update) ((h :: Application heap) b)"
  shows "map_option references (h' b) = map_option references (h b)"
    and "map_option pid (h' b) = map_option pid (h b)"
  by (rule strip_field [OF _ assms [rule_format]], simp add: strip_def)+

lemma map_option_live: "map_option f x = map_option f y \<Longrightarrow> x \<noteq> None \<longleftrightarrow> y \<noteq> None"
  by (cases x; cases y) simp_all

lemma apps_okD:
  assumes "apps_ok cnt A as"
  shows "app_lock A = Lock" "chain a_next (app_heap A) (app_head A) as" "backs a_prev (app_heap A) None as"
    "counted_heap cnt (app_heap A)" "app_heap A a = Some x \<Longrightarrow> a < apps_made A" "distinct as"
    "a \<in> set as \<Longrightarrow> \<exists>x. app_heap A a = Some x" "app_heap A (apps_made A) = None"
  using assms chain_distinct [of a_next "app_heap A" "app_head A" as]
    chain_allocated [of a_next "app_heap A" "app_head A" as a]
  unfolding apps_ok_def by (blast | metis less_irrefl not_None_eq)+

lemma apps_okI:
  assumes "app_lock A = Lock" and "chain a_next (app_heap A) (app_head A) as" and "backs a_prev (app_heap A) None as"
    and "counted_heap cnt (app_heap A)" and "\<And>a x. app_heap A a = Some x \<Longrightarrow> a < apps_made A"
  shows "apps_ok cnt A as"
  using assms by (simp add: apps_ok_def)

lemma apps_ok_update:
  assumes "apps_ok cnt A as" and "app_heap A a = Some x" and "a_next y = a_next x" "a_prev y = a_prev x"
    and "counted_heap cnt' ((app_heap A)(a \<mapsto> y))"
  shows "apps_ok cnt' (A\<lparr>app_heap := (app_heap A)(a \<mapsto> y)\<rparr>) as"
  using assms apps_okD(5) [OF assms(1)]
  by (intro apps_okI) (auto simp: apps_ok_def chain_upd_same backs_upd_same split: if_splits)

lemma Remove_ok:
  assumes ok: "apps_ok cnt A (us @ a # vs)"
  shows "\<exists>A'. Applications_Remove a A = Some A' \<and> apps_ok cnt A' (us @ vs) \<and>
    (\<forall>b. map_option references (app_heap A' b) = map_option references (app_heap A b)) \<and>
    app_closing A' = app_closing A \<and> apps_made A' = apps_made A \<and>
    countProcessesToCheck A' = countProcessesToCheck A"
proof -
  from apps_okD(7) [OF ok, of a] obtain x where x: "app_heap A a = Some x" by auto
  from apps_okD(2,3) [OF ok] x obtain head' h where
    u: "unlink a_next a_next_update a_prev a_prev_update a (app_head A, app_heap A) = Some (head', h)"
    and ch: "chain a_next h head' (us @ vs)" and bk: "backs a_prev h None (us @ vs)"
    and st: "\<forall>b. map_option (strip a_next_update a_prev_update) (h b) =
        map_option (strip a_next_update a_prev_update) (app_heap A b)"
    by (rule app_links.unlink_strict)
  note refs = strip_refs(1) [OF st]
  have "h b \<noteq> None \<longleftrightarrow> app_heap A b \<noteq> None" for b by (rule map_option_live [OF refs])
  then have "b < apps_made A" if "h b = Some z" for b z
    using apps_okD(5) [OF ok] that by (metis not_None_eq)
  then have "apps_ok cnt (A\<lparr>app_head := head', app_heap := h\<rparr>) (us @ vs)"
    using ch bk apps_okD(1) [OF ok] counted_heap_refs [OF apps_okD(4) [OF ok] refs] by (intro apps_okI) auto
  with u refs show ?thesis by (simp add: Applications_Remove_def)
qed

text \<open>Adding puts the new application in front, owned by the chain.\<close>

lemma Add_ok:
  assumes k: "atomics_documented k" and ok: "apps_ok cnt A as" and open_: "app_closing A = 0"
    and g: "grants k NewApplication (apps_made A)"
  shows "\<exists>A'. Applications_Add k who file A = Some (Some (apps_made A), A') \<and>
    apps_ok (cnt(apps_made A := 1)) A' (apps_made A # as) \<and> app_closing A' = 0 \<and>
    apps_made A' = Suc (apps_made A) \<and>
    (\<exists>x. app_heap A' (apps_made A) = Some x \<and> pid x = selfpid who) \<and>
    (\<forall>b. b \<noteq> apps_made A \<longrightarrow> map_option pid (app_heap A' b) = map_option pid (app_heap A b))"
proof -
  let ?n = "apps_made A" and ?x = "(new_application k (apps_made A) who file)\<lparr>references := 1\<rparr>"
  let ?h = "(app_heap A)(?n \<mapsto> ?x)"
  have x: "references (new_application k ?n who file) = 0" "a_prev ?x = None" "pid ?x = selfpid who"
    by (auto simp: new_application_def Let_def split: option.splits)
  have fresh: "app_heap A ?n = None" "?n \<notin> set as"
    using apps_okD(8) [OF ok] apps_okD(7) [OF ok, of ?n] by auto
  have ret: "retain_at k (Some ?n) ((app_heap A)(?n \<mapsto> new_application k ?n who file)) = Some ?h"
    using k x by (simp add: retain_at_Some)
  have ch: "chain a_next ?h (app_head A) as" and bk: "backs a_prev ?h None as"
    using apps_okD(2,3) [OF ok] fresh by auto
  obtain h' where p: "push_front a_next a_next_update a_prev_update ?n (app_head A, ?h) = Some (Some ?n, h')"
    and ch': "chain a_next h' (Some ?n) (?n # as)" and bk': "backs a_prev h' None (?n # as)"
    and st: "\<forall>b. map_option (strip a_next_update a_prev_update) (h' b) = map_option (strip a_next_update a_prev_update) (?h b)"
    by (rule app_links.push_front_strict [OF ch bk, of ?n ?x]) (use x fresh in auto)
  note refs = strip_refs(1) [OF st] and pids = strip_refs(2) [OF st]
  have "counted_heap (cnt(?n := 1)) ?h"
    using apps_okD(4) [OF ok] by (intro counted_heap_upd) simp_all
  then have "counted_heap (cnt(?n := 1)) h'" using refs by (rule counted_heap_refs)
  moreover have "h' b \<noteq> None \<longleftrightarrow> ?h b \<noteq> None" for b by (rule map_option_live [OF refs])
  then have "b < Suc ?n" if "h' b = Some z" for b z
    using that apps_okD(5) [OF ok, of b] by (cases "b = ?n") (auto simp: less_Suc_eq, metis not_None_eq fun_upd_other)
  ultimately have "apps_ok (cnt(?n := 1)) (A\<lparr>app_head := Some ?n, app_heap := h', apps_made := Suc ?n,
      countProcessesToCheck := countProcessesToCheck A + 1\<rparr>) (?n # as)"
    using ch' bk' apps_okD(1) [OF ok] by (intro apps_okI) auto
  moreover have "\<exists>z. h' ?n = Some z \<and> pid z = selfpid who"
    using pids [of ?n] x(3) by (cases "h' ?n") auto
  moreover have "map_option pid (h' b) = map_option pid (app_heap A b)" if "b \<noteq> ?n" for b
    using pids [of b] that by simp
  ultimately show ?thesis using g open_ ret p by (simp add: Applications_Add_def Let_def)
qed

text \<open>
  \<open>Get\<close> hands out the application of the calling process, the most recent one on the chain or a new
  one, with a reference of its own.
\<close>

lemma Get_ok:
  assumes k: "atomics_documented k" and ok: "apps_ok cnt A as" and open_: "app_closing A = 0"
    and small: "\<forall>b. cnt b + 1 < 2 ^ 32"
  shows "\<exists>result A' as' cnt'. Applications_Get k who A = Some (result, A') \<and> apps_ok cnt' A' as' \<and>
    (case result of
       None \<Rightarrow> A' = A \<and> cnt' = cnt \<and> as' = as \<and> \<not> grants k NewApplication (apps_made A) \<and>
         find (holds_at (app_heap A) (\<lambda>x. pid x = selfpid who)) as = None
     | Some a \<Rightarrow> (\<exists>x. app_heap A' a = Some x \<and> pid x = selfpid who) \<and> a \<in> set as' \<and>
         (case find (holds_at (app_heap A) (\<lambda>x. pid x = selfpid who)) as of
            Some b \<Rightarrow> a = b \<and> as' = as \<and> cnt' = cnt(a := cnt a + 1)
          | None \<Rightarrow> grants k NewApplication (apps_made A) \<and> a = apps_made A \<and> as' = a # as \<and> cnt' = cnt(a := 2)))"
proof -
  let ?P = "\<lambda>x. pid x = selfpid who"
  have s: "search a_next ?P (app_heap A) (app_head A) = Some (find (holds_at (app_heap A) ?P) as)"
    by (rule search_chain [OF apps_okD(2) [OF ok]])
  note lock = apps_okD(1) [OF ok]
  show ?thesis
  proof (cases "find (holds_at (app_heap A) ?P) as")
    case (Some a)
    then obtain us vs x where x: "as = us @ a # vs" "app_heap A a = Some x" "?P x"
      by (rule find_holds_at_SomeD)
    let ?A = "A\<lparr>app_heap := (app_heap A)(a \<mapsto> x\<lparr>references := references x + 1\<rparr>)\<rparr>"
    note rc = retain_counted [OF k apps_okD(4) [OF ok] x(2) small [rule_format, of a]]
    have "apps_ok (cnt(a := cnt a + 1)) ?A as"
      by (rule apps_ok_update [OF ok x(2) _ _ rc(2)]) simp_all
    moreover have "Applications_Get k who A = Some (Some a, ?A)"
      using open_ lock s Some rc(1) by (simp add: Applications_Get_def)
    ultimately show ?thesis using x Some by (intro exI [of _ "Some a"] exI [of _ ?A]) auto
  next
    case None
    show ?thesis
    proof (cases "grants k NewApplication (apps_made A)")
      case False
      then have "Applications_Get k who A = Some (None, A)"
        using open_ lock s None by (simp add: Applications_Get_def Applications_Add_def)
      with False ok None show ?thesis by auto
    next
      case True
      let ?n = "apps_made A"
      from Add_ok [OF k ok open_ True, of who None] obtain A1 x where
        A1: "Applications_Add k who None A = Some (Some ?n, A1)" "apps_ok (cnt(?n := 1)) A1 (?n # as)"
          "app_heap A1 ?n = Some x" "?P x" by auto
      let ?A = "A1\<lparr>app_heap := (app_heap A1)(?n \<mapsto> x\<lparr>references := references x + 1\<rparr>)\<rparr>"
      have "(cnt(?n := 1)) ?n + 1 < 2 ^ 32" by simp
      note rc = retain_counted [OF k apps_okD(4) [OF A1(2)] A1(3) this]
      have "(cnt(?n := 1))(?n := (cnt(?n := 1)) ?n + 1) = cnt(?n := 2)"
        by (simp add: numeral_2_eq_2)
      with rc(2) have "counted_heap (cnt(?n := 2)) ((app_heap A1)(?n \<mapsto> x\<lparr>references := references x + 1\<rparr>))"
        by (simp only:)
      then have "apps_ok (cnt(?n := 2)) ?A (?n # as)"
        by (rule apps_ok_update [OF A1(2,3), rotated 2]) simp_all
      moreover have "Applications_Get k who A = Some (Some ?n, ?A)"
        using open_ lock s None rc(1) A1(1) by (simp add: Applications_Get_def)
      ultimately show ?thesis using None A1(4) True
        by (intro exI [of _ "Some ?n"] exI [of _ ?A] exI [of _ "?n # as"] exI [of _ "cnt(?n := 2)"]) simp
    qed
  qed
qed

section \<open>The thread that removes dead applications\<close>

text \<open>Between two turns the thread's cursor owns the application it stands on.\<close>

definition with_cursor :: "(addr \<Rightarrow> nat) \<Rightarrow> ptr \<Rightarrow> addr \<Rightarrow> nat" where
  "with_cursor own checked a = own a + (if checked = Some a then 1 else 0)"

lemma with_cursor_None [simp]: "with_cursor own None = own"
  by (simp add: with_cursor_def fun_eq_iff)

lemma with_cursor_upd: "own(a := own a + 1) = with_cursor own (Some a)"
  by (auto simp: with_cursor_def fun_eq_iff)

lemma with_cursor_down: "(with_cursor own (Some a))(a := with_cursor own (Some a) a - 1) = own"
  by (auto simp: with_cursor_def fun_eq_iff)

text \<open>Moving the cursor: to the head of the chain, or to the next application.\<close>

lemma cursor_moves:
  assumes k: "atomics_documented k" and ok: "apps_ok (with_cursor own checked) A as"
    and own: "\<forall>a\<in>set as. 0 < own a" and cur: "\<forall>a. checked = Some a \<longrightarrow> a \<in> set as"
  shows "\<exists>checked1 A1.
    (case checked of
          None \<Rightarrow> Some (app_head A, A)
        | Some a \<Rightarrow> do {
            x \<leftarrow> app_heap A a;
            h \<leftarrow> release_at k (Some a) (app_heap A);
            Some (a_next x, A\<lparr>app_heap := h\<rparr>)
          }) = Some (checked1, A1) \<and>
    apps_ok own A1 as \<and> (\<forall>c. checked1 = Some c \<longrightarrow> c \<in> set as) \<and> app_lock A1 = Lock \<and>
    (\<forall>b. map_option pid (app_heap A1 b) = map_option pid (app_heap A b)) \<and>
    checked1 = (case checked of None \<Rightarrow> app_head A | Some a \<Rightarrow> Option.bind (app_heap A a) a_next) \<and>
    countProcessesToCheck A1 = countProcessesToCheck A"
proof (cases checked)
  case None
  then show ?thesis using ok apps_okD(1,2) [OF ok] by (cases as) auto
next
  case (Some a)
  with cur have a: "a \<in> set as" by simp
  from apps_okD(7) [OF ok a] obtain x where x: "app_heap A a = Some x" by blast
  from apps_okD(4) [OF ok] Some have c: "counted_heap (with_cursor own (Some a)) (app_heap A)" by simp
  have "with_cursor own (Some a) a \<noteq> 1" using own a by (simp add: with_cursor_def)
  with release_counted [OF k c x] have rel:
    "release_at k (Some a) (app_heap A) = Some ((app_heap A)(a \<mapsto> x\<lparr>references := references x - 1\<rparr>))"
    "counted_heap own ((app_heap A)(a \<mapsto> x\<lparr>references := references x - 1\<rparr>))"
    using with_cursor_down [of own a] by simp_all
  let ?A = "A\<lparr>app_heap := (app_heap A)(a \<mapsto> x\<lparr>references := references x - 1\<rparr>)\<rparr>"
  have ok1: "apps_ok own ?A as" by (rule apps_ok_update [OF ok x _ _ rel(2)]) simp_all
  have "c \<in> set as" if "a_next x = Some c" for c
  proof -
    from a obtain us vs where as: "as = us @ a # vs" by (auto simp: in_set_conv_decomp)
    then have "chain a_next (app_heap A) (a_next x) vs"
      using apps_okD(2) [OF ok] x by (auto simp: chain_append)
    with that as show ?thesis by (cases vs) auto
  qed
  with Some x rel(1) ok1 apps_okD(1) [OF ok1] show ?thesis by auto
qed

lemma apps_ok_count [simp]: "apps_ok cnt (A\<lparr>countProcessesToCheck := n\<rparr>) as = apps_ok cnt A as"
  by (simp add: apps_ok_def)

text \<open>
  The application a turn looks at, and the value of the counter before it does: the head of the chain or
  the one behind the cursor.
\<close>

definition reached :: "ptr \<Rightarrow> Applications \<Rightarrow> ptr" where
  "reached checked A = (case checked of None \<Rightarrow> app_head A | Some a \<Rightarrow> Option.bind (app_heap A a) a_next)"

definition counted_down :: "s32 \<Rightarrow> s32" where
  "counted_down n = (if 0 <s n then n - 1 else n)"

text \<open>
  A turn at the end of the chain resets the cursor; one that finds a live process moves the cursor; one that
  finds a dead process removes its application, which loses the chain's reference and is freed if no socket
  holds it, and resets the cursor.
\<close>

lemma check_turn_ok:
  assumes k: "atomics_documented k" and ok: "apps_ok (with_cursor own checked) A as"
    and own: "\<forall>a\<in>set as. 0 < own a" and cur: "\<forall>a. checked = Some a \<longrightarrow> a \<in> set as"
    and small: "\<forall>b. own b + 1 < 2 ^ 32"
  shows "\<exists>A'. case reached checked A of
      None \<Rightarrow> check_turn k alive checked A = Some (None, A') \<and> apps_ok own A' as \<and>
        countProcessesToCheck A' = counted_down (countProcessesToCheck A)
    | Some c \<Rightarrow> \<exists>us vs x. as = us @ c # vs \<and> app_heap A c = Some x \<and>
        (if alive (pid x) then
           check_turn k alive checked A = Some (Some c, A') \<and> apps_ok (with_cursor own (Some c)) A' as \<and>
           countProcessesToCheck A' = counted_down (countProcessesToCheck A)
         else
           check_turn k alive checked A = Some (None, A') \<and> apps_ok (own(c := own c - 1)) A' (us @ vs) \<and>
           countProcessesToCheck A' = counted_down (countProcessesToCheck A) + 1 \<and>
           (app_heap A' c = None \<longleftrightarrow> own c = 1))"
proof -
  note lock = apps_okD(1) [OF ok]
  obtain checked1 A1 where mv: "(case checked of
          None \<Rightarrow> Some (app_head A, A)
        | Some a \<Rightarrow> do {
            x \<leftarrow> app_heap A a;
            h \<leftarrow> release_at k (Some a) (app_heap A);
            Some (a_next x, A\<lparr>app_heap := h\<rparr>)
          }) = Some (checked1, A1)"
    and ok1: "apps_ok own A1 as" and in1: "\<forall>c. checked1 = Some c \<longrightarrow> c \<in> set as"
    and pids: "\<forall>b. map_option pid (app_heap A1 b) = map_option pid (app_heap A b)"
    and at: "reached checked A = checked1" and count1: "countProcessesToCheck A1 = countProcessesToCheck A"
    unfolding reached_def using cursor_moves [OF k ok own cur] by blast
  let ?A2 = "if 0 <s countProcessesToCheck A1
    then A1\<lparr>countProcessesToCheck := countProcessesToCheck A1 - 1\<rparr> else A1"
  have ok2: "apps_ok own ?A2 as" and heap2: "app_heap ?A2 = app_heap A1" using ok1 by simp_all
  have count2: "countProcessesToCheck ?A2 = counted_down (countProcessesToCheck A)"
    using count1 by (simp add: counted_down_def)
  show ?thesis
  proof (cases checked1)
    case None
    then have "check_turn k alive checked A = Some (None, ?A2)" using lock mv by (simp add: check_turn_def Let_def)
    with ok2 count2 None at show ?thesis by (intro exI [of _ ?A2]) simp
  next
    case (Some c)
    with in1 have c: "c \<in> set as" by simp
    from apps_okD(7) [OF ok1 c] obtain x where x: "app_heap A1 c = Some x" by blast
    from c obtain us vs where as: "as = us @ c # vs" by (auto simp: in_set_conv_decomp)
    obtain x0 where x0: "app_heap A c = Some x0" "pid x0 = pid x"
      using pids [rule_format, of c] x by (cases "app_heap A c") auto
    show ?thesis
    proof (cases "alive (pid x)")
      case True
      note rc = retain_counted [OF k apps_okD(4) [OF ok1] x small [rule_format, of c]]
      let ?A3 = "?A2\<lparr>app_heap := (app_heap A1)(c \<mapsto> x\<lparr>references := references x + 1\<rparr>)\<rparr>"
      have "check_turn k alive checked A = Some (Some c, ?A3)"
        using lock mv Some x True rc(1) by (simp add: check_turn_def Let_def)
      moreover have "apps_ok (with_cursor own (Some c)) ?A3 as"
        using apps_ok_update [OF ok2, of c x "x\<lparr>references := references x + 1\<rparr>" "with_cursor own (Some c)"]
          x rc(2) by (simp add: heap2 with_cursor_upd [symmetric])
      moreover have "countProcessesToCheck ?A3 = counted_down (countProcessesToCheck A)" using count2 by simp
      ultimately show ?thesis unfolding at Some option.case using as True x0
        by - (rule exI [of _ ?A3], rule exI [of _ us], rule exI [of _ vs], rule exI [of _ x0], simp)
    next
      case False
      from Remove_ok [OF ok2 [unfolded as]] obtain A3 where A3: "Applications_Remove c ?A2 = Some A3"
        "apps_ok own A3 (us @ vs)" "\<forall>b. map_option references (app_heap A3 b) = map_option references (app_heap ?A2 b)"
        and count3: "countProcessesToCheck A3 = countProcessesToCheck ?A2" by blast
      from counted_heap_live [OF apps_okD(4) [OF A3(2)]] own c obtain y where y: "app_heap A3 c = Some y" by blast
      note rel = release_counted [OF k apps_okD(4) [OF A3(2)] y]
      let ?h = "(app_heap A3)(c := (if own c = 1 then None else Some (y\<lparr>references := references y - 1\<rparr>)))"
      let ?A4 = "A3\<lparr>app_heap := ?h, countProcessesToCheck := countProcessesToCheck A3 + 1\<rparr>"
      have "check_turn k alive checked A = Some (None, ?A4)"
        using lock mv Some x heap2 False A3(1) rel(1) by (simp add: check_turn_def Let_def)
      moreover have "apps_ok (own(c := own c - 1)) ?A4 (us @ vs)"
        using rel(2) apps_okD(1-3,5) [OF A3(2)] y apps_okD(6) [OF ok1] as by (intro apps_okI) (auto split: if_splits)
      moreover have "countProcessesToCheck ?A4 = counted_down (countProcessesToCheck A) + 1" using count2 count3 by simp
      moreover have "app_heap ?A4 c = None \<longleftrightarrow> own c = 1" by simp
      ultimately show ?thesis unfolding at Some option.case using as False x0
        by - (rule exI [of _ ?A4], rule exI [of _ us], rule exI [of _ vs], rule exI [of _ x0], simp)
    qed
  qed
qed

text \<open>\<open>Applications::Free\<close> empties the chain; applications owned by the chain alone are freed.\<close>

lemma Remove_keeps:
  "Applications_Remove a A = Some A' \<Longrightarrow> processListener A' = processListener A \<and> app_closing A' = app_closing A"
  by (auto simp: Applications_Remove_def split: bind_splits)

lemma app_free_loop_ok:
  assumes "atomics_documented k"
  shows "apps_ok cnt A as \<Longrightarrow> \<exists>A' cnt'. app_free_loop k A = Some A' \<and> apps_ok cnt' A' [] \<and>
    processListener A' = processListener A \<and> app_closing A' = app_closing A \<and>
    (\<forall>b. cnt' b = (if b \<in> set as then cnt b - 1 else cnt b))"
proof (induction as arbitrary: A cnt)
  case Nil
  then have "app_head A = None" by (simp add: apps_ok_def)
  with Nil show ?case by (intro exI [of _ A] exI [of _ cnt]) (simp add: app_free_loop.simps)
next
  case (Cons a as)
  from Cons.prems have hd: "app_head A = Some a" by (auto simp: apps_ok_def)
  have dist: "a \<notin> set as" using apps_okD(6) [OF Cons.prems] by simp
  from Remove_ok [of cnt A "[]" a as] Cons.prems obtain A1 where A1: "Applications_Remove a A = Some A1"
    "apps_ok cnt A1 as" "\<forall>b. map_option references (app_heap A1 b) = map_option references (app_heap A b)" by auto
  from apps_okD(7) [OF Cons.prems, of a] obtain x where "app_heap A a = Some x" by auto
  with counted_heap_Some [OF apps_okD(4) [OF Cons.prems]] have "0 < cnt a" by blast
  from counted_heap_live [OF apps_okD(4) [OF A1(2)] this] obtain y where y: "app_heap A1 a = Some y" by blast
  note rel = release_counted [OF assms apps_okD(4) [OF A1(2)] y]
  let ?h = "(app_heap A1)(a := (if cnt a = 1 then None else Some (y\<lparr>references := references y - 1\<rparr>)))"
  have "apps_ok (cnt(a := cnt a - 1)) (A1\<lparr>app_heap := ?h\<rparr>) as"
    using rel(2) apps_okD(1-3,5) [OF A1(2)] y dist by (intro apps_okI) (auto split: if_splits)
  from Cons.IH [OF this] obtain A' cnt' where A': "app_free_loop k (A1\<lparr>app_heap := ?h\<rparr>) = Some A'"
    "apps_ok cnt' A' []" and kept: "processListener A' = processListener A1" "app_closing A' = app_closing A1"
    and cnts: "\<forall>b. cnt' b = (if b \<in> set as then (cnt(a := cnt a - 1)) b - 1 else (cnt(a := cnt a - 1)) b)" by auto
  have "app_free_loop k A = Some A'" using hd A1(1) rel(1) A'(1) by (simp add: app_free_loop.simps [of k A])
  moreover have "\<forall>b. cnt' b = (if b \<in> set (a # as) then cnt b - 1 else cnt b)" using cnts dist by auto
  ultimately show ?case using A'(2) kept Remove_keeps [OF A1(1)] by auto
qed

text \<open>The dump: forty characters and a NUL.\<close>

lemma hexdump_ok:
  assumes "length sha1 = 20" and "41 \<le> length buffer"
  shows "\<exists>b. hexdump sha1 buffer = Some b \<and> length b = length buffer \<and> b ! 40 = 0 \<and>
    (\<forall>i<20. b ! (2 * i) = hexval ! (unat (sha1 ! i) div 16) \<and> b ! (2 * i + 1) = hexval ! (unat (sha1 ! i) mod 16)) \<and>
    drop 41 b = drop 41 buffer"
proof -
  let ?g = "\<lambda>b :: u8. [hexval ! unat (drop_bit 4 b AND 0xF), hexval ! unat (b AND 0x0F)]"
  have len: "length (concat (map ?g xs)) = 2 * length xs" for xs by (induction xs) auto
  have nth: "concat (map ?g xs) ! (2 * i) = hexval ! unat (drop_bit 4 (xs ! i) AND 0xF) \<and>
      concat (map ?g xs) ! (2 * i + 1) = hexval ! unat (xs ! i AND 0x0F)" if "i < length xs" for xs i
    using that by (induction xs arbitrary: i) (auto simp: nth_Cons less_Suc_eq_0_disj split: nat.splits)
  have m: "b AND 0xF = take_bit 4 b" for b :: u8
    by (simp add: take_bit_eq_mask mask_eq_decr_exp)
  have lo: "unat (b AND 0x0F) = unat b mod 16" for b :: u8
    by (simp only: m unsigned_take_bit_eq) (simp add: take_bit_eq_mod)
  have hi: "unat (drop_bit 4 b AND 0xF) = unat b div 16" for b :: u8
  proof -
    have small: "unat b < 256" using unsigned_less [of b] by simp
    then have "unat (drop_bit 4 b) = unat b div 16"
      by (simp only: unsigned_drop_bit_eq) (simp add: drop_bit_eq_div take_bit_eq_mod)
    with small show ?thesis using lo [of "drop_bit 4 b"] by simp
  qed
  show ?thesis
    using assms nth [of _ sha1] len [of sha1]
    by (auto simp: hexdump_def peek_def poke_def hi [unfolded lo] lo nth_append)
qed

section \<open>Properties\<close>

text \<open>C24. While the list is not closing, \<open>Get\<close> returns the record of the calling process: the first one in the list with its pid, with
  one reference more, or a new one at the head of the list with two references; NULL (and nothing changed) only when
  the allocation is refused. In every case the list stays well linked both ways and every count equals the
  number of owners.\<close>

theorem Get_finds_or_adds:
  assumes "atomics_documented k" and "apps_ok cnt A as" and "app_closing A = 0" and "\<forall>b. cnt b + 1 < 2 ^ 32"
  shows "\<exists>result A' as' cnt'. Applications_Get k who A = Some (result, A') \<and> apps_ok cnt' A' as' \<and>
    (case result of
       None \<Rightarrow> A' = A \<and> as' = as \<and> cnt' = cnt \<and> \<not> grants k NewApplication (apps_made A)
     | Some a \<Rightarrow> (\<exists>x. app_heap A' a = Some x \<and> pid x = selfpid who) \<and> a \<in> set as' \<and>
         (case find (holds_at (app_heap A) (\<lambda>x. pid x = selfpid who)) as of
            Some b \<Rightarrow> a = b \<and> as' = as \<and> cnt' = cnt(a := cnt a + 1)
          | None \<Rightarrow> a = apps_made A \<and> as' = a # as \<and> cnt' = cnt(a := 2)))"
  using Get_ok [OF assms, of who] by (fastforce split: option.splits)

definition demo_app :: "u32 \<Rightarrow> ptr \<Rightarrow> ptr \<Rightarrow> Application" where
  "demo_app p prev nxt = \<lparr>references = 1, pid = p, p_pid = 1, uid = 0, gid = 0, processName = None, filePath = None,
     createTime = 0, modifyTime = 0, dataSize = 0, a_prev = prev, a_next = nxt\<rparr>"

definition demo_apps :: Applications where
  "demo_apps = \<lparr>app_head = Some 1, app_lock = Lock, lockRoutine = Lock, app_closing = 0, countProcessesToCheck = 0,
     processListener = True, app_heap = [0 \<mapsto> demo_app 10 (Some 1) None, 1 \<mapsto> demo_app 11 None (Some 0)], apps_made = 2\<rparr>"

definition demo_owners :: "addr \<Rightarrow> nat" where
  "demo_owners a = (if a < 2 then 1 else 0)"

lemma demo_apps_ok: "apps_ok demo_owners demo_apps [1, 0]"
  by (auto simp: apps_ok_def demo_apps_def demo_app_def demo_owners_def counted_heap_def split: if_splits)

lemma Get_finds_or_adds_witness:
  "\<exists>A' cnt'. Applications_Get plain_kernel \<lparr>selfpid = 10, selfppid = 1, selfname = [], kauth_uid = 0, kauth_gid = 0\<rparr> demo_apps
     = Some (Some 0, A') \<and> apps_ok cnt' A' [1, 0]"
proof -
  let ?who = "\<lparr>selfpid = 10, selfppid = 1, selfname = [], kauth_uid = 0, kauth_gid = 0\<rparr>"
  have f: "find (holds_at (app_heap demo_apps) (\<lambda>x. pid x = selfpid ?who)) [1, 0] = Some 0"
    by (simp add: demo_apps_def demo_app_def holds_at_def)
  obtain result A' as' cnt' where r: "Applications_Get plain_kernel ?who demo_apps = Some (result, A')" "apps_ok cnt' A' as'"
    and c: "case result of None \<Rightarrow> \<not> grants plain_kernel NewApplication (apps_made demo_apps)
      | Some a \<Rightarrow> (case find (holds_at (app_heap demo_apps) (\<lambda>x. pid x = selfpid ?who)) [1, 0] of
          Some b \<Rightarrow> a = b \<and> as' = [1, 0] | None \<Rightarrow> True)"
    using Get_finds_or_adds [OF plain_kernel_documented demo_apps_ok, of ?who]
    by (fastforce simp: demo_apps_def demo_owners_def split: option.splits)
  from c f have "result = Some 0 \<and> as' = [1, 0]" by (auto split: option.splits)
  with r show ?thesis by blast
qed

text \<open>C25. One turn of the thread that looks for ended processes. The record it stands on carries a
  reference of its own. A turn goes to the next record (to the head of the list when it stands on none), gives back
  the reference of the one it leaves and counts the counter of checks down. At the end of the list it stands on
  none again and the list is as it was. A record with a live process stays in the list and the thread stands on it,
  with one more reference. A record whose process is gone is taken out of the list, and it alone; it loses the list's
  reference and is freed exactly when nobody else holds one, the counter goes up by one and the next turn starts from
  the head. No turn touches a freed record, and the list stays linked both ways with exact counts.\<close>

theorem watcher_turn:
  assumes "atomics_documented k" and "apps_ok (with_cursor own checked) A as" and "\<forall>a\<in>set as. 0 < own a"
    and "\<forall>a. checked = Some a \<longrightarrow> a \<in> set as" and "\<forall>b. own b + 1 < 2 ^ 32"
  shows "\<exists>A'. case (case checked of None \<Rightarrow> app_head A | Some a \<Rightarrow> Option.bind (app_heap A a) a_next) of
      None \<Rightarrow> check_turn k alive checked A = Some (None, A') \<and> apps_ok own A' as \<and>
        countProcessesToCheck A' = counted_down (countProcessesToCheck A)
    | Some c \<Rightarrow> \<exists>us vs x. as = us @ c # vs \<and> app_heap A c = Some x \<and>
        (if alive (pid x) then
           check_turn k alive checked A = Some (Some c, A') \<and> apps_ok (with_cursor own (Some c)) A' as \<and>
           countProcessesToCheck A' = counted_down (countProcessesToCheck A)
         else
           check_turn k alive checked A = Some (None, A') \<and> apps_ok (own(c := own c - 1)) A' (us @ vs) \<and>
           countProcessesToCheck A' = counted_down (countProcessesToCheck A) + 1 \<and>
           (app_heap A' c = None \<longleftrightarrow> own c = 1))"
  using check_turn_ok [OF assms] unfolding reached_def .

text \<open>Two turns: from the head, whose process lives, to the next record, whose process is gone.\<close>

lemma watcher_turn_witness:
  "(\<exists>A'. check_turn plain_kernel (\<lambda>p. p = 11) None demo_apps = Some (Some 1, A') \<and>
     apps_ok (with_cursor demo_owners (Some 1)) A' [1, 0]) \<and>
   (let A = demo_apps\<lparr>app_heap := (app_heap demo_apps)(1 \<mapsto> (demo_app 11 None (Some 0))\<lparr>references := 2\<rparr>)\<rparr> in
    \<exists>A'. check_turn plain_kernel (\<lambda>p. p = 11) (Some 1) A = Some (None, A') \<and>
      apps_ok (demo_owners(0 := 0)) A' [1] \<and> app_heap A' 0 = None)"
proof -
  let ?A = "demo_apps\<lparr>app_heap := (app_heap demo_apps)(1 \<mapsto> (demo_app 11 None (Some 0))\<lparr>references := 2\<rparr>)\<rparr>"
  have ok: "apps_ok (with_cursor demo_owners (Some 1)) ?A [1, 0]"
    by (auto simp: apps_ok_def demo_apps_def demo_app_def demo_owners_def counted_heap_def with_cursor_def split: if_splits)
  have ok0: "apps_ok (with_cursor demo_owners None) demo_apps [1, 0]" using demo_apps_ok by simp
  have h: "app_head demo_apps = Some 1" "app_heap demo_apps 1 = Some (demo_app 11 None (Some 0))"
    "app_heap demo_apps 0 = Some (demo_app 10 (Some 1) None)" "pid (demo_app p q r) = p"
    "a_next (demo_app p q r) = r" for p q r
    by (simp_all add: demo_apps_def demo_app_def)
  have o: "demo_owners 0 = 1" "\<forall>a\<in>set [1, 0]. 0 < demo_owners a" "\<forall>b. demo_owners b + 1 < 2 ^ 32"
    by (simp_all add: demo_owners_def)
  have 1: "\<exists>A'. check_turn plain_kernel (\<lambda>p. p = 11) None demo_apps = Some (Some 1, A') \<and>
     apps_ok (with_cursor demo_owners (Some 1)) A' [1, 0]"
    using watcher_turn [OF plain_kernel_documented ok0 o(2) _ o(3), of "\<lambda>p. p = 11"] by (auto simp: h simp del: One_nat_def)
  have "\<exists>A' us vs. [1, 0] = us @ 0 # vs \<and> check_turn plain_kernel (\<lambda>p. p = 11) (Some 1) ?A = Some (None, A') \<and>
      apps_ok (demo_owners(0 := 0)) A' (us @ vs) \<and> app_heap A' 0 = None"
    using watcher_turn [OF plain_kernel_documented ok o(2) _ o(3), of "\<lambda>p. p = 11"] by (auto simp: h o(1) simp del: One_nat_def)
  then obtain A' us vs where t: "[1, 0] = us @ 0 # vs" "check_turn plain_kernel (\<lambda>p. p = 11) (Some 1) ?A = Some (None, A')"
      "apps_ok (demo_owners(0 := 0)) A' (us @ vs)" "app_heap A' 0 = None" by blast
  from t(1) have "us @ vs = [1 :: addr]" by (auto simp: Cons_eq_append_conv)
  with t have 2: "\<exists>A'. check_turn plain_kernel (\<lambda>p. p = 11) (Some 1) ?A = Some (None, A') \<and>
      apps_ok (demo_owners(0 := 0)) A' [1] \<and> app_heap A' 0 = None" by auto
  from 1 2 show ?thesis unfolding Let_def by (rule conjI)
qed

text \<open>\<open>Free\<close> of a well-formed list returns: it marks the object as closing, takes every record out
  of the list, frees those that nobody else refers to, and gives the lock back.\<close>

theorem Applications_Free_empties:
  assumes "atomics_documented k" and "apps_ok cnt A as" and "lockRoutine A \<noteq> FreedLock"
  shows "\<exists>A'. Applications_Free k A = Some A' \<and> app_head A' = None \<and> app_lock A' = NoLock \<and> \<not> processListener A' \<and>
    app_closing A' = app_closing A + 1 \<and> (\<forall>a\<in>set as. app_heap A' a = None \<longleftrightarrow> cnt a = 1)"
proof -
  let ?A = "A\<lparr>app_closing := app_closing A + 1, processListener := False, lockRoutine := NoLock\<rparr>"
  have ok: "apps_ok cnt ?A as" using assms(2) by (simp add: apps_ok_def)
  from app_free_loop_ok [OF assms(1) ok] obtain A' cnt' where
    l: "app_free_loop k ?A = Some A'" "apps_ok cnt' A' []" "processListener A' = processListener ?A"
      "app_closing A' = app_closing ?A" "\<forall>b. cnt' b = (if b \<in> set as then cnt b - 1 else cnt b)" by blast
  have "app_heap A' a = None \<longleftrightarrow> cnt a = 1" if a: "a \<in> set as" for a
  proof -
    have pos: "0 < cnt a" using apps_okD(4,7) [OF ok] a counted_heap_Some by fastforce
    have "app_heap A' a = None \<longleftrightarrow> cnt' a = 0"
      using counted_heap_None [OF apps_okD(4) [OF l(2)], of a] counted_heap_Some [OF apps_okD(4) [OF l(2)], of a]
      by (cases "app_heap A' a") auto
    with l(5) a pos show ?thesis by auto
  qed
  moreover have "app_head A' = None" using apps_okD(2) [OF l(2)] by simp
  ultimately show ?thesis
    using l(1,3,4) assms apps_okD(1) [OF assms(2)] by (simp add: Applications_Free_def)
qed

lemma Applications_Free_empties_witness:
  "\<exists>A'. Applications_Free plain_kernel demo_apps = Some A' \<and> app_head A' = None \<and> app_heap A' 1 = None"
  using Applications_Free_empties [OF plain_kernel_documented demo_apps_ok] by (auto simp: demo_owners_def demo_apps_def)

text \<open>\<open>hexdump\<close> writes the 20 bytes of a digest as 40 hexadecimal digits, high half first, and the
  terminating zero, and writes nothing behind it; a buffer of 41 bytes is enough.\<close>

theorem hexdump_digits:
  assumes "length sha1 = 20" and "41 \<le> length buffer"
  shows "\<exists>b. hexdump sha1 buffer = Some b \<and> length b = length buffer \<and> b ! 40 = 0 \<and>
    (\<forall>i<20. b ! (2 * i) = hexval ! (unat (sha1 ! i) div 16) \<and> b ! (2 * i + 1) = hexval ! (unat (sha1 ! i) mod 16)) \<and>
    drop 41 b = drop 41 buffer"
  using hexdump_ok [OF assms] .

lemma hexdump_digits_witness:
  "\<exists>b. hexdump (replicate 20 0xA5) (replicate 41 1) = Some b \<and> b ! 0 = 65 \<and> b ! 1 = 53 \<and> b ! 40 = 0"
  using hexdump_digits [of "replicate 20 0xA5" "replicate 41 1"] by (fastforce simp: hexval_def)

end
