(* ===== verification/Cookie.thy ===== *)
theory Cookie
  imports Rules Application
begin

text \<open>
  Per-socket state (Kext/cookie.h, Kext/cookie.cpp): the chain of the cookies of all attached
  sockets with its counter (\<open>SocketCookies\<close>), and each cookie's addresses and queue of deferred
  packets (\<open>SocketCookie\<close>, \<open>DeferredData\<close>).

  Packets (\<open>mbuf_t\<close>) are opaque pointers; what the code tells the kernel to do with them is recorded
  in the list of events. What the fields of a fresh object hold before the code writes them is a parameter (\<open>fresh\<close>) of the
  operations that allocate; that the kernel's \<open>operator new\<close> clears memory is the hypothesis \<open>cleared\<close> of the
  facts that depend on it.
\<close>

datatype SocketCookieState =
    SocketCookieStateNOT | SocketCookieStateASK | SocketCookieStateALLOWED | SocketCookieStateNOT_ALLOWED

record DeferredData =
  d_data :: ptr
  d_control :: ptr
  d_flags :: u32
  d_direction :: bool
  d_next :: ptr
  d_address :: "u8 list" \<comment> \<open>the bytes copied behind socketAddress; none is a zero byte\<close>

record SocketCookie =
  application :: ptr
  state :: "SocketCookieState option" \<comment> \<open>None: the zero of a fresh object\<close>
  socket :: u64
  sockDomain :: u16
  sockType :: u16
  sockProtocol :: u16
  obtainedRuleTime :: u64
  deferredDataHead :: ptr
  deferredDataLast :: ptr
  cookie_rule :: ptr
  sa_from :: "u8 list option"
  sa_to :: "u8 list option"
  k_prev :: ptr
  k_next :: ptr

datatype mbuf_event =
    Freem ptr
  | InjectIn u64 "u8 list option" ptr ptr u32
  | InjectOut u64 "u8 list option" ptr ptr u32

record SocketCookies =
  cookies_lock :: lock_ptr
  socketCookies :: ptr
  countAttachedCookies :: s32
  cookie_heap :: "SocketCookie heap"
  cookies_made :: nat
  deferred_heap :: "DeferredData heap"
  deferred_made :: nat
  mbuf_events :: "mbuf_event list"

interpretation cookie_links:
  two_links k_next k_next_update k_prev "k_prev_update :: _ \<Rightarrow> SocketCookie \<Rightarrow> SocketCookie"
  by unfold_locales (auto simp: strip_def)

interpretation deferred_link: link_field d_next "d_next_update :: _ \<Rightarrow> DeferredData \<Rightarrow> DeferredData"
  by unfold_locales simp

section \<open>The chain of cookies\<close>

definition cookies_locked :: "SocketCookies \<Rightarrow> 'a option \<Rightarrow> 'a option" where
  "cookies_locked C body = (if cookies_lock C = Lock then body else None)"

lemma cookies_locked_Some [simp]: "cookies_lock C = Lock \<Longrightarrow> cookies_locked C body = body"
  by (simp add: cookies_locked_def)

definition Cookies_Add :: "addr \<Rightarrow> SocketCookies \<Rightarrow> SocketCookies option" where
  "Cookies_Add a C = cookies_locked C (do {
     (root', h) \<leftarrow> push_front k_next k_next_update k_prev_update a (socketCookies C, cookie_heap C);
     Some (C\<lparr>countAttachedCookies := countAttachedCookies C + 1, socketCookies := root', cookie_heap := h\<rparr>)
   })"

definition Cookies_Remove :: "addr \<Rightarrow> SocketCookies \<Rightarrow> SocketCookies option" where
  "Cookies_Remove a C = cookies_locked C (do {
     (root', h) \<leftarrow> unlink k_next k_next_update k_prev k_prev_update a (socketCookies C, cookie_heap C);
     Some (C\<lparr>countAttachedCookies := countAttachedCookies C - 1, socketCookies := root', cookie_heap := h\<rparr>)
   })"

text \<open>
  \<open>tagFound\<close>: whether \<open>mbuf_tag_id_find\<close> succeeds. When there is no lock, \<open>IOLockFree\<close> is called with NULL, a
  fault; when the tag is not found the lock is freed and the pointer keeps its address.
\<close>

definition Cookies_Init :: "kernel \<Rightarrow> nat \<Rightarrow> bool \<Rightarrow> SocketCookies \<Rightarrow> (bool \<times> SocketCookies) option" where
  "Cookies_Init k n tagFound C =
     (let C = C\<lparr>countAttachedCookies := 0\<rparr> in
      if cookies_lock C \<noteq> NoLock then Some (False, C)
      else if grants k NewLock n then
        if tagFound then Some (True, C\<lparr>cookies_lock := Lock\<rparr>)
        else Some (False, C\<lparr>cookies_lock := FreedLock\<rparr>)
      else None)"

definition HaveAttachedSockets :: "SocketCookies \<Rightarrow> bool option" where
  "HaveAttachedSockets C = cookies_locked C (Some (socketCookies C \<noteq> None))"

definition Cookies_Free :: "SocketCookies \<Rightarrow> (bool \<times> SocketCookies) option" where
  "Cookies_Free C = do {
     attached \<leftarrow> HaveAttachedSockets C;
     Some (if \<not> attached then (True, C\<lparr>cookies_lock := NoLock\<rparr>) else (False, C))
   }"

section \<open>One cookie\<close>

text \<open>\<open>types\<close>: what \<open>sock_gettype\<close> reports, cut to 16 bits by the assignments.\<close>

definition SetSocket :: "u64 \<Rightarrow> u32 \<times> u32 \<times> u32 \<Rightarrow> SocketCookie \<Rightarrow> SocketCookie" where
  "SetSocket so types c = (case types of (domain, ty, proto) \<Rightarrow>
     c\<lparr>sockDomain := ucast domain, sockType := ucast ty, sockProtocol := ucast proto, socket := so\<rparr>)"

definition copy_sockaddr :: "u8 list \<Rightarrow> u8 list option" where
  "copy_sockaddr sa = do { len \<leftarrow> rd_u8 sa 0; peek 0 (unat len) sa }"

definition SetFrom :: "kernel \<Rightarrow> nat \<Rightarrow> u8 list \<Rightarrow> SocketCookie \<Rightarrow> (bool \<times> SocketCookie) option" where
  "SetFrom k n sa c = do {
     len \<leftarrow> rd_u8 sa 0;
     if grants k NewSockAddr n then do {
       bytes \<leftarrow> peek 0 (unat len) sa;
       Some (True, c\<lparr>sa_from := Some bytes\<rparr>)
     } else Some (False, c\<lparr>sa_from := None\<rparr>)
   }"

definition SetTo :: "kernel \<Rightarrow> nat \<Rightarrow> u8 list \<Rightarrow> SocketCookie \<Rightarrow> (bool \<times> SocketCookie) option" where
  "SetTo k n sa c = do {
     len \<leftarrow> rd_u8 sa 0;
     if grants k NewSockAddr n then do {
       bytes \<leftarrow> peek 0 (unat len) sa;
       Some (True, c\<lparr>sa_to := Some bytes\<rparr>)
     } else Some (False, c\<lparr>sa_to := None\<rparr>)
   }"

definition GetSockAddress :: "DeferredData \<Rightarrow> u8 list option" where
  "GetSockAddress d = (case d_address d of [] \<Rightarrow> None | b # bs \<Rightarrow> if b = 0 then None else Some (b # bs))"

text \<open>
  \<open>AddDeferredData\<close> reads \<open>socketAddress->sa_len\<close> before it asks whether there is an address, and writes
  neither \<open>direction\<close> nor \<open>next\<close> (nor the first byte of an address of length 0): they are what the fresh
  memory holds.
\<close>

definition AddDeferredData ::
  "kernel \<Rightarrow> DeferredData \<Rightarrow> addr \<Rightarrow> bool \<Rightarrow> ptr \<Rightarrow> ptr \<Rightarrow> u32 \<Rightarrow> u8 list option \<Rightarrow> SocketCookies \<Rightarrow> (bool \<times> SocketCookies) option" where
  "AddDeferredData k fresh a direction data control flags socketAddress C = do {
     c \<leftarrow> cookie_heap C a;
     sa \<leftarrow> socketAddress;
     len \<leftarrow> rd_u8 sa 0;
     let n = deferred_made C;
     if grants k NewDeferred n then do {
       bytes \<leftarrow> peek 0 (unat len) sa;
       let d = fresh\<lparr>d_data := data, d_control := control, d_flags := flags,
                 d_address := (if bytes = [] then d_address fresh else bytes)\<rparr>;
       (head, final, D) \<leftarrow> enqueue d_next_update n
          (deferredDataHead c, deferredDataLast c, (deferred_heap C)(n \<mapsto> d));
       Some (True, C\<lparr>deferred_heap := D, deferred_made := Suc n,
         cookie_heap := (cookie_heap C)(a \<mapsto> c\<lparr>deferredDataHead := head, deferredDataLast := final\<rparr>)\<rparr>)
     } else Some (False, C)
   }"

text \<open>The loops over the queue, from the node \<open>d\<close> on: the heap left and the events.\<close>

partial_function (option) clear_deferred ::
  "ptr \<Rightarrow> DeferredData heap \<Rightarrow> (DeferredData heap \<times> mbuf_event list) option" where
  "clear_deferred p D =
     (case p of None \<Rightarrow> Some (D, [])
      | Some n \<Rightarrow> do {
          d \<leftarrow> D n;
          (D', es) \<leftarrow> clear_deferred (d_next d) (D(n := None));
          Some (D', Freem (d_data d) # Freem (d_control d) # es)
        })"

text \<open>\<open>inject\<close>: whether \<open>sock_inject_data_in\<close> fails for the packet.\<close>

definition send_events :: "(ptr \<Rightarrow> bool) \<Rightarrow> u64 \<Rightarrow> DeferredData \<Rightarrow> mbuf_event list" where
  "send_events fails so d =
     (if d_direction d then
        InjectIn so (GetSockAddress d) (d_data d) (d_control d) (d_flags d) #
        (if fails (d_data d) then [Freem (d_data d), Freem (d_control d)] else [])
      else [InjectOut so (GetSockAddress d) (d_data d) (d_control d) (d_flags d)])"

partial_function (option) send_deferred ::
  "(ptr \<Rightarrow> bool) \<Rightarrow> u64 \<Rightarrow> ptr \<Rightarrow> DeferredData heap \<Rightarrow> (DeferredData heap \<times> mbuf_event list) option" where
  "send_deferred fails so p D =
     (case p of None \<Rightarrow> Some (D, [])
      | Some n \<Rightarrow> do {
          d \<leftarrow> D n;
          (D', es) \<leftarrow> send_deferred fails so (d_next d) (D(n := None));
          Some (D', send_events fails so d @ es)
        })"

definition ClearDeferredData :: "addr \<Rightarrow> SocketCookies \<Rightarrow> (bool \<times> SocketCookies) option" where
  "ClearDeferredData a C = do {
     c \<leftarrow> cookie_heap C a;
     (D, es) \<leftarrow> clear_deferred (deferredDataHead c) (deferred_heap C);
     Some (True, C\<lparr>deferred_heap := D, mbuf_events := mbuf_events C @ es,
       cookie_heap := (cookie_heap C)(a \<mapsto> c\<lparr>deferredDataHead := None, deferredDataLast := None\<rparr>)\<rparr>)
   }"

definition SendDeferredData :: "(ptr \<Rightarrow> bool) \<Rightarrow> addr \<Rightarrow> SocketCookies \<Rightarrow> (bool \<times> SocketCookies) option" where
  "SendDeferredData fails a C = do {
     c \<leftarrow> cookie_heap C a;
     (D, es) \<leftarrow> send_deferred fails (socket c) (deferredDataHead c) (deferred_heap C);
     Some (True, C\<lparr>deferred_heap := D, mbuf_events := mbuf_events C @ es,
       cookie_heap := (cookie_heap C)(a \<mapsto> c\<lparr>deferredDataHead := None, deferredDataLast := None\<rparr>)\<rparr>)
   }"

definition SocketCookie_IsValid :: "(u32 \<Rightarrow> bool) \<Rightarrow> Application heap \<Rightarrow> SocketCookie \<Rightarrow> bool option" where
  "SocketCookie_IsValid alive apps c = do { x \<leftarrow> deref apps (application c); Some (alive (pid x)) }"

text \<open>\<open>SocketCookie::Free\<close> gives back the rule and the application and deletes the cookie.\<close>

definition SocketCookie_Free ::
  "kernel \<Rightarrow> addr \<Rightarrow> SocketCookies \<times> Rule heap \<times> Application heap \<Rightarrow>
   (SocketCookies \<times> Rule heap \<times> Application heap) option" where
  "SocketCookie_Free k a s = (case s of (C, rh, ah) \<Rightarrow> do {
     (_, C1) \<leftarrow> ClearDeferredData a C;
     c \<leftarrow> cookie_heap C1 a;
     rh' \<leftarrow> (case cookie_rule c of None \<Rightarrow> Some rh | Some r \<Rightarrow> release_at k (Some r) rh);
     ah' \<leftarrow> (case application c of None \<Rightarrow> Some ah | Some b \<Rightarrow> release_at k (Some b) ah);
     Some (C1\<lparr>cookie_heap := (cookie_heap C1)(a := None)\<rparr>, rh', ah')
   })"

section \<open>The chain: facts\<close>

definition cookies_ok :: "SocketCookies \<Rightarrow> addr list \<Rightarrow> bool" where
  "cookies_ok C as \<longleftrightarrow>
     cookies_lock C = Lock \<and> chain k_next (cookie_heap C) (socketCookies C) as \<and>
     backs k_prev (cookie_heap C) None as \<and> countAttachedCookies C = of_nat (length as) \<and>
     (\<forall>a x. cookie_heap C a = Some x \<longrightarrow> a < cookies_made C)"

text \<open>What a cookie carries besides its place in the chain.\<close>

definition cookie_body :: "SocketCookie \<Rightarrow> SocketCookie" where
  "cookie_body = strip k_next_update k_prev_update"

lemma cookie_body_fields [simp]:
  "application (cookie_body c) = application c" "state (cookie_body c) = state c"
  "cookie_rule (cookie_body c) = cookie_rule c" "deferredDataHead (cookie_body c) = deferredDataHead c"
  "deferredDataLast (cookie_body c) = deferredDataLast c" "sockProtocol (cookie_body c) = sockProtocol c"
  by (simp_all add: cookie_body_def strip_def)

lemma Cookies_Add_ok:
  assumes ok: "cookies_ok C as" and a: "cookie_heap C a = Some c" "a \<notin> set as" "k_prev c = None"
  shows "\<exists>C'. Cookies_Add a C = Some C' \<and> cookies_ok C' (a # as) \<and>
    (\<forall>b. map_option cookie_body (cookie_heap C' b) = map_option cookie_body (cookie_heap C b)) \<and>
    cookies_made C' = cookies_made C \<and> deferred_heap C' = deferred_heap C \<and> mbuf_events C' = mbuf_events C"
proof -
  have lk: "cookies_lock C = Lock" and ch: "chain k_next (cookie_heap C) (socketCookies C) as"
    and bk: "backs k_prev (cookie_heap C) None as"
    using ok by (auto simp: cookies_ok_def)
  from ch bk a(1,3,2) obtain h where p: "push_front k_next k_next_update k_prev_update a (socketCookies C, cookie_heap C) = Some (Some a, h)"
    and ch': "chain k_next h (Some a) (a # as)" and bk': "backs k_prev h None (a # as)"
    and st: "\<forall>b. map_option (strip k_next_update k_prev_update) (h b) =
      map_option (strip k_next_update k_prev_update) (cookie_heap C b)"
    by (rule cookie_links.push_front_strict)
  have "h b \<noteq> None \<longleftrightarrow> cookie_heap C b \<noteq> None" for b by (rule map_option_live [OF st [rule_format]])
  then have "b < cookies_made C" if "h b = Some z" for b z
    using ok that unfolding cookies_ok_def by (metis not_None_eq)
  with lk p ch' bk' st ok show ?thesis
    by (auto simp: Cookies_Add_def cookies_ok_def cookie_body_def algebra_simps)
qed

lemma Cookies_Remove_ok:
  assumes ok: "cookies_ok C (us @ a # vs)"
  shows "\<exists>C'. Cookies_Remove a C = Some C' \<and> cookies_ok C' (us @ vs) \<and>
    (\<forall>b. map_option cookie_body (cookie_heap C' b) = map_option cookie_body (cookie_heap C b)) \<and>
    cookies_made C' = cookies_made C \<and> deferred_heap C' = deferred_heap C \<and> mbuf_events C' = mbuf_events C"
proof -
  have lk: "cookies_lock C = Lock" and ch: "chain k_next (cookie_heap C) (socketCookies C) (us @ a # vs)"
    and bk: "backs k_prev (cookie_heap C) None (us @ a # vs)"
    using ok by (auto simp: cookies_ok_def)
  from chain_allocated [OF ch, of a] obtain x where x: "cookie_heap C a = Some x" by auto
  from ch bk x obtain root' h where p: "unlink k_next k_next_update k_prev k_prev_update a (socketCookies C, cookie_heap C) = Some (root', h)"
    and ch': "chain k_next h root' (us @ vs)" and bk': "backs k_prev h None (us @ vs)"
    and st: "\<forall>b. map_option (strip k_next_update k_prev_update) (h b) =
      map_option (strip k_next_update k_prev_update) (cookie_heap C b)"
    by (rule cookie_links.unlink_strict)
  have "h b \<noteq> None \<longleftrightarrow> cookie_heap C b \<noteq> None" for b by (rule map_option_live [OF st [rule_format]])
  then have "b < cookies_made C" if "h b = Some z" for b z
    using ok that unfolding cookies_ok_def by (metis not_None_eq)
  with lk p ch' bk' st ok show ?thesis
    by (auto simp: Cookies_Remove_def cookies_ok_def cookie_body_def algebra_simps)
qed

lemma HaveAttachedSockets_ok: "cookies_ok C as \<Longrightarrow> HaveAttachedSockets C = Some (as \<noteq> [])"
  by (cases as) (auto simp: cookies_ok_def HaveAttachedSockets_def)

section \<open>The queue of deferred packets: facts\<close>

lemma clear_deferred_None [simp]: "clear_deferred None D = Some (D, [])"
  by (simp add: clear_deferred.simps)

lemma send_deferred_None [simp]: "send_deferred fails so None D = Some (D, [])"
  by (simp add: send_deferred.simps)

definition freed_events :: "DeferredData \<Rightarrow> mbuf_event list" where
  "freed_events d = [Freem (d_data d), Freem (d_control d)]"

lemma clear_deferred_chain:
  "chain d_next D p ds \<Longrightarrow>
   \<exists>D'. clear_deferred p D = Some (D', concat (map (\<lambda>n. freed_events (the (D n))) ds)) \<and>
     (\<forall>b. D' b = (if b \<in> set ds then None else D b))"
proof (induction ds arbitrary: p D)
  case (Cons n ds)
  then obtain d where d: "p = Some n" "D n = Some d" "chain d_next D (d_next d) ds" by auto
  have dist: "n \<notin> set ds" using chain_head_notin_tail [OF Cons.prems] .
  from d(3) dist have "chain d_next (D(n := None)) (d_next d) ds" by simp
  from Cons.IH [OF this] obtain D' where D': "clear_deferred (d_next d) (D(n := None)) =
      Some (D', concat (map (\<lambda>b. freed_events (the ((D(n := None)) b))) ds))"
    "\<forall>b. D' b = (if b \<in> set ds then None else (D(n := None)) b)" by blast
  have eq: "map (\<lambda>b. freed_events (the ((D(n := None)) b))) ds = map (\<lambda>b. freed_events (the (D b))) ds"
    using dist by (intro map_cong) auto
  from D'(1) have "clear_deferred (d_next d) (D(n := None)) = Some (D', concat (map (\<lambda>b. freed_events (the (D b))) ds))"
    by (simp only: eq)
  with D'(2) d show ?case by (simp add: clear_deferred.simps [of "Some n" D] freed_events_def)
qed simp

lemma send_deferred_chain:
  "chain d_next D p ds \<Longrightarrow>
   \<exists>D'. send_deferred fails so p D = Some (D', concat (map (\<lambda>n. send_events fails so (the (D n))) ds)) \<and>
     (\<forall>b. D' b = (if b \<in> set ds then None else D b))"
proof (induction ds arbitrary: p D)
  case (Cons n ds)
  then obtain d where d: "p = Some n" "D n = Some d" "chain d_next D (d_next d) ds" by auto
  have dist: "n \<notin> set ds" using chain_head_notin_tail [OF Cons.prems] .
  from d(3) dist have "chain d_next (D(n := None)) (d_next d) ds" by simp
  from Cons.IH [OF this] obtain D' where D': "send_deferred fails so (d_next d) (D(n := None)) =
      Some (D', concat (map (\<lambda>b. send_events fails so (the ((D(n := None)) b))) ds))"
    "\<forall>b. D' b = (if b \<in> set ds then None else (D(n := None)) b)" by blast
  have eq: "map (\<lambda>b. send_events fails so (the ((D(n := None)) b))) ds = map (\<lambda>b. send_events fails so (the (D b))) ds"
    using dist by (intro map_cong) auto
  from D'(1) have "send_deferred fails so (d_next d) (D(n := None)) =
      Some (D', concat (map (\<lambda>b. send_events fails so (the (D b))) ds))"
    by (simp only: eq)
  with D'(2) d show ?case by (simp add: send_deferred.simps [of fails so "Some n" D])
qed simp

text \<open>What the kernel's \<open>operator new\<close> promises of fresh memory: it is zero.\<close>

definition cleared :: "DeferredData \<Rightarrow> bool" where
  "cleared fresh \<longleftrightarrow> \<not> d_direction fresh \<and> d_next fresh = None \<and> d_address fresh = [0]"

text \<open>The bytes behind the structure: those of the address, or the one zero byte of the fresh memory.\<close>

definition stored :: "u8 list \<Rightarrow> u8 list" where
  "stored bytes = (if bytes = [] then [0] else bytes)"

text \<open>The packets of a cookie's queue, in order.\<close>

definition deferred_ok :: "SocketCookies \<Rightarrow> addr \<Rightarrow> addr list \<Rightarrow> bool" where
  "deferred_ok C a ds \<longleftrightarrow> (\<exists>c. cookie_heap C a = Some c \<and>
     queue_at d_next (deferred_heap C) (deferredDataHead c) (deferredDataLast c) ds) \<and>
     (\<forall>n d. deferred_heap C n = Some d \<longrightarrow> n < deferred_made C)"

definition packet :: "DeferredData \<Rightarrow> ptr \<times> ptr \<times> u32 \<times> bool \<times> u8 list" where
  "packet d = (d_data d, d_control d, d_flags d, d_direction d, d_address d)"

definition packets :: "DeferredData heap \<Rightarrow> addr list \<Rightarrow> (ptr \<times> ptr \<times> u32 \<times> bool \<times> u8 list) list" where
  "packets D ds = map (\<lambda>n. packet (the (D n))) ds"

lemma AddDeferredData_ok:
  assumes ok: "deferred_ok C a ds" and g: "grants k NewDeferred (deferred_made C)"
    and sa: "copy_sockaddr sa = Some bytes" and fm: "cleared fresh"
  shows "\<exists>C'. AddDeferredData k fresh a direction data control flags (Some sa) C = Some (True, C') \<and>
    deferred_ok C' a (ds @ [deferred_made C]) \<and>
    packets (deferred_heap C') (ds @ [deferred_made C]) =
      packets (deferred_heap C) ds @ [(data, control, flags, False, stored bytes)] \<and>
    map_option socket (cookie_heap C' a) = map_option socket (cookie_heap C a) \<and>
    mbuf_events C' = mbuf_events C"
proof -
  let ?n = "deferred_made C"
  let ?d = "fresh\<lparr>d_data := data, d_control := control, d_flags := flags,
    d_address := (if bytes = [] then d_address fresh else bytes)\<rparr>"
  let ?D = "(deferred_heap C)(?n \<mapsto> ?d)"
  from ok obtain c where c: "cookie_heap C a = Some c"
    and q: "queue_at d_next (deferred_heap C) (deferredDataHead c) (deferredDataLast c) ds"
    and bound: "\<forall>n d. deferred_heap C n = Some d \<longrightarrow> n < ?n" by (auto simp: deferred_ok_def)
  have new: "?n \<notin> set ds" using q bound by (auto simp: queue_at_def dest!: chain_allocated)
  have "queue_at d_next ?D (deferredDataHead c) (deferredDataLast c) ds"
    using q new by (simp add: queue_at_def)
  then obtain h D' where e: "enqueue d_next_update ?n (deferredDataHead c, deferredDataLast c, ?D) = Some (h, Some ?n, D')"
    and q': "queue_at d_next D' h (Some ?n) (ds @ [?n])" and fr: "\<forall>b. b \<notin> set ds \<longrightarrow> D' b = ?D b"
    and pay: "\<forall>b. D' b = ?D b \<or> (\<exists>y. ?D b = Some y \<and> D' b = Some (y\<lparr>d_next := Some ?n\<rparr>))"
    by (rule deferred_link.enqueue_queue [of ?D _ _ ds ?n ?d]) (use new fm in \<open>auto simp: cleared_def\<close>)
  from sa obtain len where len: "rd_u8 sa 0 = Some len" "peek 0 (unat len) sa = Some bytes"
    by (auto simp: copy_sockaddr_def split: bind_splits)
  let ?C = "C\<lparr>deferred_heap := D', deferred_made := Suc ?n,
    cookie_heap := (cookie_heap C)(a \<mapsto> c\<lparr>deferredDataHead := h, deferredDataLast := Some ?n\<rparr>)\<rparr>"
  have "AddDeferredData k fresh a direction data control flags (Some sa) C = Some (True, ?C)"
    using c len g e by (simp add: AddDeferredData_def Let_def)
  moreover have "n < Suc ?n" if "D' n = Some d" for n d
  proof (cases "n = ?n")
    case False
    with pay [rule_format, of n] that have "deferred_heap C n \<noteq> None" by fastforce
    then obtain y where "deferred_heap C n = Some y" by auto
    with bound show ?thesis by (simp add: less_Suc_eq)
  qed simp
  then have "deferred_ok ?C a (ds @ [?n])" using q' by (auto simp: deferred_ok_def)
  moreover have same: "packet (the (D' b)) = packet (the (?D b))" for b
    using pay [rule_format, of b] by (auto simp: packet_def)
  have "packets D' (ds @ [?n]) = packets ?D (ds @ [?n])" by (simp only: packets_def same)
  moreover have "packets ?D ds = packets (deferred_heap C) ds" using new by (auto simp: packets_def)
  ultimately show ?thesis using c fm by (auto simp: packets_def packet_def cleared_def stored_def)
qed

lemma ClearDeferredData_ok:
  assumes ok: "deferred_ok C a ds"
  shows "\<exists>C'. ClearDeferredData a C = Some (True, C') \<and> deferred_ok C' a [] \<and>
    mbuf_events C' = mbuf_events C @ concat (map (\<lambda>n. freed_events (the (deferred_heap C n))) ds) \<and>
    (\<forall>n\<in>set ds. deferred_heap C' n = None)"
proof -
  from ok obtain c where c: "cookie_heap C a = Some c"
    and ch: "chain d_next (deferred_heap C) (deferredDataHead c) ds"
    and bound: "\<forall>n d. deferred_heap C n = Some d \<longrightarrow> n < deferred_made C"
    by (auto simp: deferred_ok_def queue_at_def)
  from clear_deferred_chain [OF ch] obtain D' where
    "clear_deferred (deferredDataHead c) (deferred_heap C) =
       Some (D', concat (map (\<lambda>n. freed_events (the (deferred_heap C n))) ds))"
    "\<forall>b. D' b = (if b \<in> set ds then None else deferred_heap C b)" by blast
  with c bound show ?thesis by (auto simp: ClearDeferredData_def deferred_ok_def queue_at_def split: if_splits)
qed

lemma SendDeferredData_ok:
  assumes ok: "deferred_ok C a ds" and c: "cookie_heap C a = Some c"
  shows "\<exists>C'. SendDeferredData fails a C = Some (True, C') \<and> deferred_ok C' a [] \<and>
    mbuf_events C' = mbuf_events C @ concat (map (\<lambda>n. send_events fails (socket c) (the (deferred_heap C n))) ds) \<and>
    (\<forall>n\<in>set ds. deferred_heap C' n = None)"
proof -
  from ok c have ch: "chain d_next (deferred_heap C) (deferredDataHead c) ds"
    and bound: "\<forall>n d. deferred_heap C n = Some d \<longrightarrow> n < deferred_made C"
    by (auto simp: deferred_ok_def queue_at_def)
  from send_deferred_chain [OF ch, of fails "socket c"] obtain D' where
    "send_deferred fails (socket c) (deferredDataHead c) (deferred_heap C) =
       Some (D', concat (map (\<lambda>n. send_events fails (socket c) (the (deferred_heap C n))) ds))"
    "\<forall>b. D' b = (if b \<in> set ds then None else deferred_heap C b)" by blast
  with c bound show ?thesis by (auto simp: SendDeferredData_def deferred_ok_def queue_at_def split: if_splits)
qed

section \<open>Deferring a sequence of packets\<close>

text \<open>
  The calls of \<open>AddDeferredData\<close> on one cookie, in the order they come. Every call refines the
  extension of a list of packets, in which the direction asked for is lost.
\<close>

type_synonym packet = "bool \<times> ptr \<times> ptr \<times> u32 \<times> u8 list"

definition defer_op :: "kernel \<Rightarrow> DeferredData \<Rightarrow> addr \<Rightarrow> packet \<Rightarrow> SocketCookies \<Rightarrow> SocketCookies option" where
  "defer_op k fresh a x C = (case x of (direction, data, control, flags, sa) \<Rightarrow>
     map_option snd (AddDeferredData k fresh a direction data control flags (Some sa) C))"

definition defer_ok :: "kernel \<Rightarrow> DeferredData \<Rightarrow> packet \<Rightarrow> bool" where
  "defer_ok k fresh x \<longleftrightarrow> cleared fresh \<and> (\<forall>n. grants k NewDeferred n) \<and> (case x of (_, _, _, _, sa) \<Rightarrow> copy_sockaddr sa \<noteq> None)"

definition deferring :: "u64 \<Rightarrow> addr \<Rightarrow> mbuf_event list \<Rightarrow> SocketCookies \<Rightarrow>
    (ptr \<times> ptr \<times> u32 \<times> bool \<times> u8 list) list \<Rightarrow> bool" where
  "deferring so a es C xs \<longleftrightarrow> (\<exists>ds. deferred_ok C a ds \<and> packets (deferred_heap C) ds = xs) \<and>
     map_option socket (cookie_heap C a) = Some so \<and> mbuf_events C = es"

definition defer_spec :: "packet \<Rightarrow> (ptr \<times> ptr \<times> u32 \<times> bool \<times> u8 list) list \<Rightarrow>
    (ptr \<times> ptr \<times> u32 \<times> bool \<times> u8 list) list" where
  "defer_spec x xs = (case x of (_, data, control, flags, sa) \<Rightarrow>
     xs @ [(data, control, flags, False, stored (the (copy_sockaddr sa)))])"

lemma defer_op_simulated:
  assumes r: "deferring so a es C xs" and x: "defer_ok k fresh x"
  shows "\<exists>C'. defer_op k fresh a x C = Some C' \<and> deferring so a es C' (defer_spec x xs)"
proof -
  obtain direction data control flags sa where xx: "x = (direction, data, control, flags, sa)" by (cases x)
  from x xx obtain bytes where b: "copy_sockaddr sa = Some bytes" "cleared fresh" and g: "grants k NewDeferred (deferred_made C)"
    by (auto simp: defer_ok_def)
  from r obtain ds where ds: "deferred_ok C a ds" "packets (deferred_heap C) ds = xs" by (auto simp: deferring_def)
  from AddDeferredData_ok [OF ds(1) g b(1) b(2), of direction data control flags] r xx b(1) ds(2) show ?thesis
    by (auto simp: deferring_def defer_op_def defer_spec_def)
qed

interpretation deferred: simulation "deferring so a es" "defer_ok k fresh" "defer_op k fresh a" defer_spec for so a es k fresh
  by unfold_locales (rule defer_op_simulated)

lemma fold_defer_spec: "fold defer_spec ops xs = xs @ map (\<lambda>(_, data, control, flags, sa).
    (data, control, flags, False, stored (the (copy_sockaddr sa)))) ops"
  by (induction ops arbitrary: xs) (auto simp: defer_spec_def)

lemma events_of_packets:
  assumes "\<forall>y\<in>set (packets D ds). \<not> fst (snd (snd (snd y)))"
  shows "concat (map (\<lambda>n. send_events fails so (the (D n))) ds) =
    map (\<lambda>(data, control, flags, _, bytes).
      InjectOut so (case bytes of [] \<Rightarrow> None | b # bs \<Rightarrow> if b = 0 then None else Some (b # bs)) data control flags)
      (packets D ds)"
  using assms by (induction ds) (auto simp: packets_def packet_def send_events_def GetSockAddress_def)

section \<open>Properties\<close>

text \<open>C26. Deferred packets leave in the order in which they were deferred, all of them outwards, provided
  that the kernel's \<open>operator new\<close> clears memory (the code writes neither the direction nor the link of a new
  packet), that every allocation is granted and that every packet has a non-NULL address whose \<open>sa_len\<close> bytes can
  be read (a NULL address faults). Whatever such packets are deferred on an empty queue, each with the direction
  it travels in, no call faults, and
  \<open>SendDeferredData\<close> injects exactly these packets, once each and in order, on the cookie's socket with their
  control data, flags and address; every one of them is injected with \<open>sock_inject_data_out\<close>, the inbound ones
  too, because the direction is not stored. The queue is empty afterwards.\<close>

theorem deferred_fifo:
  assumes "\<not> d_direction fresh \<and> d_next fresh = None \<and> d_address fresh = [0]"
    and "\<forall>n. grants k NewDeferred n" and "deferring so a es C []"
    and "\<forall>x\<in>set ops. \<forall>direction data control flags sa. x = (direction, data, control, flags, sa) \<longrightarrow> copy_sockaddr sa \<noteq> None"
  shows "\<exists>C1 C2. run_all (defer_op k fresh a) ops C = Some C1 \<and> SendDeferredData fails a C1 = Some (True, C2) \<and>
    mbuf_events C2 = mbuf_events C @ map (\<lambda>(_, data, control, flags, sa).
      InjectOut so (case the (copy_sockaddr sa) of [] \<Rightarrow> None | b # bs \<Rightarrow> if b = 0 then None else Some (b # bs))
        data control flags) ops \<and>
    deferred_ok C2 a []"
proof -
  have "list_all (defer_ok k fresh) ops" using assms(1,2,4) by (fastforce simp: list_all_iff defer_ok_def cleared_def)
  with deferred.runs_simulated [OF assms(3)] obtain C1 where
    C1: "run_all (defer_op k fresh a) ops C = Some C1" "deferring so a es C1 (fold defer_spec ops [])" by blast
  then obtain ds c where ds: "deferred_ok C1 a ds" "cookie_heap C1 a = Some c" "socket c = so" "mbuf_events C1 = es"
    and p: "packets (deferred_heap C1) ds = map (\<lambda>(_, data, control, flags, sa).
      (data, control, flags, False, stored (the (copy_sockaddr sa)))) ops"
    by (auto simp: deferring_def fold_defer_spec)
  have "\<forall>y\<in>set (packets (deferred_heap C1) ds). \<not> fst (snd (snd (snd y)))" by (auto simp: p)
  note ev = events_of_packets [OF this, of fails so]
  have st: "(case stored bytes of [] \<Rightarrow> None | b # bs \<Rightarrow> if b = 0 then None else Some (b # bs)) =
      (case bytes of [] \<Rightarrow> None | b # bs \<Rightarrow> if b = 0 then None else Some (b # bs))" for bytes
    by (simp add: stored_def)
  from SendDeferredData_ok [OF ds(1,2), of fails] obtain C2 where
    C2: "SendDeferredData fails a C1 = Some (True, C2)" "deferred_ok C2 a []"
      "mbuf_events C2 = mbuf_events C1 @ concat (map (\<lambda>n. send_events fails (socket c) (the (deferred_heap C1 n))) ds)"
    by blast
  have "mbuf_events C = es" using assms(3) by (simp add: deferring_def)
  with C1(1) C2 show ?thesis unfolding ds(3,4) ev p by (auto simp: comp_def split_def st)
qed

definition demo_cookies :: SocketCookies where
  "demo_cookies = \<lparr>cookies_lock = Lock, socketCookies = Some 0, countAttachedCookies = 1,
     cookie_heap = [0 \<mapsto> \<lparr>application = None, state = None, socket = 7, sockDomain = 2, sockType = 1, sockProtocol = 6,
       obtainedRuleTime = 0, deferredDataHead = None, deferredDataLast = None, cookie_rule = None,
       sa_from = None, sa_to = None, k_prev = None, k_next = None\<rparr>],
     cookies_made = 1, deferred_heap = Map.empty, deferred_made = 0, mbuf_events = []\<rparr>"

definition demo_fresh :: DeferredData where
  "demo_fresh = \<lparr>d_data = None, d_control = None, d_flags = 0, d_direction = False, d_next = None, d_address = [0]\<rparr>"

lemma deferred_fifo_witness:
  "\<exists>C1 C2. run_all (defer_op plain_kernel demo_fresh 0)
      [(True, Some 1, None, 0, [3, 2, 9]), (False, Some 2, None, 0, [0])] demo_cookies
      = Some C1 \<and> SendDeferredData (\<lambda>_. False) 0 C1 = Some (True, C2) \<and>
    mbuf_events C2 = [InjectOut 7 (Some [3, 2, 9]) (Some 1) None 0, InjectOut 7 None (Some 2) None 0]"
proof -
  have d: "deferring 7 0 [] demo_cookies []"
    by (auto simp: deferring_def deferred_ok_def demo_cookies_def packets_def queue_at_def)
  have e: "mbuf_events demo_cookies = []" by (simp add: demo_cookies_def)
  have c: "copy_sockaddr [3, 2, 9] = Some [3, 2, 9]" "copy_sockaddr [0] = Some []" by code_simp+
  have f: "\<not> d_direction demo_fresh \<and> d_next demo_fresh = None \<and> d_address demo_fresh = [0]" by (simp add: demo_fresh_def)
  show ?thesis
    using deferred_fifo [OF f _ d, of plain_kernel "[(True, Some 1, None, 0, [3, 2, 9]), (False, Some 2, None, 0, [0])]" "\<lambda>_. False"] c e
    by (simp del: run_all.simps) blast
qed

end
