(* ===== verification/SendThread.thy ===== *)
theory SendThread
  imports Client "HOL-Library.Sublist"
begin

text \<open>
  The thread of a client that delivers its queue (\<open>Client::SendThread\<close> of Kext/client.cpp),
  interleaved with what the rest of the extension does to the client: posting messages and
  disconnecting. One step of the thread is the code between two points where others can act; a
  point is a value of \<open>pc\<close>, which also holds the local variable \<open>node\<close>.

  What the kernel answers (\<open>ctl_getenqueuespace\<close>, \<open>ctl_enqueuedata\<close>) is an argument of the step.
  \<open>IOLockWakeup\<close> wakes a thread that sleeps in \<open>IOLockSleep\<close> and is lost otherwise; every client sleeps on
  event 0, so the wake-ups of the other clients reach this thread too (step \<open>Wakeup\<close>). \<open>st_sent\<close> is
  what the kernel accepted, \<open>st_posted\<close> and \<open>st_perfect\<close> are ghosts of the specification: what was
  queued, and whether every attempt to send has succeeded.
\<close>

datatype pc =
    Starting \<comment> \<open>not yet run\<close>
  | Sleeping \<comment> \<open>in IOLockSleep\<close>
  | Awake \<comment> \<open>before the first test of exitState\<close>
  | Delayed \<comment> \<open>after IOSleep, before the second test\<close>
  | Draining ptr \<comment> \<open>head of the inner loop, with node\<close>
  | Attempted addr \<comment> \<open>after the do-while(false), with node\<close>
  | Leaving ptr \<comment> \<open>exitAndClearQueue, with node\<close>
  | Exiting \<comment> \<open>exit\<close>
  | Terminated

record SendState =
  st_clients :: "Client heap"
  st_mail :: Mail
  st_pc :: pc
  st_connected :: bool
  st_sent :: "u8 list list"
  st_posted :: "u8 list list"
  st_perfect :: bool

section \<open>The steps\<close>

definition thread_step :: "kernel \<Rightarrow> addr \<Rightarrow> nat \<Rightarrow> bool \<Rightarrow> SendState \<Rightarrow> SendState option" where
  "thread_step k a space accepted S = (let H = st_clients S; M = st_mail S in
     case st_pc S of
       Starting \<Rightarrow> do {
         c \<leftarrow> H a;
         Some (S\<lparr>st_clients := H(a \<mapsto> snd (Retain k c)), st_pc := Sleeping\<rparr>)
       }
     | Sleeping \<Rightarrow> Some S
     | Awake \<Rightarrow> do {
         c \<leftarrow> H a;
         Some (S\<lparr>st_pc := (if exitState c \<noteq> 0 then Exiting else Delayed)\<rparr>)
       }
     | Delayed \<Rightarrow> do {
         c \<leftarrow> H a;
         if exitState c \<noteq> 0 then Some (S\<lparr>st_pc := Leaving None\<rparr>)
         else if lockQueue c = Lock then
           Some (S\<lparr>st_clients := H(a \<mapsto> c\<lparr>messageQueueHead := None, messageQueueLast := None\<rparr>),
                  st_pc := Draining (messageQueueHead c)\<rparr>)
         else None
       }
     | Draining None \<Rightarrow> Some (S\<lparr>st_pc := Sleeping\<rparr>)
     | Draining (Some n) \<Rightarrow> do {
         c \<leftarrow> H a;
         if exitState c \<noteq> 0 then Some (S\<lparr>st_pc := Leaving (Some n)\<rparr>)
         else do {
           x \<leftarrow> nodes M n;
           m \<leftarrow> deref (messages M) (n_message x);
           size \<leftarrow> raw_size m;
           if space < unat size then Some (S\<lparr>st_pc := Attempted n, st_perfect := False\<rparr>)
           else do {
             bytes \<leftarrow> peek 0 (unat size) (raw m);
             Some (if accepted then S\<lparr>st_pc := Attempted n, st_sent := st_sent S @ [bytes]\<rparr>
                   else S\<lparr>st_pc := Attempted n, st_perfect := False\<rparr>)
           }
         }
       }
     | Attempted n \<Rightarrow> do {
         c \<leftarrow> H a;
         if exitState c \<noteq> 0 then Some (S\<lparr>st_pc := Leaving (Some n)\<rparr>)
         else do {
           x \<leftarrow> nodes M n;
           ms \<leftarrow> release_at k (n_message x) (messages M);
           Some (S\<lparr>st_mail := M\<lparr>messages := ms, nodes := (nodes M)(n := None)\<rparr>,
                   st_pc := Draining (n_next x)\<rparr>)
         }
       }
     | Leaving node \<Rightarrow> do {
         M' \<leftarrow> ClearQueue k node M;
         Some (S\<lparr>st_mail := M', st_pc := Exiting\<rparr>)
       }
     | Exiting \<Rightarrow> do {
         (H', M') \<leftarrow> release_client k a (H, M);
         Some (S\<lparr>st_clients := H', st_mail := M', st_pc := Terminated\<rparr>)
       }
     | Terminated \<Rightarrow> Some S)"

definition wake :: "pc \<Rightarrow> pc" where
  "wake p = (if p = Sleeping then Awake else p)"

text \<open>
  A handler makes a message, sends it to the client and releases it. The bytes a receiver gets are
  the first \<open>raw.size\<close> bytes of the buffer.
\<close>

definition wire :: "u8 list \<Rightarrow> u8 list" where
  "wire b = (case rd_u16 b 0 of None \<Rightarrow> [] | Some sz \<Rightarrow> take (unat sz) b)"

definition post_event :: "kernel \<Rightarrow> addr \<Rightarrow> Message \<Rightarrow> SendState \<Rightarrow> SendState option" where
  "post_event k a x S = (let M = st_mail S; m = messages_made M in do {
     c \<leftarrow> st_clients S a;
     (c', M1) \<leftarrow> Client_Send k (Some m) c
        (M\<lparr>messages := (messages M)(m \<mapsto> x), messages_made := Suc m\<rparr>);
     ms \<leftarrow> release_at k (Some m) (messages M1);
     Some (if posts k M c x
       then S\<lparr>st_clients := (st_clients S)(a \<mapsto> c'), st_mail := M1\<lparr>messages := ms\<rparr>,
              st_pc := wake (st_pc S), st_posted := st_posted S @ [wire (raw x)]\<rparr>
       else S\<lparr>st_clients := (st_clients S)(a \<mapsto> c'), st_mail := M1\<lparr>messages := ms\<rparr>\<rparr>)
   })"

text \<open>What \<open>KcDisconnect\<close> does to the client it has unlinked: \<open>CloseSignal(); Release();\<close>\<close>

definition disconnect_event :: "kernel \<Rightarrow> addr \<Rightarrow> SendState \<Rightarrow> SendState option" where
  "disconnect_event k a S = do {
     c \<leftarrow> st_clients S a;
     (H, M) \<leftarrow> release_client k a ((st_clients S)(a \<mapsto> CloseSignal k c), st_mail S);
     Some (S\<lparr>st_clients := H, st_mail := M, st_pc := wake (st_pc S), st_connected := False\<rparr>)
   }"

text \<open>
  One step of the whole. \<open>Wakeup\<close> is a wake-up on event 0 that the send or the disconnect of another client
  issues (client.cpp names the event 0 for every client); it may come at any time. \<open>KcDisconnect\<close> is taken to come after the thread's first instructions;
  the other order is \<open>disconnect_before_start\<close> below. The bound on the nodes keeps the 32-bit
  reference counts from wrapping.
\<close>

inductive mailbox_step :: "kernel \<Rightarrow> addr \<Rightarrow> SendState \<Rightarrow> SendState option \<Rightarrow> bool" for k a where
  Post: "st_connected S \<Longrightarrow> message_ok ty x \<Longrightarrow> nodes_made (st_mail S) + 2 < 2 ^ 32 \<Longrightarrow>
    mailbox_step k a S (post_event k a x S)"
| Disconnect: "st_connected S \<Longrightarrow> st_pc S \<noteq> Starting \<Longrightarrow> mailbox_step k a S (disconnect_event k a S)"
| Run: "mailbox_step k a S (thread_step k a space accepted S)"
| Wakeup: "mailbox_step k a S (Some (S\<lparr>st_pc := wake (st_pc S)\<rparr>))"

inductive mailbox_reach :: "kernel \<Rightarrow> addr \<Rightarrow> SendState \<Rightarrow> SendState \<Rightarrow> bool" for k a S where
  reach_start: "mailbox_reach k a S S"
| reach_step: "mailbox_reach k a S T \<Longrightarrow> mailbox_step k a T (Some U) \<Longrightarrow> mailbox_reach k a S U"

inductive_cases mailbox_stepE: "mailbox_step k a S R"
inductive_simps mailbox_step_iff: "mailbox_step k a S R"

text \<open>A client just connected: \<open>InitWithClient\<close> has returned, the thread has not run.\<close>

definition connected_state :: "addr \<Rightarrow> Client \<Rightarrow> SendState" where
  "connected_state a c = \<lparr>st_clients = [a \<mapsto> c],
     st_mail = \<lparr>messages = Map.empty, nodes = Map.empty, messages_made = 0, nodes_made = 0\<rparr>,
     st_pc = Starting, st_connected = True, st_sent = [], st_posted = [], st_perfect = True\<rparr>"

section \<open>The invariant\<close>

text \<open>The bytes a node stands for.\<close>

definition node_wire :: "Mail \<Rightarrow> addr \<Rightarrow> u8 list option" where
  "node_wire M n = do {
     x \<leftarrow> nodes M n; m \<leftarrow> n_message x; y \<leftarrow> messages M m; Some (wire (raw y)) }"

fun local_node :: "pc \<Rightarrow> ptr" where
  "local_node (Draining p) = p"
| "local_node (Attempted n) = Some n"
| "local_node (Leaving p) = p"
| "local_node _ = None"

fun attempted :: "pc \<Rightarrow> bool" where
  "attempted (Attempted n) = True"
| "attempted _ = False"

definition owners :: "SendState \<Rightarrow> nat" where
  "owners S = (if st_connected S then 1 else 0) + (if st_pc S \<in> {Starting, Terminated} then 0 else 1)"

text \<open>
  \<open>as\<close> are the nodes of the queue, \<open>bs\<close> those the thread has taken and not yet given back. While the
  client lives, these are all the nodes there are; the messages posted are those already attempted,
  then those of \<open>bs\<close>, then those of \<open>as\<close>, and what was sent is a subsequence of those attempted.
\<close>

fun leaving :: "pc \<Rightarrow> bool" where
  "leaving (Leaving p) = True"
| "leaving Exiting = True"
| "leaving Terminated = True"
| "leaving _ = False"

definition pending :: "SendState \<Rightarrow> addr list \<Rightarrow> addr list \<Rightarrow> addr list" where
  "pending S as bs = (if attempted (st_pc S) then tl bs else bs) @ as"

definition fifo :: "SendState \<Rightarrow> addr list \<Rightarrow> addr list \<Rightarrow> bool" where
  "fifo S as bs \<longleftrightarrow> (\<exists>tried rest. st_posted S = tried @ rest \<and>
     subseq (st_sent S) tried \<and> (st_perfect S \<longrightarrow> st_sent S = tried) \<and>
     (leaving (st_pc S) \<or> map (node_wire (st_mail S)) (pending S as bs) = map Some rest))"

definition mailbox_ok :: "addr \<Rightarrow> SendState \<Rightarrow> addr list \<Rightarrow> addr list \<Rightarrow> bool" where
  "mailbox_ok a S as bs \<longleftrightarrow>
     mail_ok {} (st_mail S) \<and>
     (\<forall>n. nodes (st_mail S) n \<noteq> None \<longleftrightarrow> n \<in> set as \<union> set bs) \<and> set as \<inter> set bs = {} \<and>
     chain n_next (nodes (st_mail S)) (local_node (st_pc S)) bs \<and>
     (st_pc S = Starting \<longrightarrow> st_connected S) \<and> (leaving (st_pc S) \<longrightarrow> \<not> st_connected S) \<and>
     (case st_clients S a of
        None \<Rightarrow> owners S = 0 \<and> as = []
      | Some c \<Rightarrow> queue_ok (nodes (st_mail S)) c as \<and> owners S \<noteq> 0 \<and>
          references c = of_nat (owners S) \<and> exitState c = (if st_connected S then 0 else 1))"


section \<open>Preservation\<close>

lemma queue_ok_cong:
  "(\<And>n. n \<in> set as \<Longrightarrow> N' n = N n) \<Longrightarrow> queue_ok N' c as = queue_ok N c as"
  unfolding queue_ok_def queue_at_def by (subst chain_cong [of as n_next N' N]) auto

lemma node_wire_keep:
  assumes ok: "mail_ok held M" and ok': "mail_ok held' M'" and n: "nodes M n \<noteq> None"
    and same: "map_option n_message (nodes M' n) = map_option n_message (nodes M n)"
    and raws: "\<And>b. messages M b \<noteq> None \<Longrightarrow> messages M' b \<noteq> None \<Longrightarrow>
      map_option raw (messages M' b) = map_option raw (messages M b)"
  shows "node_wire M' n = node_wire M n"
proof -
  from n obtain x where x: "nodes M n = Some x" by auto
  with same obtain x' where x': "nodes M' n = Some x'" "n_message x' = n_message x" by auto
  from mail_okD(4) [OF ok x] mail_okD(4) [OF ok' x'(1)] x' obtain m y y' where
    m: "n_message x = Some m" "messages M m = Some y" "messages M' m = Some y'" by auto
  with raws [of m] have "raw y' = raw y" by simp
  with x x' m show ?thesis by (simp add: node_wire_def)
qed

lemma node_wires_keep:
  assumes "mail_ok held M" and "mail_ok held' M'"
    and "\<And>n. n \<in> set ns \<Longrightarrow> nodes M n \<noteq> None \<and> map_option n_message (nodes M' n) = map_option n_message (nodes M n)"
    and "\<And>b. messages M b \<noteq> None \<Longrightarrow> messages M' b \<noteq> None \<Longrightarrow>
      map_option raw (messages M' b) = map_option raw (messages M b)"
  shows "map (node_wire M') ns = map (node_wire M) ns"
  using assms by (auto intro!: node_wire_keep)

lemma wire_sendable: "sendable y \<Longrightarrow> raw_size y = Some sz \<Longrightarrow> peek 0 (unat sz) (raw y) = Some (wire (raw y))"
  by (auto simp: sendable_def raw_size_def wire_def peek_def)

lemma mailbox_client:
  assumes "mailbox_ok a S as bs" and "st_pc S \<notin> {Starting, Terminated} \<or> st_connected S"
  obtains c where "st_clients S a = Some c" "queue_ok (nodes (st_mail S)) c as"
    "references c = of_nat (owners S)" "exitState c = (if st_connected S then 0 else 1)"
proof (cases "st_clients S a")
  case None
  with assms show thesis by (auto simp: mailbox_ok_def owners_def split: if_splits)
next
  case (Some c)
  with assms that show thesis by (auto simp: mailbox_ok_def)
qed

lemmas mailbox_simps = mailbox_ok_def owners_def fifo_def pending_def

text \<open>A step that sends nothing and keeps what is pending.\<close>

lemma fifo_same:
  assumes "fifo S as bs" and "st_posted S' = st_posted S" and "st_sent S' = st_sent S" and "st_perfect S' = st_perfect S"
    and "\<not> leaving (st_pc S') \<Longrightarrow> \<not> leaving (st_pc S) \<and>
      map (node_wire (st_mail S')) (pending S' as' bs') = map (node_wire (st_mail S)) (pending S as bs)"
  shows "fifo S' as' bs'"
  using assms unfolding fifo_def by (cases "leaving (st_pc S')") (simp_all, blast)

lemma step_starting:
  assumes k: "atomics_documented k" and ok: "mailbox_ok a S as bs" and f: "fifo S as bs" and pc: "st_pc S = Starting"
  shows "\<exists>S'. thread_step k a space accepted S = Some S' \<and> mailbox_ok a S' as bs \<and> fifo S' as bs"
proof -
  from ok pc have "st_connected S" by (simp add: mailbox_ok_def)
  with ok obtain c where c: "st_clients S a = Some c" "queue_ok (nodes (st_mail S)) c as"
    "references c = of_nat (owners S)" "exitState c = 0"
    by (auto elim!: mailbox_client)
  have "queue_ok (nodes (st_mail S)) (c\<lparr>references := 2\<rparr>) as" using c(2) by (simp add: queue_ok_def)
  then show ?thesis
    using k ok f c pc \<open>st_connected S\<close>
    by (auto simp: thread_step_def Retain_documented mailbox_simps)
qed

lemma step_awake:
  assumes ok: "mailbox_ok a S as bs" and f: "fifo S as bs" and pc: "st_pc S = Awake"
  shows "\<exists>S'. thread_step k a space accepted S = Some S' \<and> mailbox_ok a S' as bs \<and> fifo S' as bs"
proof -
  from ok pc obtain c where c: "st_clients S a = Some c" "queue_ok (nodes (st_mail S)) c as"
    "references c = of_nat (owners S)" "exitState c = (if st_connected S then 0 else 1)"
    by (auto elim!: mailbox_client)
  then show ?thesis
    using ok f pc by (auto simp: thread_step_def mailbox_simps split: if_splits)
qed

lemma step_delayed:
  assumes ok: "mailbox_ok a S as bs" and f: "fifo S as bs" and pc: "st_pc S = Delayed"
  shows "\<exists>S' as' bs'. thread_step k a space accepted S = Some S' \<and> mailbox_ok a S' as' bs' \<and> fifo S' as' bs'"
proof -
  from ok pc obtain c where c: "st_clients S a = Some c" "queue_ok (nodes (st_mail S)) c as"
    "references c = of_nat (owners S)" "exitState c = (if st_connected S then 0 else 1)"
    by (auto elim!: mailbox_client)
  show ?thesis
  proof (cases "st_connected S")
    case False
    then show ?thesis
      using ok f pc c by (intro exI [of _ "S\<lparr>st_pc := Leaving None\<rparr>"] exI [of _ as] exI [of _ bs])
        (auto simp: thread_step_def mailbox_simps split: if_splits)
  next
    case True
    have bs: "bs = []" using ok pc by (simp add: mailbox_ok_def)
    let ?c = "c\<lparr>messageQueueHead := None, messageQueueLast := None\<rparr>"
    let ?S = "S\<lparr>st_clients := (st_clients S)(a \<mapsto> ?c), st_pc := Draining (messageQueueHead c)\<rparr>"
    have "thread_step k a space accepted S = Some ?S"
      using c True pc by (simp add: thread_step_def queue_ok_def)
    moreover have "mailbox_ok a ?S [] as"
      using ok c True pc bs by (auto simp: mailbox_simps queue_ok_def queue_at_def)
    moreover have "fifo ?S [] as" using f pc bs by (simp add: fifo_def pending_def)
    ultimately show ?thesis by blast
  qed
qed

lemma step_draining_end:
  assumes ok: "mailbox_ok a S as bs" and f: "fifo S as bs" and pc: "st_pc S = Draining None"
  shows "\<exists>S'. thread_step k a space accepted S = Some S' \<and> mailbox_ok a S' as bs \<and> fifo S' as bs"
proof -
  have "bs = []" using ok pc by (simp add: mailbox_ok_def)
  then show ?thesis
    using ok f pc by (auto simp: thread_step_def mailbox_simps split: option.splits if_splits)
qed

lemma step_draining:
  assumes ok: "mailbox_ok a S as bs" and f: "fifo S as bs" and pc: "st_pc S = Draining (Some n)"
  shows "\<exists>S'. thread_step k a space accepted S = Some S' \<and> mailbox_ok a S' as bs \<and> fifo S' as bs \<and>
    (st_connected S \<longrightarrow> st_pc S' = Attempted n \<and> st_connected S' \<and>
       (accepted \<and> 2 ^ 16 \<le> space \<longrightarrow> st_perfect S' = st_perfect S))"
proof -
  from ok pc obtain c where c: "st_clients S a = Some c" "queue_ok (nodes (st_mail S)) c as"
    "references c = of_nat (owners S)" "exitState c = (if st_connected S then 0 else 1)"
    by (auto elim!: mailbox_client)
  show ?thesis
  proof (cases "st_connected S")
    case False
    then show ?thesis using ok f pc c
      by (intro exI [of _ "S\<lparr>st_pc := Leaving (Some n)\<rparr>"]) (auto simp: thread_step_def mailbox_simps split: if_splits)
  next
    case True
    have mok: "mail_ok {} (st_mail S)" using ok by (simp add: mailbox_ok_def)
    obtain bs' x where bs: "bs = n # bs'" and x: "nodes (st_mail S) n = Some x"
      using ok pc by (cases bs) (auto simp: mailbox_ok_def)
    from mail_okD(4) [OF mok x] obtain m y where m: "n_message x = Some m" "messages (st_mail S) m = Some y" by auto
    have "sendable y" using mail_okD(5) [OF mok m(2)] by simp
    then obtain sz where sz: "raw_size y = Some sz" "peek 0 (unat sz) (raw y) = Some (wire (raw y))"
      using wire_sendable by (auto simp: sendable_def)
    have nw: "node_wire (st_mail S) n = Some (wire (raw y))" using x m by (simp add: node_wire_def)
    have inv: "mailbox_ok a (S\<lparr>st_pc := Attempted n, st_sent := zs, st_perfect := p\<rparr>) as bs" for zs p
      using ok pc bs c by (auto simp: mailbox_simps)
    from f obtain tried rest where t: "st_posted S = tried @ rest" "subseq (st_sent S) tried"
      "st_perfect S \<longrightarrow> st_sent S = tried" "map Some rest = map (node_wire (st_mail S)) (bs @ as)"
      by (force simp: fifo_def pending_def pc)
    from t(4) bs nw obtain rest' where rest: "rest = wire (raw y) # rest'"
      "map Some rest' = map (node_wire (st_mail S)) (bs' @ as)"
      by (cases rest) auto
    let ?tried = "tried @ [wire (raw y)]"
    have fo: "fifo (S\<lparr>st_pc := Attempted n, st_sent := zs, st_perfect := p\<rparr>) as bs"
      if "subseq zs ?tried" "p \<longrightarrow> zs = ?tried" for zs p
      unfolding fifo_def using t(1) rest bs that
      by (intro exI [of _ ?tried] exI [of _ rest']) (auto simp: pending_def)
    have small: "unat sz < 2 ^ 16" using unsigned_less [of sz] by simp
    have s1: "subseq (st_sent S) ?tried" using t(2) by (simp add: list_emb_append_mono [of "(=)" _ _ "[]", simplified])
    have s2: "subseq (st_sent S @ [wire (raw y)]) ?tried" using t(2) by simp
    have step: "thread_step k a space accepted S =
        Some (if \<not> space < unat sz \<and> accepted
              then S\<lparr>st_pc := Attempted n, st_sent := st_sent S @ [wire (raw y)], st_perfect := st_perfect S\<rparr>
              else S\<lparr>st_pc := Attempted n, st_sent := st_sent S, st_perfect := False\<rparr>)"
      using pc c True x m sz by (simp add: thread_step_def)
    show ?thesis
      unfolding step
      using inv [where zs = "st_sent S @ [wire (raw y)]" and p = "st_perfect S"]
        inv [where zs = "st_sent S" and p = False]
        fo [OF s1, of False] fo [OF s2, of "st_perfect S"] t(3) small by auto
  qed
qed

lemma step_attempted_live:
  assumes k: "atomics_documented k" and ok: "mailbox_ok a S as bs" and f: "fifo S as bs" and pc: "st_pc S = Attempted n"
    and con: "st_connected S"
  shows "\<exists>S' p. thread_step k a space accepted S = Some S' \<and> mailbox_ok a S' as (tl bs) \<and> fifo S' as (tl bs) \<and>
    bs \<noteq> [] \<and> st_pc S' = Draining p \<and> st_connected S' \<and> st_perfect S' = st_perfect S"
proof -
  from ok pc obtain c where c: "st_clients S a = Some c" "queue_ok (nodes (st_mail S)) c as"
    "references c = of_nat (owners S)" "exitState c = (if st_connected S then 0 else 1)"
    by (auto elim!: mailbox_client)
  let ?M = "st_mail S"
  have mok: "mail_ok {} ?M" and all: "\<forall>b. nodes ?M b \<noteq> None \<longleftrightarrow> b \<in> set as \<union> set bs"
    and disj: "set as \<inter> set bs = {}" and ch: "chain n_next (nodes ?M) (Some n) bs"
    using ok pc by (auto simp: mailbox_ok_def)
  obtain bs' x where bs: "bs = n # bs'" and x: "nodes ?M n = Some x" "chain n_next (nodes ?M) (n_next x) bs'"
    using ch by (cases bs) auto
  have n: "n \<notin> set as" "n \<notin> set bs'" using disj bs chain_distinct [OF ch] by auto
  from drop_node [OF k mok x(1)] obtain ms where ms: "release_at k (n_message x) (messages ?M) = Some ms"
    "mail_ok {} (?M\<lparr>messages := ms, nodes := (nodes ?M)(n := None)\<rparr>)"
    "\<forall>b. ms b \<noteq> None \<longrightarrow> map_option raw (ms b) = map_option raw (messages ?M b)" by blast
  let ?M' = "?M\<lparr>messages := ms, nodes := (nodes ?M)(n := None)\<rparr>"
  let ?S = "S\<lparr>st_mail := ?M', st_pc := Draining (n_next x)\<rparr>"
  have step: "thread_step k a space accepted S = Some ?S"
    using pc c con x ms by (simp add: thread_step_def Let_def)
  have "queue_ok (nodes ?M') c as = queue_ok (nodes ?M) c as" by (rule queue_ok_cong) (use n in auto)
  then have q: "queue_ok (nodes ?M') c as" using c(2) by (simp only:)
  have inv: "mailbox_ok a ?S as bs'"
    unfolding mailbox_ok_def
    using ms(2) all disj bs x(2) n c q con pc by (auto simp: owners_def)
  have "map (node_wire ?M') (bs' @ as) = map (node_wire ?M) (bs' @ as)"
    by (rule node_wires_keep [OF mok ms(2)]) (use all bs n ms(3) in auto)
  then have "fifo ?S as bs'" by (intro fifo_same [OF f]) (simp_all add: pc bs pending_def)
  with inv step con show ?thesis by (intro exI [of _ ?S] exI [of _ "n_next x"]) (simp add: bs)
qed

lemma step_attempted:
  assumes k: "atomics_documented k" and ok: "mailbox_ok a S as bs" and f: "fifo S as bs" and pc: "st_pc S = Attempted n"
  shows "\<exists>S' bs'. thread_step k a space accepted S = Some S' \<and> mailbox_ok a S' as bs' \<and> fifo S' as bs'"
proof (cases "st_connected S")
  case False
  from ok pc obtain c where c: "st_clients S a = Some c" "queue_ok (nodes (st_mail S)) c as"
    "references c = of_nat (owners S)" "exitState c = (if st_connected S then 0 else 1)"
    by (auto elim!: mailbox_client)
  with False show ?thesis using ok f pc
    by (intro exI [of _ "S\<lparr>st_pc := Leaving (Some n)\<rparr>"] exI [of _ bs]) (auto simp: thread_step_def mailbox_simps split: if_splits)
next
  case True
  from step_attempted_live [OF k ok f pc True] show ?thesis by blast
qed

lemma step_leaving:
  assumes k: "atomics_documented k" and ok: "mailbox_ok a S as bs" and f: "fifo S as bs" and pc: "st_pc S = Leaving p"
  shows "\<exists>S'. thread_step k a space accepted S = Some S' \<and> mailbox_ok a S' as [] \<and> fifo S' as []"
proof -
  from ok pc obtain c where c: "st_clients S a = Some c" "queue_ok (nodes (st_mail S)) c as"
    "references c = of_nat (owners S)" "exitState c = (if st_connected S then 0 else 1)"
    by (auto elim!: mailbox_client)
  let ?M = "st_mail S"
  have mok: "mail_ok {} ?M" and all: "\<forall>b. nodes ?M b \<noteq> None \<longleftrightarrow> b \<in> set as \<union> set bs"
    and disj: "set as \<inter> set bs = {}" and ch: "chain n_next (nodes ?M) p bs" and nc: "\<not> st_connected S"
    using ok pc by (auto simp: mailbox_ok_def)
  from ClearQueue_chain [OF k mok ch] obtain M' where M': "ClearQueue k p ?M = Some M'" "mail_ok {} M'"
    "\<forall>b. nodes M' b = (if b \<in> set bs then None else nodes ?M b)" by blast
  let ?S = "S\<lparr>st_mail := M', st_pc := Exiting\<rparr>"
  have "queue_ok (nodes M') c as = queue_ok (nodes ?M) c as"
    by (rule queue_ok_cong) (use disj M'(3) in auto)
  then have q: "queue_ok (nodes M') c as" using c(2) by (simp only:)
  have "\<forall>b. nodes M' b \<noteq> None \<longleftrightarrow> b \<in> set as" using M'(3) all disj by auto
  then have "mailbox_ok a ?S as []"
    using M'(2) q c nc pc by (auto simp: mailbox_ok_def owners_def)
  moreover have "fifo ?S as []" by (intro fifo_same [OF f]) simp_all
  moreover have "thread_step k a space accepted S = Some ?S" using M'(1) pc by (simp add: thread_step_def)
  ultimately show ?thesis by blast
qed

text \<open>The thread's last act frees the client with what was still queued: nothing remains.\<close>

lemma mail_empty:
  assumes "mail_ok {} M" and "\<forall>n. nodes M n = None"
  shows "messages M = Map.empty"
proof
  fix m
  show "messages M m = None"
  proof (rule ccontr)
    assume "messages M m \<noteq> None"
    then obtain y where "messages M m = Some y" by auto
    from mail_okD(5) [OF assms(1) this] have "0 < refs_to (nodes M) m" by (simp add: counted_def)
    moreover have "holders (nodes M) m = {}" using assms(2) by (simp add: holders_def)
    ultimately show False by (simp add: refs_to_holders)
  qed
qed

lemma step_exiting:
  assumes k: "atomics_documented k" and ok: "mailbox_ok a S as bs" and f: "fifo S as bs" and pc: "st_pc S = Exiting"
  shows "\<exists>S'. thread_step k a space accepted S = Some S' \<and> mailbox_ok a S' [] [] \<and> fifo S' [] []"
proof -
  from ok pc obtain c where c: "st_clients S a = Some c" "queue_ok (nodes (st_mail S)) c as"
    "references c = of_nat (owners S)" "exitState c = (if st_connected S then 0 else 1)"
    by (auto elim!: mailbox_client)
  let ?M = "st_mail S"
  have mok: "mail_ok {} ?M" and all: "\<forall>b. nodes ?M b \<noteq> None \<longleftrightarrow> b \<in> set as" and nc: "\<not> st_connected S"
    using ok pc by (auto simp: mailbox_ok_def)
  have one: "references c = 1" using c(3) nc pc by (simp add: owners_def)
  from release_client_last [where H = "st_clients S", OF k c(1) one mok c(2)] obtain M' where
    M': "release_client k a (st_clients S, ?M) = Some ((st_clients S)(a := None), M')" "mail_ok {} M'"
      "\<forall>b. nodes M' b = (if b \<in> set as then None else nodes ?M b)" by blast
  let ?S = "S\<lparr>st_clients := (st_clients S)(a := None), st_mail := M', st_pc := Terminated\<rparr>"
  have "\<forall>b. nodes M' b = None" using M'(3) all by auto
  then have "mailbox_ok a ?S [] []"
    using M'(2) nc by (simp add: mailbox_ok_def owners_def)
  moreover have "fifo ?S [] []" by (intro fifo_same [OF f]) simp_all
  moreover have "thread_step k a space accepted S = Some ?S" using M'(1) pc by (simp add: thread_step_def)
  ultimately show ?thesis by blast
qed

lemma thread_step_ok:
  assumes k: "atomics_documented k" and ok: "mailbox_ok a S as bs" and f: "fifo S as bs"
  shows "\<exists>S' as' bs'. thread_step k a space accepted S = Some S' \<and> mailbox_ok a S' as' bs' \<and> fifo S' as' bs'"
proof (cases "st_pc S")
  case Starting
  from step_starting [OF k ok f this, of space accepted] show ?thesis by blast
next
  case Awake
  from step_awake [OF ok f this, of k space accepted] show ?thesis by blast
next
  case Delayed
  from step_delayed [OF ok f this, of k space accepted] show ?thesis by blast
next
  case (Draining p)
  show ?thesis
  proof (cases p)
    case None
    with Draining have "st_pc S = Draining None" by simp
    from step_draining_end [OF ok f this, of k space accepted] show ?thesis by blast
  next
    case (Some n)
    with Draining have "st_pc S = Draining (Some n)" by simp
    from step_draining [OF ok f this, of k space accepted] show ?thesis by blast
  qed
next
  case (Attempted n)
  from step_attempted [OF k ok f this, of space accepted] show ?thesis by blast
next
  case (Leaving p)
  from step_leaving [OF k ok f this, of space accepted] show ?thesis by blast
next
  case Exiting
  from step_exiting [OF k ok f this, of space accepted] show ?thesis by blast
qed (use ok f in \<open>auto simp: thread_step_def\<close>)

section \<open>Posting and disconnecting\<close>

lemma wake_pc [simp]:
  "local_node (wake p) = local_node p" "attempted (wake p) = attempted p" "leaving (wake p) = leaving p"
  "wake p = Starting \<longleftrightarrow> p = Starting" "wake p = Terminated \<longleftrightarrow> p = Terminated"
  by (auto simp: wake_def)

text \<open>The mail while the handler holds its new message \<open>m\<close>.\<close>

abbreviation with_message :: "Mail \<Rightarrow> Message \<Rightarrow> Mail" where
  "with_message M x \<equiv> M\<lparr>messages := (messages M)(messages_made M \<mapsto> x), messages_made := Suc (messages_made M)\<rparr>"

lemma pending_subset: "set (pending S as bs) \<subseteq> set as \<union> set bs"
  by (cases bs) (auto simp: pending_def)

lemma post_skip_ok:
  assumes k: "atomics_documented k" and ok: "mailbox_ok a S as bs" and f: "fifo S as bs"
    and con: "st_connected S" and x: "message_ok ty x" and c: "st_clients S a = Some c"
    and no: "\<not> posts k (st_mail S) c x"
  shows "\<exists>S'. post_event k a x S = Some S' \<and> mailbox_ok a S' as bs \<and> fifo S' as bs"
proof -
  let ?M = "st_mail S" and ?W = "with_message (st_mail S) x"
  have mok: "mail_ok {} ?M" and all: "\<forall>b. nodes ?M b \<noteq> None \<longleftrightarrow> b \<in> set as \<union> set bs"
    using ok by (auto simp: mailbox_ok_def)
  have mok0: "mail_ok {messages_made ?M} ?W" using hold_new [OF mok x] by simp
  obtain t where t: "raw_type x = Some t" using x by (auto simp: message_ok_def)
  have "Client_Send k (Some (messages_made ?M)) c ?W = Some (c, ?W)"
    by (rule Client_Send_skips [of _ _ x]) (use t no in \<open>auto simp: posts_def\<close>)
  moreover from let_go [OF k mok0, of "messages_made ?M"] obtain ms where
    ms: "release_at k (Some (messages_made ?M)) (messages ?W) = Some ms" "mail_ok {} (?W\<lparr>messages := ms\<rparr>)"
      "\<forall>b. ms b \<noteq> None \<longrightarrow> map_option raw (ms b) = map_option raw (messages ?W b)" by auto
  ultimately have step: "post_event k a x S =
      Some (S\<lparr>st_clients := (st_clients S)(a \<mapsto> c), st_mail := ?W\<lparr>messages := ms\<rparr>\<rparr>)"
    using c no by (simp add: post_event_def Let_def)
  let ?M' = "?W\<lparr>messages := ms\<rparr>"
  have keep: "map (node_wire ?M') ns = map (node_wire ?M) ns" if "set ns \<subseteq> set as \<union> set bs" for ns
  proof (rule node_wires_keep [OF mok ms(2)])
    fix b assume "messages ?M b \<noteq> None" "messages ?M' b \<noteq> None"
    with ms(3) below_fresh [OF mail_okD(2) [OF mok]]
    show "map_option raw (messages ?M' b) = map_option raw (messages ?M b)" by auto
  qed (use all that in auto)
  have "set (pending S as bs) \<subseteq> set as \<union> set bs" by (rule pending_subset)
  from keep [OF this] have "fifo (S\<lparr>st_clients := (st_clients S)(a \<mapsto> c), st_mail := ?M'\<rparr>) as bs"
    using ok con by (intro fifo_same [OF f]) (auto simp: pending_def mailbox_ok_def)
  moreover have "mailbox_ok a (S\<lparr>st_clients := (st_clients S)(a \<mapsto> c), st_mail := ?M'\<rparr>) as bs"
    using ok ms(2) c by (simp add: mailbox_ok_def owners_def)
  ultimately show ?thesis using step by blast
qed

lemma post_ok:
  assumes k: "atomics_documented k" and ok: "mailbox_ok a S as bs" and f: "fifo S as bs"
    and con: "st_connected S" and x: "message_ok ty x" and c: "st_clients S a = Some c"
    and p: "posts k (st_mail S) c x" and small: "nodes_made (st_mail S) + 2 < 2 ^ 32"
  shows "\<exists>S' as'. post_event k a x S = Some S' \<and> mailbox_ok a S' as' bs \<and> fifo S' as' bs"
proof -
  let ?M = "st_mail S" and ?W = "with_message (st_mail S) x" and ?m = "messages_made (st_mail S)"
  let ?n = "nodes_made ?M"
  have mok: "mail_ok {} ?M" and all: "\<forall>b. nodes ?M b \<noteq> None \<longleftrightarrow> b \<in> set as \<union> set bs"
    and disj: "set as \<inter> set bs = {}" and ch: "chain n_next (nodes ?M) (local_node (st_pc S)) bs"
    and q: "queue_ok (nodes ?M) c as"
    using ok c by (auto simp: mailbox_ok_def)
  have mok0: "mail_ok {?m} ?W" using hold_new [OF mok x] by simp
  have fresh: "nodes ?M ?n = None" using below_fresh [OF mail_okD(1) [OF mok]] .
  have nn: "?n \<notin> set as" "?n \<notin> set bs" using all [rule_format, of ?n] fresh by auto
  have "posts k ?W c x" using p by (simp add: posts_def)
  with Client_Send_posts [where m = ?m and x = x and M = ?W and c = c and as = as, OF k mok0] q small
  obtain c' M1 where send: "Client_Send k (Some ?m) c ?W = Some (c', M1)" and mok1: "mail_ok {?m} M1"
    and q1: "queue_ok (nodes M1) c' (as @ [?n])"
    and c': "c' = c\<lparr>messageQueueHead := messageQueueHead c', messageQueueLast := messageQueueLast c'\<rparr>"
    and made: "nodes_made M1 = Suc ?n" "messages_made M1 = Suc ?m"
    and msgs: "messages M1 = (messages ?W)(?m \<mapsto> x\<lparr>references := references x + 1\<rparr>)"
    and new: "map_option n_message (nodes M1 ?n) = Some (Some ?m)"
    and old: "\<forall>b. b \<noteq> ?n \<longrightarrow> map_option n_message (nodes M1 b) = map_option n_message (nodes ?M b)"
    and frame: "\<forall>b. b \<noteq> ?n \<longrightarrow> b \<notin> set as \<longrightarrow> nodes M1 b = nodes ?M b" by auto
  from let_go [OF k mok1, of ?m] obtain ms where
    ms: "release_at k (Some ?m) (messages M1) = Some ms" "mail_ok {} (M1\<lparr>messages := ms\<rparr>)"
      "\<forall>b. ms b \<noteq> None \<longrightarrow> map_option raw (ms b) = map_option raw (messages M1 b)" by auto
  let ?M' = "M1\<lparr>messages := ms\<rparr>"
  let ?S = "S\<lparr>st_clients := (st_clients S)(a \<mapsto> c'), st_mail := ?M', st_pc := wake (st_pc S),
    st_posted := st_posted S @ [wire (raw x)]\<rparr>"
  have step: "post_event k a x S = Some ?S" using c p send ms(1) by (simp add: post_event_def Let_def)
  have dom1: "nodes M1 b \<noteq> None \<longleftrightarrow> b = ?n \<or> nodes ?M b \<noteq> None" for b
  proof (cases "b = ?n")
    case True
    with new show ?thesis by (cases "nodes M1 ?n") auto
  next
    case False
    with old [rule_format, of b] have "nodes M1 b = None \<longleftrightarrow> nodes ?M b = None"
      by (metis map_option_is_None)
    with False show ?thesis by simp
  qed
  have "chain n_next (nodes M1) (local_node (st_pc S)) bs = chain n_next (nodes ?M) (local_node (st_pc S)) bs"
  proof (rule chain_cong)
    fix b assume "b \<in> set bs"
    with nn disj have "b \<noteq> ?n" "b \<notin> set as" by auto
    with frame show "map_option n_next (nodes M1 b) = map_option n_next (nodes ?M b)" by simp
  qed
  then have ch1: "chain n_next (nodes M1) (local_node (st_pc S)) bs" using ch by (simp only:)
  have "exitState c' = exitState c" "references c' = references c" by (subst c', simp)+
  then have inv: "mailbox_ok a ?S (as @ [?n]) bs"
    using ok ms(2) c q1 ch1 dom1 all disj nn by (auto simp: mailbox_ok_def owners_def)
  have keep: "map (node_wire ?M') ns = map (node_wire ?M) ns" if "set ns \<subseteq> set as \<union> set bs" for ns
  proof (rule node_wires_keep [OF mok ms(2)])
    fix b assume "messages ?M b \<noteq> None" "messages ?M' b \<noteq> None"
    with ms(3) below_fresh [OF mail_okD(2) [OF mok]] msgs
    show "map_option raw (messages ?M' b) = map_option raw (messages ?M b)" by auto
  next
    fix b assume "b \<in> set ns"
    with that have b: "b \<in> set as \<union> set bs" by blast
    with nn have "b \<noteq> ?n" by auto
    with old b all
    show "nodes ?M b \<noteq> None \<and> map_option n_message (nodes ?M' b) = map_option n_message (nodes ?M b)" by simp
  qed
  have sub: "set (pending S as bs) \<subseteq> set as \<union> set bs" by (rule pending_subset)
  have nw: "node_wire ?M' ?n = Some (wire (raw x))"
  proof -
    from new obtain y where y: "nodes M1 ?n = Some y" "n_message y = Some ?m" by auto
    with mail_okD(4) [OF ms(2), of ?n y] obtain z where z: "ms ?m = Some z" by auto
    with ms(3) [rule_format, of ?m] msgs have "raw z = raw x" by simp
    with y z show ?thesis by (simp add: node_wire_def)
  qed
  have pend: "pending ?S (as @ [?n]) bs = pending S as bs @ [?n]" by (simp add: pending_def)
  from f ok con obtain tried rest where t: "st_posted S = tried @ rest" "subseq (st_sent S) tried"
    "st_perfect S \<longrightarrow> st_sent S = tried" "map (node_wire ?M) (pending S as bs) = map Some rest"
    by (auto simp: fifo_def mailbox_ok_def)
  have "map (node_wire ?M') (pending ?S (as @ [?n]) bs) = map Some (rest @ [wire (raw x)])"
    unfolding pend using keep [OF sub] t(4) nw by simp
  then have "fifo ?S (as @ [?n]) bs"
    unfolding fifo_def using t(1,2,3)
    by (intro exI [of _ tried] exI [of _ "rest @ [wire (raw x)]"]) simp
  with step inv show ?thesis by blast
qed

lemma disconnect_ok:
  assumes k: "atomics_documented k" and ok: "mailbox_ok a S as bs" and f: "fifo S as bs"
    and con: "st_connected S" and run: "st_pc S \<noteq> Starting"
  shows "\<exists>S'. disconnect_event k a S = Some S' \<and> mailbox_ok a S' as bs \<and> fifo S' as bs"
proof -
  from ok con obtain c where c: "st_clients S a = Some c" "queue_ok (nodes (st_mail S)) c as"
    "references c = of_nat (owners S)" "exitState c = (if st_connected S then 0 else 1)"
    by (auto elim!: mailbox_client)
  have nl: "\<not> leaving (st_pc S)" using ok con by (auto simp: mailbox_ok_def)
  then have nt: "st_pc S \<noteq> Terminated" by (cases "st_pc S") auto
  have two: "references c = 2" using c(3) con run nt by (simp add: owners_def)
  let ?c = "CloseSignal k c" and ?c' = "c\<lparr>exitState := 1, references := 1\<rparr>"
  have cs: "?c = c\<lparr>exitState := 1\<rparr>" using k c(4) con by (simp add: CloseSignal_def)
  let ?S = "S\<lparr>st_clients := (st_clients S)(a \<mapsto> ?c'), st_mail := st_mail S, st_pc := wake (st_pc S), st_connected := False\<rparr>"
  have "release_client k a ((st_clients S)(a \<mapsto> ?c), st_mail S) = Some ((st_clients S)(a \<mapsto> ?c'), st_mail S)"
    using release_client_more [OF k, of "(st_clients S)(a \<mapsto> ?c)" a ?c "st_mail S"] two cs by simp
  then have step: "disconnect_event k a S = Some ?S" using c by (simp add: disconnect_event_def)
  have "mailbox_ok a ?S as bs" using ok c run nt by (auto simp: mailbox_ok_def owners_def queue_ok_def)
  moreover have "fifo ?S as bs" using nl by (intro fifo_same [OF f]) (simp_all add: pending_def)
  ultimately show ?thesis using step by blast
qed

lemma wakeup_ok:
  assumes "mailbox_ok a S as bs" and "fifo S as bs"
  shows "mailbox_ok a (S\<lparr>st_pc := wake (st_pc S)\<rparr>) as bs \<and> fifo (S\<lparr>st_pc := wake (st_pc S)\<rparr>) as bs"
proof -
  have "owners (S\<lparr>st_pc := wake (st_pc S)\<rparr>) = owners S" by (simp add: owners_def)
  then show ?thesis using assms by (simp add: mailbox_ok_def fifo_def pending_def split: option.splits)
qed

section \<open>Every reachable state\<close>

lemma mailbox_step_ok:
  assumes step: "mailbox_step k a S R" and k: "atomics_documented k" and ok: "mailbox_ok a S as bs" and f: "fifo S as bs"
  shows "\<exists>S' as' bs'. R = Some S' \<and> mailbox_ok a S' as' bs' \<and> fifo S' as' bs'"
  using step
proof (cases rule: mailbox_step.cases)
  case (Post ty x)
  from ok Post(2) obtain c where c: "st_clients S a = Some c" by (auto elim!: mailbox_client)
  show ?thesis
  proof (cases "posts k (st_mail S) c x")
    case True
    from post_ok [OF k ok f Post(2,3) c True Post(4)] Post(1) show ?thesis by blast
  next
    case False
    from post_skip_ok [OF k ok f Post(2,3) c False] Post(1) show ?thesis by blast
  qed
next
  case Disconnect
  from disconnect_ok [OF k ok f Disconnect(2,3)] Disconnect(1) show ?thesis by blast
next
  case (Run space accepted)
  from thread_step_ok [OF k ok f, of space accepted] Run show ?thesis by blast
next
  case Wakeup
  with wakeup_ok [OF ok f] show ?thesis by blast
qed

lemma connected_state_ok:
  assumes "queue_ok Map.empty c []" and "references c = 1" and "exitState c = 0"
  shows "mailbox_ok a (connected_state a c) [] [] \<and> fifo (connected_state a c) [] []"
  using assms
  by (auto simp: mailbox_ok_def connected_state_def owners_def fifo_def pending_def mail_ok_def below_def)

lemma mailbox_reach_ok:
  assumes "mailbox_reach k a S T" and "atomics_documented k" and "mailbox_ok a S as bs \<and> fifo S as bs"
  shows "\<exists>as' bs'. mailbox_ok a T as' bs' \<and> fifo T as' bs'"
  using assms(1)
proof induction
  case reach_start
  then show ?case using assms(3) by blast
next
  case (reach_step T U)
  then obtain as' bs' where "mailbox_ok a T as' bs'" "fifo T as' bs'" by blast
  from mailbox_step_ok [OF reach_step.hyps(2) assms(2) this] show ?case by auto
qed

section \<open>Running to the end\<close>

text \<open>The thread alone, with a kernel that has room and accepts.\<close>

primrec runs :: "kernel \<Rightarrow> addr \<Rightarrow> nat \<Rightarrow> SendState \<Rightarrow> SendState option" where
  "runs k a 0 S = Some S"
| "runs k a (Suc n) S = Option.bind (thread_step k a (2 ^ 16) True S) (runs k a n)"

lemma drain_runs:
  assumes "atomics_documented k"
  shows "mailbox_ok a S as bs \<Longrightarrow> fifo S as bs \<Longrightarrow> st_pc S = Draining p \<Longrightarrow> st_connected S \<Longrightarrow>
    \<exists>S'. runs k a (2 * length bs) S = Some S' \<and> mailbox_ok a S' as [] \<and> fifo S' as [] \<and>
      st_pc S' = Draining None \<and> st_perfect S' = st_perfect S"
proof (induction bs arbitrary: S p)
  case Nil
  then show ?case by (cases p) (auto simp: mailbox_ok_def)
next
  case (Cons n bs)
  then have pc: "st_pc S = Draining (Some n)" by (cases p) (auto simp: mailbox_ok_def)
  from step_draining [OF Cons.prems(1,2) pc, of k "2 ^ 16" True] Cons.prems(4) obtain S1 where
    S1: "thread_step k a (2 ^ 16) True S = Some S1" "mailbox_ok a S1 as (n # bs)" "fifo S1 as (n # bs)"
      "st_pc S1 = Attempted n" "st_connected S1" "st_perfect S1 = st_perfect S" by auto
  from step_attempted_live [OF assms S1(2-5), of "2 ^ 16" True] obtain S2 q where
    S2: "thread_step k a (2 ^ 16) True S1 = Some S2" "mailbox_ok a S2 as bs" "fifo S2 as bs"
      "st_pc S2 = Draining q" "st_connected S2" "st_perfect S2 = st_perfect S" using S1(6) by auto
  from Cons.IH [OF S2(2-5)] obtain S' where "runs k a (2 * length bs) S2 = Some S'" "mailbox_ok a S' as []"
    "fifo S' as []" "st_pc S' = Draining None" "st_perfect S' = st_perfect S" using S2(6) by auto
  with S1(1) S2(1) show ?case by auto
qed

text \<open>One round of the outer loop delivers the whole queue.\<close>

lemma round_delivers:
  assumes k: "atomics_documented k" and ok: "mailbox_ok a S as bs" and f: "fifo S as bs"
    and pc: "st_pc S = Delayed" and con: "st_connected S" and perfect: "st_perfect S"
  shows "\<exists>S'. runs k a (Suc (2 * length as)) S = Some S' \<and> st_sent S' = st_posted S' \<and> st_pc S' = Draining None"
proof -
  from ok pc obtain c where c: "st_clients S a = Some c" "queue_ok (nodes (st_mail S)) c as"
    "references c = of_nat (owners S)" "exitState c = (if st_connected S then 0 else 1)"
    by (auto elim!: mailbox_client)
  have bs: "bs = []" using ok pc by (simp add: mailbox_ok_def)
  let ?c = "c\<lparr>messageQueueHead := None, messageQueueLast := None\<rparr>"
  let ?S = "S\<lparr>st_clients := (st_clients S)(a \<mapsto> ?c), st_pc := Draining (messageQueueHead c)\<rparr>"
  have step: "thread_step k a (2 ^ 16) True S = Some ?S"
    using c con pc by (simp add: thread_step_def queue_ok_def)
  have "mailbox_ok a ?S [] as"
    using ok c con pc bs by (auto simp: mailbox_simps queue_ok_def queue_at_def)
  moreover have "fifo ?S [] as" using f pc bs by (simp add: fifo_def pending_def)
  ultimately obtain S' where S': "runs k a (2 * length as) ?S = Some S'" "mailbox_ok a S' [] []" "fifo S' [] []"
    "st_pc S' = Draining None" "st_perfect S'" using drain_runs [OF k, of a ?S "[]" as] con perfect by auto
  from S'(3-5) have "st_sent S' = st_posted S'" by (auto simp: fifo_def pending_def)
  with S' step show ?thesis by auto
qed

text \<open>Once the client is closed and the thread is past its sleep, it ends and leaves no object behind.\<close>

lemma exit_ends:
  assumes k: "atomics_documented k" and ok: "mailbox_ok a S as bs" and f: "fifo S as bs" and pc: "st_pc S = Exiting"
  shows "\<exists>S'. thread_step k a space accepted S = Some S' \<and> st_pc S' = Terminated \<and> st_clients S' a = None \<and>
    messages (st_mail S') = Map.empty \<and> nodes (st_mail S') = Map.empty"
proof -
  from step_exiting [OF k ok f pc, of space accepted] obtain S' where
    S': "thread_step k a space accepted S = Some S'" "mailbox_ok a S' [] []" by auto
  then have pc': "st_pc S' = Terminated" using pc by (auto simp: thread_step_def split: bind_splits)
  have n: "\<forall>n. nodes (st_mail S') n = None" and m: "mail_ok {} (st_mail S')"
    using S'(2) by (auto simp: mailbox_ok_def)
  moreover have "st_clients S' a = None"
    using S'(2) pc' by (auto simp: mailbox_ok_def owners_def split: option.splits)
  ultimately show ?thesis using S'(1) pc' mail_empty [OF m n] by (intro exI [of _ S']) (auto simp: fun_eq_iff)
qed

lemma closed_thread_ends:
  assumes k: "atomics_documented k" and ok: "mailbox_ok a S as bs" and f: "fifo S as bs"
    and closed: "\<not> st_connected S"
    and pc: "st_pc S \<in> {Awake, Delayed} \<or> (\<exists>n. st_pc S = Draining (Some n) \<or> st_pc S = Attempted n)"
  shows "\<exists>S'. runs k a 3 S = Some S' \<and> st_pc S' = Terminated \<and> st_clients S' a = None \<and>
    messages (st_mail S') = Map.empty \<and> nodes (st_mail S') = Map.empty"
proof -
  from pc have npc: "st_pc S \<notin> {Starting, Terminated}" by auto
  with ok obtain c where c: "st_clients S a = Some c" "exitState c = 1"
    using closed by (auto elim!: mailbox_client)
  let ?step = "thread_step k a (2 ^ 16) True"
  show ?thesis
  proof (cases "st_pc S = Awake")
    case True
    then have e: "?step S = Some (S\<lparr>st_pc := Exiting\<rparr>)" using c by (simp add: thread_step_def)
    with thread_step_ok [OF k ok f, of "2 ^ 16" True] obtain as1 bs1 where
      l: "mailbox_ok a (S\<lparr>st_pc := Exiting\<rparr>) as1 bs1" "fifo (S\<lparr>st_pc := Exiting\<rparr>) as1 bs1" by auto
    from exit_ends [OF k l, of "2 ^ 16" True] obtain S2 where
      S2: "?step (S\<lparr>st_pc := Exiting\<rparr>) = Some S2" "st_pc S2 = Terminated" "st_clients S2 a = None"
        "messages (st_mail S2) = Map.empty" "nodes (st_mail S2) = Map.empty" by auto
    moreover have "?step S2 = Some S2" using S2(2) by (simp add: thread_step_def Let_def)
    ultimately show ?thesis using e by (auto simp: numeral_3_eq_3)
  next
    case False
    with pc c have "\<exists>p. ?step S = Some (S\<lparr>st_pc := Leaving p\<rparr>)" by (auto simp: thread_step_def)
    then obtain p where p: "?step S = Some (S\<lparr>st_pc := Leaving p\<rparr>)" ..
    with thread_step_ok [OF k ok f, of "2 ^ 16" True] obtain as1 bs1 where
      l: "mailbox_ok a (S\<lparr>st_pc := Leaving p\<rparr>) as1 bs1" "fifo (S\<lparr>st_pc := Leaving p\<rparr>) as1 bs1" by auto
    from step_leaving [OF k l, of p "2 ^ 16" True] obtain S2 where
      S2: "?step (S\<lparr>st_pc := Leaving p\<rparr>) = Some S2" "mailbox_ok a S2 as1 []" "fifo S2 as1 []" by auto
    then have "st_pc S2 = Exiting" by (auto simp: thread_step_def split: bind_splits)
    from exit_ends [OF k S2(2,3) this, of "2 ^ 16" True] p S2(1) show ?thesis by (auto simp: numeral_3_eq_3)
  qed
qed

lemma thread_step_posted:
  "thread_step k a space accepted S = Some S' \<Longrightarrow> st_posted S' = st_posted S"
  by (auto simp: thread_step_def Let_def split: pc.splits bind_splits if_splits option.splits prod.splits)

lemma runs_posted: "runs k a n S = Some S' \<Longrightarrow> st_posted S' = st_posted S"
  by (induction n arbitrary: S) (auto split: bind_splits dest: thread_step_posted)

text \<open>Every message posted is framed, so what is sent can be taken apart again.\<close>

lemma wire_framed:
  assumes "message_ok ty x"
  shows "framed (wire (raw x))" and "rd_u16 (wire (raw x)) 2 = Some ty"
proof -
  obtain sz where sz: "rd_u16 (raw x) 0 = Some sz" "rd_u16 (raw x) 2 = Some ty" "4 \<le> unat sz" "unat sz \<le> length (raw x)"
    using assms by (auto simp: message_ok_def raw_size_def raw_type_def)
  then have w: "wire (raw x) = take (unat sz) (raw x)" by (simp add: wire_def)
  have rd: "rd_u16 (take (unat sz) (raw x)) i = rd_u16 (raw x) i" if "i + 2 \<le> 4" for i
    using rd_u16_append [of i "take (unat sz) (raw x)" "drop (unat sz) (raw x)"] that sz(3,4) by simp
  show "framed (wire (raw x))" "rd_u16 (wire (raw x)) 2 = Some ty"
    using rd [of 0] rd [of 2] sz w by (simp_all add: framed_def)
qed

lemma posted_step:
  assumes "mailbox_step k a S (Some T)" and "\<forall>b\<in>set (st_posted S). framed b"
  shows "\<forall>b\<in>set (st_posted T). framed b"
  using assms
proof (cases rule: mailbox_step.cases)
  case (Post ty x)
  then have "st_posted T = st_posted S \<or> st_posted T = st_posted S @ [wire (raw x)]"
    by (auto simp: post_event_def Let_def split: bind_splits if_splits)
  with assms(2) wire_framed(1) [OF Post(3)] show ?thesis by auto
next
  case Disconnect
  then have "st_posted T = st_posted S" by (auto simp: disconnect_event_def split: bind_splits)
  with assms(2) show ?thesis by simp
next
  case (Run space accepted)
  then have "st_posted T = st_posted S" by (intro thread_step_posted [of k a space accepted S]) simp
  with assms(2) show ?thesis by simp
next
  case Wakeup
  then show ?thesis using assms(2) by simp
qed

lemma posted_framed: "mailbox_reach k a S T \<Longrightarrow> \<forall>b\<in>set (st_posted S). framed b \<Longrightarrow> \<forall>b\<in>set (st_posted T). framed b"
  by (induction rule: mailbox_reach.induct) (use posted_step in blast)+

section \<open>Orders of events that the code does not survive\<close>

text \<open>
  \<open>CloseSignal\<close> between the end of a round and \<open>IOLockSleep\<close> wakes nobody. The thread then sleeps until
  another client's wake-up happens to reach it.
\<close>

lemma closed_sleeper_stays:
  assumes "\<not> st_connected S" and "st_pc S = Sleeping" and "mailbox_step k a S R"
  shows "R = Some S \<or> R = Some (S\<lparr>st_pc := Awake\<rparr>)"
  using assms(3,1,2) by (cases rule: mailbox_step.cases) (auto simp: thread_step_def wake_def)

lemma close_before_sleep_hangs:
  assumes k: "atomics_documented k" and ok: "mailbox_ok a S as bs" and f: "fifo S as bs"
    and con: "st_connected S" and pc: "st_pc S = Draining None"
  shows "\<exists>S1 S2 S3. disconnect_event k a S = Some S1 \<and> thread_step k a space accepted S1 = Some S2 \<and>
    st_pc S2 = Sleeping \<and> st_clients S2 a \<noteq> None \<and>
    (\<forall>R. mailbox_step k a S2 R \<longrightarrow> R = Some S2 \<or> R = Some (S2\<lparr>st_pc := Awake\<rparr>)) \<and>
    runs k a 3 (S2\<lparr>st_pc := Awake\<rparr>) = Some S3 \<and> st_pc S3 = Terminated \<and> st_clients S3 a = None"
proof -
  have run: "st_pc S \<noteq> Starting" using pc by simp
  from disconnect_ok [OF k ok f con run] obtain S1 where
    S1: "disconnect_event k a S = Some S1" "mailbox_ok a S1 as bs" "fifo S1 as bs" by blast
  have d: "\<not> st_connected S1" "st_pc S1 = Draining None"
    using S1(1) pc by (auto simp: disconnect_event_def wake_def split: bind_splits)
  let ?S2 = "S1\<lparr>st_pc := Sleeping\<rparr>"
  have step: "thread_step k a space accepted S1 = Some ?S2" using d(2) by (simp add: thread_step_def)
  from step_draining_end [OF S1(2,3) d(2), of k space accepted] step
  have l: "mailbox_ok a ?S2 as bs" "fifo ?S2 as bs" by auto
  from wakeup_ok [OF l] have "mailbox_ok a (?S2\<lparr>st_pc := Awake\<rparr>) as bs" "fifo (?S2\<lparr>st_pc := Awake\<rparr>) as bs"
    by (simp_all add: wake_def)
  from closed_thread_ends [OF k this] d(1) obtain S3 where
    "runs k a 3 (?S2\<lparr>st_pc := Awake\<rparr>) = Some S3" "st_pc S3 = Terminated" "st_clients S3 a = None" by auto
  moreover have "st_clients ?S2 a \<noteq> None" using l(1) d(1) by (auto simp: mailbox_ok_def owners_def split: option.splits)
  moreover have "R = Some ?S2 \<or> R = Some (?S2\<lparr>st_pc := Awake\<rparr>)" if "mailbox_step k a ?S2 R" for R
    using closed_sleeper_stays [OF _ _ that] d(1) by simp
  ultimately show ?thesis using S1(1) step
    by (intro exI [of _ S1] exI [of _ ?S2] exI [of _ S3]) auto
qed

text \<open>
  \<open>InitWithClient\<close> sets the count to 1 after it has started the thread. When the thread has already
  taken its reference, the disconnect frees the client under it.
\<close>

lemma early_retain_faults:
  assumes k: "atomics_documented k" and i: "InitWithClient k n True ref u new_client = (True, c)"
  shows "\<exists>S1. disconnect_event k a ((connected_state a c)\<lparr>st_pc := Sleeping\<rparr>) = Some S1 \<and>
    st_pc S1 = Awake \<and> thread_step k a space accepted S1 = None"
proof -
  from InitWithClient_ok [OF i k, of Map.empty] have c: "references c = 1" "queue_ok Map.empty c []" by auto
  let ?M = "st_mail (connected_state a c)"
  have mok: "mail_ok {} ?M" by (auto simp: mail_ok_def connected_state_def below_def)
  have q: "queue_ok (nodes ?M) (CloseSignal k c) []"
    using c(2) by (simp add: connected_state_def queue_ok_def CloseSignal_def)
  have r: "references (CloseSignal k c) = 1" using c(1) by (simp add: CloseSignal_def)
  from release_client_last [OF k _ r mok q, of "[a \<mapsto> CloseSignal k c]" a] obtain M' where
    "release_client k a ([a \<mapsto> CloseSignal k c], ?M) = Some (Map.empty, M')" by auto
  then show ?thesis by (simp add: disconnect_event_def connected_state_def wake_def thread_step_def)
qed

text \<open>The same happens when the client disconnects before its thread has run at all.\<close>

lemma disconnect_before_start:
  assumes k: "atomics_documented k" and i: "InitWithClient k n False ref u new_client = (True, c)"
  shows "\<exists>S1. disconnect_event k a (connected_state a c) = Some S1 \<and>
    st_pc S1 = Starting \<and> thread_step k a space accepted S1 = None"
proof -
  from InitWithClient_ok [OF i k, of Map.empty] have c: "references c = 1" "queue_ok Map.empty c []" by auto
  let ?M = "st_mail (connected_state a c)"
  have mok: "mail_ok {} ?M" by (auto simp: mail_ok_def connected_state_def below_def)
  have q: "queue_ok (nodes ?M) (CloseSignal k c) []"
    using c(2) by (simp add: connected_state_def queue_ok_def CloseSignal_def)
  have r: "references (CloseSignal k c) = 1" using c(1) by (simp add: CloseSignal_def)
  from release_client_last [OF k _ r mok q, of "[a \<mapsto> CloseSignal k c]" a] obtain M' where
    "release_client k a ([a \<mapsto> CloseSignal k c], ?M) = Some (Map.empty, M')" by auto
  then show ?thesis by (simp add: disconnect_event_def connected_state_def wake_def thread_step_def)
qed

section \<open>Properties\<close>

text \<open>
  A run for the concrete instances: a client has just connected (\<open>demo_0\<close>), its thread goes to sleep
  (\<open>demo_1\<close>), a message is posted (\<open>demo_2\<close>), the thread wakes up (\<open>demo_3\<close>), takes the queue
  (\<open>demo_4\<close>), sends (\<open>demo_5\<close>) and has freed the node (\<open>demo_6\<close>).
\<close>

definition demo_client :: Client where
  "demo_client = snd (InitWithClient plain_kernel 0 False 0 1 new_client)"

definition demo_note :: Message where
  "demo_note = the (the (CreateSfltUnregistered plain_kernel X86_64 0))"

definition demo_mail :: Mail where
  "demo_mail = \<lparr>messages = [0 \<mapsto> demo_note], nodes = [0 \<mapsto> \<lparr>n_message = Some 0, n_next = None\<rparr>],
     messages_made = 1, nodes_made = 1\<rparr>"

definition demo_state :: "Client \<Rightarrow> Mail \<Rightarrow> pc \<Rightarrow> u8 list list \<Rightarrow> u8 list list \<Rightarrow> SendState" where
  "demo_state c M p sent ps = \<lparr>st_clients = [0 \<mapsto> c\<lparr>references := 2\<rparr>], st_mail = M, st_pc = p,
     st_connected = True, st_sent = sent, st_posted = ps, st_perfect = True\<rparr>"

definition demo_0 :: SendState where "demo_0 = connected_state 0 demo_client"
definition demo_1 :: SendState where "demo_1 = demo_state demo_client (st_mail demo_0) Sleeping [] []"
definition demo_2 :: SendState where
  "demo_2 = demo_state (demo_client\<lparr>messageQueueHead := Some 0, messageQueueLast := Some 0\<rparr>) demo_mail Awake [] [[4, 0, 2, 32]]"
definition demo_3 :: SendState where "demo_3 = demo_2\<lparr>st_pc := Delayed\<rparr>"
definition demo_4 :: SendState where "demo_4 = demo_state demo_client demo_mail (Draining (Some 0)) [] [[4, 0, 2, 32]]"
definition demo_5 :: SendState where
  "demo_5 = demo_state demo_client demo_mail (Attempted 0) [[4, 0, 2, 32]] [[4, 0, 2, 32]]"
definition demo_6 :: SendState where
  "demo_6 = demo_state demo_client (demo_mail\<lparr>messages := Map.empty, nodes := Map.empty\<rparr>) (Draining None)
     [[4, 0, 2, 32]] [[4, 0, 2, 32]]"

lemma demo_client_init:
  "InitWithClient plain_kernel 0 False 0 1 new_client = (True, demo_client)"
  "InitWithClient plain_kernel 0 True 0 1 new_client = (True, demo_client)"
  by code_simp+

lemma demo_note: "demo_note = \<lparr>references = 1, raw = [4, 0, 2, 32]\<rparr>"
  by code_simp

lemma demo_client: "demo_client = \<lparr>references = 1, kernelKontrolReference = 0, unit = 1,
  registredMessageClases = 10240, exitState = 0, lockQueue = Lock, lockWorkThread = Lock, thread_started = True,
  messageQueueHead = None, messageQueueLast = None, c_next = None\<rparr>"
  by code_simp

lemma demo_header: "raw_type demo_note = Some 8194" "raw_size demo_note = Some 4" "wire [4, 0, 2, 32] = [4, 0, 2, 32]"
  "peek 0 4 [4, 0, 2, 32] = Some [4, 0, 2, 32]"
  by (simp_all add: raw_type_def raw_size_def wire_def demo_note rd_u16_def peek_def)

lemma demo_note_ok: "message_ok 8194 demo_note"
  using demo_header by (simp add: message_ok_def demo_note)

lemmas demo_defs = demo_0_def demo_1_def demo_2_def demo_3_def demo_4_def demo_5_def demo_6_def
  demo_state_def demo_client demo_mail_def connected_state_def

lemma demo_run:
  "thread_step plain_kernel 0 65536 True demo_0 = Some demo_1"
  "post_event plain_kernel 0 demo_note demo_1 = Some demo_2"
  "thread_step plain_kernel 0 65536 True demo_2 = Some demo_3"
  "thread_step plain_kernel 0 65536 True demo_3 = Some demo_4"
  "thread_step plain_kernel 0 65536 True demo_4 = Some demo_5"
  "thread_step plain_kernel 0 65536 True demo_5 = Some demo_6"
  using demo_header
  by (simp_all add: demo_defs thread_step_def post_event_def Client_Send_def posts_def takes_def Retain_def
      Release_def retain_at_def release_at_def demo_note wake_def
      enqueue.simps Let_def)

lemma demo_states:
  "st_connected demo_1" "nodes_made (st_mail demo_1) = 0" "st_pc demo_3 = Delayed" "st_connected demo_3"
  "st_perfect demo_3" "st_pc demo_6 = Draining None" "st_connected demo_6" "st_posted demo_5 \<noteq> []"
  "st_posted demo_3 \<noteq> []"
  by (simp_all add: demo_defs)

lemma demo_reach:
  "mailbox_reach plain_kernel 0 demo_0 demo_3" "mailbox_reach plain_kernel 0 demo_0 demo_6"
proof -
  have s: "mailbox_step plain_kernel 0 S (Some T)" if "thread_step plain_kernel 0 65536 True S = Some T" for S T
    using Run [of plain_kernel 0 S 65536 True] that by simp
  have p: "mailbox_step plain_kernel 0 demo_1 (Some demo_2)"
    using Post [of demo_1 _ demo_note plain_kernel 0] demo_note_ok demo_states(1,2) demo_run(2) by simp
  show r: "mailbox_reach plain_kernel 0 demo_0 demo_3"
    using reach_step [OF reach_step [OF reach_step [OF reach_start s] p] s] demo_run(1,3) by blast
  show "mailbox_reach plain_kernel 0 demo_0 demo_6"
    using reach_step [OF reach_step [OF reach_step [OF r s] s] s] demo_run(4-6) by blast
qed

lemma subseq_prefix: "subseq xs ys \<Longrightarrow> subseq xs (ys @ zs)"
  by (rule list_emb_prefix)

text \<open>What a connected client satisfies at every point of its life.\<close>

lemma connected_reach:
  assumes "atomics_documented k" and "InitWithClient k n False ref u new_client = (True, c)"
    and "mailbox_reach k a (connected_state a c) T"
  obtains as bs where "mailbox_ok a T as bs" "fifo T as bs"
  using mailbox_reach_ok [OF assms(3,1)] connected_state_ok [of c a] InitWithClient_ok [OF assms(2,1), of Map.empty] by blast

text \<open>C2. The mailbox of a client is memory-safe, ordered and leaves nothing behind. From the moment
  a client is connected, under every interleaving of its thread with posted messages, the wake-ups of other
  clients and the disconnect (after the thread's first instructions) and every answer of the kernel, no step touches freed memory or a NULL
  pointer, the messages delivered are a subsequence, in order, of those posted, and when the thread has
  terminated the client, its nodes and its messages have all been freed.\<close>

theorem mailbox_safe:
  assumes "atomics_documented k" and "InitWithClient k n False ref u new_client = (True, c)"
    and "mailbox_reach k a (connected_state a c) T" and "mailbox_step k a T R"
  shows "R \<noteq> None \<and> subseq (st_sent T) (st_posted T) \<and>
    (st_pc T = Terminated \<longrightarrow>
       st_clients T a = None \<and> messages (st_mail T) = Map.empty \<and> nodes (st_mail T) = Map.empty)"
proof -
  obtain as bs where ok: "mailbox_ok a T as bs" "fifo T as bs" using connected_reach [OF assms(1-3)] .
  have "R \<noteq> None" using mailbox_step_ok [OF assms(4,1) ok] by auto
  moreover have "subseq (st_sent T) (st_posted T)"
    using ok(2) by (auto simp: fifo_def intro: subseq_prefix)
  moreover have "st_clients T a = None" "messages (st_mail T) = Map.empty" "nodes (st_mail T) = Map.empty"
    if "st_pc T = Terminated"
  proof -
    have o: "owners T = 0" "bs = []" using ok(1) that by (auto simp: mailbox_ok_def owners_def)
    then show c: "st_clients T a = None" using ok(1) by (auto simp: mailbox_ok_def split: option.splits)
    then have n: "\<forall>n. nodes (st_mail T) n = None" using ok(1) o(2) by (auto simp: mailbox_ok_def)
    then show "nodes (st_mail T) = Map.empty" by (simp add: fun_eq_iff)
    show "messages (st_mail T) = Map.empty" using ok(1) by (intro mail_empty [OF _ n]) (simp add: mailbox_ok_def)
  qed
  ultimately show ?thesis by blast
qed

lemma mailbox_safe_witness:
  "thread_step plain_kernel 0 0 True demo_6 \<noteq> None \<and> subseq (st_sent demo_6) (st_posted demo_6)"
  using mailbox_safe [OF plain_kernel_documented demo_client_init(1), of 0 demo_6 "thread_step plain_kernel 0 0 True demo_6"]
    demo_reach(2) Run unfolding demo_0_def by blast

text \<open>One round of the thread delivers the whole queue. When a connected client's thread
  is past its delay, no send has failed so far and the kernel has room, then after one step per round and two
  per message everything posted has been sent, once and in order, and the local list is exhausted.\<close>

theorem round_delivers_queue:
  assumes "atomics_documented k" and "InitWithClient k n False ref u new_client = (True, c)"
    and "mailbox_reach k a (connected_state a c) T" and "st_pc T = Delayed" and "st_connected T" and "st_perfect T"
  shows "\<exists>steps T'. runs k a steps T = Some T' \<and> st_sent T' = st_posted T' \<and> st_posted T' = st_posted T \<and>
    st_pc T' = Draining None"
proof -
  obtain as bs where ok: "mailbox_ok a T as bs" "fifo T as bs" using connected_reach [OF assms(1-3)] .
  from round_delivers [OF assms(1) ok assms(4-6)] obtain T' where
    "runs k a (Suc (2 * length as)) T = Some T'" "st_sent T' = st_posted T'" "st_pc T' = Draining None" by blast
  moreover from this(1) have "st_posted T' = st_posted T" by (rule runs_posted)
  ultimately show ?thesis by blast
qed

lemma round_delivers_queue_witness:
  "\<exists>steps T'. runs plain_kernel 0 steps demo_3 = Some T' \<and> st_sent T' = st_posted demo_3 \<and> st_sent T' \<noteq> []"
  using round_delivers_queue [OF plain_kernel_documented demo_client_init(1) _ demo_states(3-5)]
    demo_reach(1) demo_states(9) unfolding demo_0_def by metis

text \<open>C12. A thread that is disconnected while it is awake ends: from every point between its
  wake-up and the end of its round (a message in hand included), three steps after the disconnect the thread
  has terminated and client, queue and messages are freed.\<close>

theorem disconnect_ends_thread:
  assumes "atomics_documented k" and "InitWithClient k n False ref u new_client = (True, c)"
    and "mailbox_reach k a (connected_state a c) T" and "\<not> st_connected T"
    and "st_pc T \<in> {Awake, Delayed} \<or> (\<exists>n. st_pc T = Draining (Some n) \<or> st_pc T = Attempted n)"
  shows "\<exists>T'. runs k a 3 T = Some T' \<and> st_pc T' = Terminated \<and> st_clients T' a = None \<and>
    messages (st_mail T') = Map.empty \<and> nodes (st_mail T') = Map.empty"
proof -
  obtain as bs where ok: "mailbox_ok a T as bs" "fifo T as bs" using connected_reach [OF assms(1-3)] .
  show ?thesis using closed_thread_ends [OF assms(1) ok assms(4,5)] .
qed

definition demo_closed :: SendState where
  "demo_closed = demo_3\<lparr>st_clients := [0 \<mapsto> (demo_client\<lparr>messageQueueHead := Some 0, messageQueueLast := Some 0,
     exitState := 1\<rparr>)], st_connected := False\<rparr>"

lemma demo_closed: "disconnect_event plain_kernel 0 demo_3 = Some demo_closed" "\<not> st_connected demo_closed"
  "st_pc demo_closed = Delayed"
  by (simp_all add: demo_closed_def demo_defs disconnect_event_def release_client_def CloseSignal_def Release_def wake_def)

lemma disconnect_ends_thread_witness:
  "\<exists>T'. runs plain_kernel 0 3 demo_closed = Some T' \<and> st_pc T' = Terminated \<and> messages (st_mail T') = Map.empty"
proof -
  have "mailbox_reach plain_kernel 0 demo_0 demo_closed"
    using reach_step [OF demo_reach(1)] Disconnect [OF demo_states(4), of plain_kernel 0] demo_states(3) demo_closed(1)
    by (metis pc.distinct(5))
  then show ?thesis
    using disconnect_ends_thread [OF plain_kernel_documented demo_client_init(1), of 0 demo_closed] demo_closed(2,3)
    unfolding demo_0_def by auto
qed

text \<open>C22. A lost wake-up. When the disconnect falls between the end of a round and the next
  \<open>IOLockSleep\<close>, its wake-up reaches nobody: the thread goes to sleep with the client still allocated, and the one
  step that changes anything from then on is a wake-up meant for another client (every client sleeps on event 0).
  If one comes, the thread ends and frees the client; as long as none does, the client is not freed.\<close>

theorem lost_wakeup:
  assumes "atomics_documented k" and "InitWithClient k n False ref u new_client = (True, c)"
    and "mailbox_reach k a (connected_state a c) T" and "st_connected T" and "st_pc T = Draining None"
  shows "\<exists>T1 T2 T3. disconnect_event k a T = Some T1 \<and> thread_step k a space accepted T1 = Some T2 \<and>
    st_pc T2 = Sleeping \<and> st_clients T2 a \<noteq> None \<and>
    (\<forall>R. mailbox_step k a T2 R \<longrightarrow> R = Some T2 \<or> R = Some (T2\<lparr>st_pc := Awake\<rparr>)) \<and>
    runs k a 3 (T2\<lparr>st_pc := Awake\<rparr>) = Some T3 \<and> st_pc T3 = Terminated \<and> st_clients T3 a = None"
proof -
  obtain as bs where ok: "mailbox_ok a T as bs" "fifo T as bs" using connected_reach [OF assms(1-3)] .
  show ?thesis using close_before_sleep_hangs [OF assms(1) ok assms(4,5)] .
qed

lemma lost_wakeup_witness:
  "\<exists>T1 T2 T3. disconnect_event plain_kernel 0 demo_6 = Some T1 \<and> thread_step plain_kernel 0 0 True T1 = Some T2 \<and>
    st_pc T2 = Sleeping \<and> st_clients T2 0 \<noteq> None \<and>
    runs plain_kernel 0 3 (T2\<lparr>st_pc := Awake\<rparr>) = Some T3 \<and> st_clients T3 0 = None"
  using lost_wakeup [OF plain_kernel_documented demo_client_init(1) _ demo_states(7,6)] demo_reach(2)
  unfolding demo_0_def by blast

text \<open>C23. The start of the thread races with the rest of the extension. \<open>InitWithClient\<close> sets the
  reference count to 1 after it has started the thread. Whether the thread has already taken its reference by then
  (which the assignment overwrites) or has not run at all, a disconnect now frees the client, and the next
  step of the thread reads freed memory.\<close>

theorem startup_race:
  assumes "atomics_documented k" and "InitWithClient k n early ref u new_client = (True, c)"
  shows "\<exists>T. disconnect_event k a ((connected_state a c)\<lparr>st_pc := if early then Sleeping else Starting\<rparr>) = Some T \<and>
    st_clients T a = None \<and> thread_step k a space accepted T = None"
proof (cases early)
  case True
  with assms(2) early_retain_faults [OF assms(1), of n ref u c a space accepted] obtain T where
    T: "disconnect_event k a ((connected_state a c)\<lparr>st_pc := Sleeping\<rparr>) = Some T" "st_pc T = Awake"
      "thread_step k a space accepted T = None" by auto
  from T(2,3) have "st_clients T a = None" by (auto simp: thread_step_def Let_def split: bind_splits)
  with T True show ?thesis by auto
next
  case False
  have pc: "(connected_state a c)\<lparr>st_pc := Starting\<rparr> = connected_state a c" by (simp add: connected_state_def)
  from False assms(2) disconnect_before_start [OF assms(1), of n ref u c a space accepted] obtain T where
    T: "disconnect_event k a (connected_state a c) = Some T" "st_pc T = Starting"
      "thread_step k a space accepted T = None" by auto
  from T(2,3) have "st_clients T a = None" by (auto simp: thread_step_def Let_def split: bind_splits)
  with T False pc show ?thesis by auto
qed

lemma startup_race_witness:
  "\<exists>T. disconnect_event plain_kernel 0 (demo_0\<lparr>st_pc := Sleeping\<rparr>) = Some T \<and> thread_step plain_kernel 0 0 True T = None"
  using startup_race [OF plain_kernel_documented demo_client_init(2), of 0 0 True] unfolding demo_0_def by auto

end
