(* ===== verification/Firewall.thy ===== *)
theory Firewall
  imports Clients Cookie SendThread
begin

text \<open>
  The global state of the extension and its entry points (Kext/firewall.h, Kext/firewall.cpp), the
  commands of the kernel-control socket apart (theory KcSend): starting and stopping, the socket
  filter callbacks, connecting and disconnecting clients, and the broadcast of messages.

  The functions follow the callbacks of the source; the object \<open>firewall\<close> is their last argument and
  part of their result. The process and user ids the kernel reports are arguments.
\<close>

record protocol =
  handle :: u32
  p_domain :: nat
  p_type :: nat
  p_proto :: nat
  p_state :: bool

record Firewall =
  firewallUp :: bool
  closing :: bool
  countSubscribersForInfoSockets :: s32
  countSubscribersForInfoRules :: s32
  countSubscribersAsaProviderOfRules :: s32
  countSubscribersForDebug :: s32
  rules :: Rules
  applications :: Applications
  cookies :: SocketCookies
  protocols :: "protocol list"
  kernelControlReference :: bool
  lockClientsQueue :: bool
  clients :: ptr
  client_heap :: "Client heap"
  clients_made :: nat
  mail :: Mail

datatype errno = KERN_SUCCESS | KERN_FAILURE | KERN_TERMINATED | ENOMEM | EBUSY

section \<open>Socket filter registration\<close>

text \<open>
  \<open>protocols[]\<close>: PF_INET is 2, PF_INET6 is 30; the socket types are 1 (stream), 2 (datagram), 3 (raw);
  TCP is 6, UDP 17, ICMP 1.
\<close>

definition initial_protocols :: "protocol list" where
  "initial_protocols =
     [\<lparr>handle = 0xBACAF000, p_domain = 2, p_type = 1, p_proto = 6, p_state = False\<rparr>,
      \<lparr>handle = 0xBACAF001, p_domain = 2, p_type = 2, p_proto = 17, p_state = False\<rparr>,
      \<lparr>handle = 0xBACAF002, p_domain = 2, p_type = 3, p_proto = 1, p_state = False\<rparr>,
      \<lparr>handle = 0xBACAF003, p_domain = 30, p_type = 1, p_proto = 6, p_state = False\<rparr>,
      \<lparr>handle = 0xBACAF004, p_domain = 30, p_type = 2, p_proto = 17, p_state = False\<rparr>,
      \<lparr>handle = 0xBACAF005, p_domain = 30, p_type = 3, p_proto = 1, p_state = False\<rparr>]"

text \<open>\<open>fails p\<close>: \<open>sflt_register\<close> (\<open>sflt_unregister\<close>) reports an error for the entry.\<close>

definition RegisterSocketFilters :: "(protocol \<Rightarrow> bool) \<Rightarrow> Firewall \<Rightarrow> bool \<times> Firewall" where
  "RegisterSocketFilters fails F =
     (True, F\<lparr>protocols := map (\<lambda>p. if fails p then p else p\<lparr>p_state := True\<rparr>) (protocols F)\<rparr>)"

definition UnregisterSocketFilters :: "(protocol \<Rightarrow> bool) \<Rightarrow> Firewall \<Rightarrow> bool \<times> Firewall" where
  "UnregisterSocketFilters fails F =
     (True, F\<lparr>protocols := map (\<lambda>p. if p_state p \<and> \<not> fails p then p\<lparr>p_state := False\<rparr> else p) (protocols F)\<rparr>)"

section \<open>Sending to the clients\<close>

definition Firewall_Send :: "kernel \<Rightarrow> ptr \<Rightarrow> Firewall \<Rightarrow> Firewall option" where
  "Firewall_Send k message F =
     (if \<not> lockClientsQueue F then Some F
      else do {
        (H, M) \<leftarrow> Send_loop k message (clients F) (client_heap F, mail F);
        Some (F\<lparr>client_heap := H, mail := M\<rparr>)
      })"

definition store_message :: "Message \<Rightarrow> Mail \<Rightarrow> Mail" where
  "store_message x M =
     M\<lparr>messages := (messages M)(messages_made M \<mapsto> x), messages_made := Suc (messages_made M)\<rparr>"

text \<open>\<open>message->Release()\<close>\<close>

definition release_message :: "kernel \<Rightarrow> ptr \<Rightarrow> Mail \<Rightarrow> Mail option" where
  "release_message k p M = map_option (\<lambda>ms. M\<lparr>messages := ms\<rparr>) (release_at k p (messages M))"

text \<open>
  \<open>message = Message::CreateX(..); firewall.Send(message); message->Release();\<close> as the filter
  callbacks have it: a NULL message is sent (nothing happens) and then dereferenced.
\<close>

definition announce :: "kernel \<Rightarrow> Message option option \<Rightarrow> Firewall \<Rightarrow> Firewall option" where
  "announce k made F = do {
     r \<leftarrow> made;
     case r of
       None \<Rightarrow> do { F1 \<leftarrow> Firewall_Send k None F; M \<leftarrow> release_message k None (mail F1); Some (F1\<lparr>mail := M\<rparr>) }
     | Some x \<Rightarrow> do {
         let p = Some (messages_made (mail F));
         F1 \<leftarrow> Firewall_Send k p (F\<lparr>mail := store_message x (mail F)\<rparr>);
         M \<leftarrow> release_message k p (mail F1);
         Some (F1\<lparr>mail := M\<rparr>)
       }
   }"

abbreviation next_message :: "Firewall \<Rightarrow> nat" where
  "next_message F \<equiv> messages_made (mail F)"

definition if_debug :: "(Firewall \<Rightarrow> Firewall option) \<Rightarrow> Firewall \<Rightarrow> Firewall option" where
  "if_debug act F = (if countSubscribersForDebug F \<noteq> 0 then act F else Some F)"

section \<open>Socket filter callbacks\<close>

text \<open>\<open>fresh\<close>: what the memory of the new cookie holds; \<open>types\<close>: what \<open>sock_gettype\<close> reports.\<close>

definition Attach ::
  "kernel \<Rightarrow> abi \<Rightarrow> SocketCookie \<Rightarrow> caller \<Rightarrow> u64 \<Rightarrow> u32 \<times> u32 \<times> u32 \<Rightarrow> Firewall \<Rightarrow> (errno \<times> ptr \<times> Firewall) option" where
  "Attach k abi fresh who so types F =
     (if closing F then Some (ENOMEM, None, F)
      else if \<not> grants k NewCookie (cookies_made (cookies F)) then Some (ENOMEM, None, F)
      else do {
        (app, A) \<leftarrow> Applications_Get k who (applications F);
        let F1 = F\<lparr>applications := A\<rparr>;
        let n = cookies_made (cookies F);
        if app = None then Some (ENOMEM, None, F1\<lparr>cookies := (cookies F)\<lparr>cookies_made := Suc n\<rparr>\<rparr>)
        else do {
          let cookie = (SetSocket so types (fresh\<lparr>application := app\<rparr>))\<lparr>state := Some SocketCookieStateALLOWED\<rparr>;
          C \<leftarrow> Cookies_Add n ((cookies F)\<lparr>cookies_made := Suc n,
             cookie_heap := (cookie_heap (cookies F))(n \<mapsto> cookie)\<rparr>);
          F2 \<leftarrow> if_debug (\<lambda>F. announce k (CreateSfltAttach k abi (next_message F) (selfpid who) (kauth_uid who) so
                  (ucast (sockProtocol cookie))) F) (F1\<lparr>cookies := C\<rparr>);
          Some (KERN_SUCCESS, Some n, F2)
        }
      })"

definition Detach :: "kernel \<Rightarrow> abi \<Rightarrow> caller \<Rightarrow> ptr \<Rightarrow> u64 \<Rightarrow> Firewall \<Rightarrow> Firewall option" where
  "Detach k abi who cookie so F = do {
     F1 \<leftarrow> (case cookie of None \<Rightarrow> Some F
            | Some a \<Rightarrow> do {
                C \<leftarrow> Cookies_Remove a (cookies F);
                (C', rh, ah) \<leftarrow> SocketCookie_Free k a (C, rules_heap (rules F), app_heap (applications F));
                Some (F\<lparr>cookies := C', rules := (rules F)\<lparr>rules_heap := rh\<rparr>,
                        applications := (applications F)\<lparr>app_heap := ah\<rparr>\<rparr>)
              });
     if closing F1 then Some F1
     else if_debug (\<lambda>F. announce k (CreateSfltDetach k abi (next_message F) (selfpid who) (kauth_uid who) so) F) F1
   }"

definition Notify :: "kernel \<Rightarrow> abi \<Rightarrow> caller \<Rightarrow> u64 \<Rightarrow> u16 \<Rightarrow> Firewall \<Rightarrow> Firewall option" where
  "Notify k abi who so event F =
     (if closing F then Some F
      else if_debug (\<lambda>F. announce k (CreateSfltNotify k abi (next_message F) (selfpid who) (kauth_uid who) so event) F) F)"

text \<open>
  The verdict callbacks: nothing when the extension is closing, the announcement when somebody
  listens for debug messages, and \<open>KERN_SUCCESS\<close> in any case.
\<close>

definition verdict :: "(Firewall \<Rightarrow> Firewall option) \<Rightarrow> Firewall \<Rightarrow> (errno \<times> Firewall) option" where
  "verdict act F = (if closing F then Some (KERN_SUCCESS, F) else map_option (Pair KERN_SUCCESS) (if_debug act F))"

definition GetPeerName :: "kernel \<Rightarrow> abi \<Rightarrow> caller \<Rightarrow> u64 \<Rightarrow> u8 list option \<Rightarrow> Firewall \<Rightarrow> (errno \<times> Firewall) option" where
  "GetPeerName k abi who so sa = verdict (\<lambda>F. announce k
     (CreateSfltGetPeerName k abi (next_message F) (selfpid who) (kauth_uid who) so sa) F)"

definition GetSockName :: "kernel \<Rightarrow> abi \<Rightarrow> caller \<Rightarrow> u64 \<Rightarrow> u8 list option \<Rightarrow> Firewall \<Rightarrow> (errno \<times> Firewall) option" where
  "GetSockName k abi who so sa = verdict (\<lambda>F. announce k
     (CreateSfltGetSockName k abi (next_message F) (selfpid who) (kauth_uid who) so sa) F)"

definition DataIn :: "kernel \<Rightarrow> abi \<Rightarrow> caller \<Rightarrow> ptr \<Rightarrow> u64 \<Rightarrow> u8 list option \<Rightarrow> Firewall \<Rightarrow> (errno \<times> Firewall) option" where
  "DataIn k abi who cookie so peer = verdict (\<lambda>F. do {
     c \<leftarrow> deref (cookie_heap (cookies F)) cookie;
     announce k (CreateSfltDataIn k abi (next_message F) (selfpid who) (kauth_uid who) so (ucast (sockProtocol c)) peer) F })"

definition DataOut :: "kernel \<Rightarrow> abi \<Rightarrow> caller \<Rightarrow> ptr \<Rightarrow> u64 \<Rightarrow> u8 list option \<Rightarrow> Firewall \<Rightarrow> (errno \<times> Firewall) option" where
  "DataOut k abi who cookie so to = verdict (\<lambda>F. do {
     c \<leftarrow> deref (cookie_heap (cookies F)) cookie;
     announce k (CreateSfltDataOut k abi (next_message F) (selfpid who) (kauth_uid who) so (ucast (sockProtocol c)) to) F })"

definition ConnectIn :: "kernel \<Rightarrow> abi \<Rightarrow> caller \<Rightarrow> u64 \<Rightarrow> u8 list option \<Rightarrow> Firewall \<Rightarrow> (errno \<times> Firewall) option" where
  "ConnectIn k abi who so peer = verdict (\<lambda>F. announce k
     (CreateSfltConnectIn k abi (next_message F) (selfpid who) (kauth_uid who) so peer) F)"

definition ConnectOut :: "kernel \<Rightarrow> abi \<Rightarrow> caller \<Rightarrow> u64 \<Rightarrow> u8 list option \<Rightarrow> Firewall \<Rightarrow> (errno \<times> Firewall) option" where
  "ConnectOut k abi who so to = verdict (\<lambda>F. announce k
     (CreateSfltConnectOut k abi (next_message F) (selfpid who) (kauth_uid who) so to) F)"

definition Bind :: "kernel \<Rightarrow> abi \<Rightarrow> caller \<Rightarrow> u64 \<Rightarrow> u8 list option \<Rightarrow> Firewall \<Rightarrow> (errno \<times> Firewall) option" where
  "Bind k abi who so to = verdict (\<lambda>F. announce k
     (CreateSfltBind k abi (next_message F) (selfpid who) (kauth_uid who) so to) F)"

definition SetOption :: "kernel \<Rightarrow> abi \<Rightarrow> caller \<Rightarrow> u64 \<Rightarrow> u32 \<Rightarrow> Firewall \<Rightarrow> (errno \<times> Firewall) option" where
  "SetOption k abi who so opt = verdict (\<lambda>F. announce k
     (CreateSfltSetOption k abi (next_message F) (selfpid who) (kauth_uid who) so opt) F)"

definition GetOption :: "kernel \<Rightarrow> abi \<Rightarrow> caller \<Rightarrow> u64 \<Rightarrow> u32 \<Rightarrow> Firewall \<Rightarrow> (errno \<times> Firewall) option" where
  "GetOption k abi who so opt = verdict (\<lambda>F. announce k
     (CreateSfltGetOption k abi (next_message F) (selfpid who) (kauth_uid who) so opt) F)"

definition Listen :: "kernel \<Rightarrow> abi \<Rightarrow> caller \<Rightarrow> u64 \<Rightarrow> Firewall \<Rightarrow> (errno \<times> Firewall) option" where
  "Listen k abi who so = verdict (\<lambda>F. announce k
     (CreateSfltListen k abi (next_message F) (selfpid who) (kauth_uid who) so) F)"

definition Ioctl :: "kernel \<Rightarrow> abi \<Rightarrow> caller \<Rightarrow> u64 \<Rightarrow> u32 \<Rightarrow> Firewall \<Rightarrow> (errno \<times> Firewall) option" where
  "Ioctl k abi who so request = verdict (\<lambda>F. announce k
     (CreateSfltIoctl k abi (next_message F) (selfpid who) (kauth_uid who) so request) F)"

definition Accept ::
  "kernel \<Rightarrow> abi \<Rightarrow> caller \<Rightarrow> u64 \<Rightarrow> u64 \<Rightarrow> u8 list option \<Rightarrow> u8 list option \<Rightarrow> Firewall \<Rightarrow> (errno \<times> Firewall) option" where
  "Accept k abi who so_listen so local remote = verdict (\<lambda>F. announce k
     (CreateSfltAccept k abi (next_message F) (selfpid who) (kauth_uid who) so_listen so local remote) F)"

section \<open>Clients come and go\<close>


text \<open>\<open>if(curr->registredMessageClases & cl) OSDecrementAtomic(&count);\<close>\<close>

definition decrement_if :: "kernel \<Rightarrow> Client \<Rightarrow> MessagesClass \<Rightarrow> s32 \<Rightarrow> s32" where
  "decrement_if k c cl count = (if subscribed c cl then snd (OSDecrementAtomic k count) else count)"

definition KcDisconnect :: "kernel \<Rightarrow> ptr \<Rightarrow> Firewall \<Rightarrow> (errno \<times> Firewall) option" where
  "KcDisconnect k unitinfo F =
     (case unitinfo of None \<Rightarrow> Some (KERN_SUCCESS, F)
      | Some a \<Rightarrow>
          if \<not> lockClientsQueue F then None
          else do {
            found \<leftarrow> find_client a (client_heap F) None (clients F);
            case found of None \<Rightarrow> Some (KERN_SUCCESS, F)
            | Some prev \<Rightarrow> do {
                (first, H) \<leftarrow> unlink_client a prev (clients F, client_heap F);
                c0 \<leftarrow> H a;
                let c = CloseSignal k c0;
                (H', M) \<leftarrow> release_client k a (H(a \<mapsto> c), mail F);
                Some (KERN_SUCCESS, F\<lparr>clients := first, client_heap := H', mail := M,
                  countSubscribersAsaProviderOfRules :=
                    decrement_if k c MessageClassProviderOfRules (countSubscribersAsaProviderOfRules F),
                  countSubscribersForInfoRules :=
                    decrement_if k c MessageClassInfoRules (countSubscribersForInfoRules F),
                  countSubscribersForInfoSockets :=
                    decrement_if k c MessageClassInfoSockets (countSubscribersForInfoSockets F),
                  countSubscribersForDebug :=
                    decrement_if k c MessageClassCommon (countSubscribersForDebug F)\<rparr>)
              }
          })"

section \<open>Starting and stopping\<close>

text \<open>\<open>registers\<close>: whether \<open>ctl_register\<close> succeeds.\<close>

definition RegisterKernelControl :: "kernel \<Rightarrow> nat \<Rightarrow> bool \<Rightarrow> Firewall \<Rightarrow> bool \<times> Firewall" where
  "RegisterKernelControl k n registers F =
     (if grants k NewLock n then
        if registers then (True, F\<lparr>lockClientsQueue := True, kernelControlReference := True\<rparr>)
        else (False, F\<lparr>lockClientsQueue := False\<rparr>)
      else (False, F\<lparr>lockClientsQueue := False\<rparr>))"



text \<open>What the kernel answers while the extension starts, and while it stops.\<close>

record startup =
  s_tagFound :: bool
  s_threadStarts :: bool
  s_listens :: bool
  s_sfltFails :: "protocol \<Rightarrow> bool" \<comment> \<open>sflt_register\<close>
  s_unregFails :: "protocol \<Rightarrow> bool" \<comment> \<open>sflt_unregister\<close>
  s_registers :: bool

definition Firewall_Init :: "kernel \<Rightarrow> startup \<Rightarrow> Firewall \<Rightarrow> (bool \<times> Firewall) option" where
  "Firewall_Init k e F0 = (let F = F0\<lparr>closing := False\<rparr> in do {
     (ok, C) \<leftarrow> Cookies_Init k 1 (s_tagFound e) (cookies F);
     let F = F\<lparr>cookies := C\<rparr>;
     if \<not> ok then Some (False, F)
     else do {
       (ok, F1) \<leftarrow> (case Rules_Init k (rules F) of
           (False, R) \<Rightarrow> Some (False, F\<lparr>rules := R\<rparr>)
         | (True, R) \<Rightarrow> let F = F\<lparr>rules := R\<rparr> in do {
             (ok, F1) \<leftarrow> (case Applications_Init k 2 (s_threadStarts e) (s_listens e) (applications F) of
                 (False, A) \<Rightarrow> Some (False, F\<lparr>applications := A\<rparr>)
               | (True, A) \<Rightarrow> let F = F\<lparr>applications := A\<rparr> in do {
                   let (_, F1) = RegisterSocketFilters (s_sfltFails e) F;
                   let (ok, F2) = RegisterKernelControl k 4 (s_registers e) F1;
                   if ok then Some (True, F2)
                   else do {
                     let (_, F3) = UnregisterSocketFilters (s_unregFails e) F2;
                     A' \<leftarrow> Applications_Free k (applications F3);
                     Some (False, F3\<lparr>applications := A'\<rparr>)
                   }
                 });
             if ok then Some (True, F1)
             else do { R' \<leftarrow> Rules_Free k (rules F1); Some (False, F1\<lparr>rules := R'\<rparr>) }
           });
       if ok then Some (True, F1)
       else do { (_, C') \<leftarrow> Cookies_Free (cookies F1); Some (False, F1\<lparr>cookies := C'\<rparr>) }
     }
   })"


text \<open>\<open>watch_start\<close> and \<open>watch_stop\<close> (Kext/watch.cpp): true is KERN_SUCCESS.\<close>

definition watch_start :: "kernel \<Rightarrow> startup \<Rightarrow> Firewall \<Rightarrow> (errno \<times> Firewall) option" where
  "watch_start k e F =
     map_option (\<lambda>(ok, F'). (if ok then KERN_SUCCESS else KERN_FAILURE, F')) (Firewall_Init k e F)"


section \<open>The clients' part of the state\<close>

text \<open>
  \<open>wired held F cs Q\<close>: the control socket is registered, \<open>cs\<close> are the connected clients, and the
  debug counter counts them (every client subscribes to the debug messages when it connects and
  keeps that subscription). \<open>room\<close> keeps the 32-bit counts away from their limit.
\<close>

definition wired :: "addr set \<Rightarrow> Firewall \<Rightarrow> addr list \<Rightarrow> (addr \<Rightarrow> addr list) \<Rightarrow> bool" where
  "wired held F cs Q \<longleftrightarrow>
     lockClientsQueue F \<and> clients_ok held (clients F) (client_heap F) (mail F) cs Q \<and>
     below (clients_made F) (client_heap F) \<and> countSubscribersForDebug F = of_nat (length cs)"

definition room :: "Firewall \<Rightarrow> addr list \<Rightarrow> bool" where
  "room F cs \<longleftrightarrow> nodes_made (mail F) + length cs + 1 < 2 ^ 32"

text \<open>The state with other clients and another mail; nothing else changes in a broadcast.\<close>

definition with_inbox :: "Client heap \<Rightarrow> Mail \<Rightarrow> Firewall \<Rightarrow> Firewall" where
  "with_inbox H M F = F\<lparr>client_heap := H, mail := M\<rparr>"

lemma with_inbox_fields [simp]:
  "client_heap (with_inbox H M F) = H" "mail (with_inbox H M F) = M"
  "firewallUp (with_inbox H M F) = firewallUp F" "closing (with_inbox H M F) = closing F"
  "rules (with_inbox H M F) = rules F" "applications (with_inbox H M F) = applications F"
  "cookies (with_inbox H M F) = cookies F" "clients (with_inbox H M F) = clients F"
  "lockClientsQueue (with_inbox H M F) = lockClientsQueue F" "clients_made (with_inbox H M F) = clients_made F"
  "countSubscribersForDebug (with_inbox H M F) = countSubscribersForDebug F"
  "with_inbox H' M' (with_inbox H M F) = with_inbox H' M' F"
  "with_inbox (client_heap F) (mail F) F = F"
  by (simp_all add: with_inbox_def)

text \<open>
  \<open>delivered\<close>: what a broadcast of the message \<open>x\<close>, the object \<open>m\<close>, does to the queues of the clients.
\<close>

definition delivered ::
  "kernel \<Rightarrow> addr \<Rightarrow> Message \<Rightarrow> Firewall \<Rightarrow> addr list \<Rightarrow> (addr \<Rightarrow> addr list) \<Rightarrow> Firewall \<Rightarrow> (addr \<Rightarrow> addr list) \<Rightarrow> bool" where
  "delivered k m x F cs Q F' Q' \<longleftrightarrow> (\<forall>a\<in>set cs. \<exists>c c'. client_heap F a = Some c \<and> client_heap F' a = Some c' \<and>
     sans_queue c' = sans_queue c \<and>
     offered k m x c (posted (nodes (mail F)) (Q a)) (posted (nodes (mail F')) (Q' a)))"

lemma wiredD:
  assumes "wired held F cs Q"
  shows "lockClientsQueue F" and "clients_ok held (clients F) (client_heap F) (mail F) cs Q"
    and "client_heap F a = Some c \<Longrightarrow> a < clients_made F" and "client_heap F (clients_made F) = None"
    and "mail_ok held (mail F)" and "countSubscribersForDebug F = of_nat (length cs)"
    and "a \<in> set cs \<Longrightarrow> \<exists>c. client_heap F a = Some c \<and> queue_ok (nodes (mail F)) c (Q a) \<and> exitState c = 0 \<and>
      subscribed c MessageClassCommon"
proof -
  show ok: "clients_ok held (clients F) (client_heap F) (mail F) cs Q" and "lockClientsQueue F"
    and "countSubscribersForDebug F = of_nat (length cs)"
    and "client_heap F (clients_made F) = None" and "client_heap F a = Some c \<Longrightarrow> a < clients_made F"
    using assms below_fresh [of "clients_made F" "client_heap F"] by (auto simp: wired_def below_def)
  show "mail_ok held (mail F)" using clients_okD(1) [OF ok] .
  show "a \<in> set cs \<Longrightarrow> \<exists>c. client_heap F a = Some c \<and> queue_ok (nodes (mail F)) c (Q a) \<and> exitState c = 0 \<and>
      subscribed c MessageClassCommon" using clients_okD(5) [OF ok] .
qed

lemma Firewall_Send_ok:
  assumes k: "atomics_documented k" and w: "wired held F cs Q" and m: "messages (mail F) m = Some x" and r: "room F cs"
  shows "\<exists>H M Q'. Firewall_Send k (Some m) F = Some (with_inbox H M F) \<and> wired held (with_inbox H M F) cs Q' \<and>
    broadcast_done k m x cs (client_heap F) (mail F) Q H M Q'"
proof -
  from r have r': "nodes_made (mail F) + length cs + 1 < 2 ^ 32" by (simp add: room_def)
  from broadcast_ok [OF k wiredD(2) [OF w] m r'] obtain H M Q' where
    s: "Send_loop k (Some m) (clients F) (client_heap F, mail F) = Some (H, M)"
    and ok: "clients_ok held (clients F) H M cs Q'" and b: "broadcast_done k m x cs (client_heap F) (mail F) Q H M Q'" by blast
  have "a < clients_made F" if "H a = Some c" for a c
  proof (cases "a \<in> set cs")
    case True
    with wiredD(7) [OF w] wiredD(3) [OF w] show ?thesis by blast
  next
    case False
    with b that wiredD(3) [OF w, of a c] show ?thesis by (simp add: broadcast_done_def)
  qed
  then have "wired held (with_inbox H M F) cs Q'" using w ok by (simp add: wired_def below_def)
  with s b wiredD(1) [OF w] show ?thesis
    by (intro exI [of _ H] exI [of _ M] exI [of _ Q']) (simp add: Firewall_Send_def with_inbox_def)
qed

text \<open>Making a message, sending it to everybody and letting it go.\<close>

lemma store_ok:
  assumes "wired held F cs Q" and "message_ok ty x"
  shows "wired (insert (messages_made (mail F)) held) (F\<lparr>mail := store_message x (mail F)\<rparr>) cs Q"
  using assms clients_ok_mail [OF wiredD(2) [OF assms(1)], of _ "store_message x (mail F)"] hold_new [OF wiredD(5) [OF assms(1)] assms(2)]
  by (simp add: wired_def store_message_def)

lemma release_ok:
  assumes k: "atomics_documented k" and w: "wired held F cs Q" and m: "m \<in> held"
  shows "\<exists>M. release_message k (Some m) (mail F) = Some M \<and> wired (held - {m}) (F\<lparr>mail := M\<rparr>) cs Q \<and> nodes M = nodes (mail F) \<and>
    nodes_made M = nodes_made (mail F) \<and> messages_made M = messages_made (mail F) \<and>
    (\<forall>b. messages M b \<noteq> None \<longrightarrow> map_option raw (messages M b) = map_option raw (messages (mail F) b))"
proof -
  from let_go [OF k wiredD(5) [OF w] m] obtain ms where ms: "release_at k (Some m) (messages (mail F)) = Some ms"
    "mail_ok (held - {m}) ((mail F)\<lparr>messages := ms\<rparr>)"
    "\<forall>b. ms b \<noteq> None \<longrightarrow> map_option raw (ms b) = map_option raw (messages (mail F) b)" by blast
  have "clients_ok (held - {m}) (clients F) (client_heap F) ((mail F)\<lparr>messages := ms\<rparr>) cs Q"
    by (rule clients_ok_mail [OF wiredD(2) [OF w] ms(2)]) simp
  with w ms show ?thesis by (simp add: release_message_def wired_def)
qed

definition announced ::
  "kernel \<Rightarrow> Message \<Rightarrow> Firewall \<Rightarrow> addr list \<Rightarrow> (addr \<Rightarrow> addr list) \<Rightarrow> Firewall \<Rightarrow> (addr \<Rightarrow> addr list) \<Rightarrow> bool" where
  "announced k x F cs Q F' Q' \<longleftrightarrow>
     F' = with_inbox (client_heap F') (mail F') F \<and> delivered k (next_message F) x F cs Q F' Q' \<and>
     (\<forall>y. messages (mail F') (next_message F) = Some y \<longrightarrow> raw y = raw x) \<and>
     nodes_made (mail F') \<le> nodes_made (mail F) + length cs"

lemma announce_ok:
  assumes k: "atomics_documented k" and w: "wired held F cs Q" and made: "made = Some (Some x)" "message_ok ty x"
    and r: "room F cs"
  shows "\<exists>F' Q'. announce k made F = Some F' \<and> wired held F' cs Q' \<and> announced k x F cs Q F' Q'"
proof -
  let ?m = "messages_made (mail F)" and ?F = "F\<lparr>mail := store_message x (mail F)\<rparr>"
  have fresh: "?m \<notin> held"
    using mail_okD(3) [OF wiredD(5) [OF w], of ?m] below_fresh [OF mail_okD(2) [OF wiredD(5) [OF w]]] by blast
  have x: "messages (mail ?F) ?m = Some x" by (simp add: store_message_def)
  have "room ?F cs" using r by (simp add: room_def store_message_def)
  from Firewall_Send_ok [OF k store_ok [OF w made(2)] x this] obtain H M Q' where
    s: "Firewall_Send k (Some ?m) ?F = Some (with_inbox H M ?F)" "wired (insert ?m held) (with_inbox H M ?F) cs Q'"
      "broadcast_done k ?m x cs (client_heap ?F) (mail ?F) Q H M Q'" by blast
  from release_ok [OF k s(2), of ?m] obtain M' where
    m: "release_message k (Some ?m) M = Some M'" "wired held ((with_inbox H M ?F)\<lparr>mail := M'\<rparr>) cs Q'"
      "nodes M' = nodes M" "nodes_made M' = nodes_made M"
      "\<forall>b. messages M' b \<noteq> None \<longrightarrow> map_option raw (messages M' b) = map_option raw (messages M b)"
    using fresh by auto
  let ?F' = "(with_inbox H M ?F)\<lparr>mail := M'\<rparr>"
  have "announce k made F = Some ?F'" using made(1) s(1) m(1) by (simp add: announce_def Let_def)
  moreover have "delivered k ?m x F cs Q ?F' Q'"
    using s(3) m(3) by (simp add: delivered_def broadcast_done_def store_message_def) blast
  moreover have "raw y = raw x" if "messages M' ?m = Some y" for y
    using m(5) [rule_format, of ?m] that s(3) by (auto simp: broadcast_done_def store_message_def)
  moreover have "nodes_made M' \<le> nodes_made (mail F) + length cs"
    using s(3) m(4) by (simp add: broadcast_done_def store_message_def)
  ultimately show ?thesis
    using m(2) by (intro exI [of _ ?F'] exI [of _ Q']) (simp add: announced_def with_inbox_def)
qed

text \<open>A NULL message is dereferenced.\<close>

lemma announce_null: "announce k (Some None) F = None"
proof -
  have "release_message k None M = None" for M by (simp add: release_message_def release_at_def)
  then show ?thesis by (cases "Firewall_Send k None F") (simp_all add: announce_def)
qed

section \<open>The callbacks of the socket filter\<close>

text \<open>
  \<open>socket_call k abi F r\<close>: \<open>r\<close> is what one of the twelve deciding callbacks does in the state \<open>F\<close> for
  arguments as the kernel passes them.
\<close>

inductive socket_call :: "kernel \<Rightarrow> abi \<Rightarrow> Firewall \<Rightarrow> (errno \<times> Firewall) option \<Rightarrow> bool"
  for k :: kernel and abi :: abi and F :: Firewall where
  call_peer: "socket_call k abi F (GetPeerName k abi who so sa F)" if "sockaddr_ok sa"
| call_sock: "socket_call k abi F (GetSockName k abi who so sa F)" if "sockaddr_ok sa"
| call_in: "socket_call k abi F (DataIn k abi who cookie so sa F)" if "sockaddr_ok sa" "deref (cookie_heap (cookies F)) cookie = Some c"
| call_out: "socket_call k abi F (DataOut k abi who cookie so sa F)" if "sockaddr_ok sa" "deref (cookie_heap (cookies F)) cookie = Some c"
| call_connect_in: "socket_call k abi F (ConnectIn k abi who so sa F)" if "sockaddr_ok sa"
| call_connect_out: "socket_call k abi F (ConnectOut k abi who so sa F)" if "sockaddr_ok sa"
| call_bind: "socket_call k abi F (Bind k abi who so sa F)" if "sockaddr_ok sa"
| call_set: "socket_call k abi F (SetOption k abi who so opt F)"
| call_get: "socket_call k abi F (GetOption k abi who so opt F)"
| call_listen: "socket_call k abi F (Listen k abi who so F)"
| call_ioctl: "socket_call k abi F (Ioctl k abi who so request F)"
| call_accept: "socket_call k abi F (Accept k abi who so_listen so local remote F)" if "sockaddr_ok local" "sockaddr_ok remote"

lemma announce_created:
  assumes "atomics_documented k" and "wired held F cs Q" and "room F cs" and "grants k NewMessage (next_message F)"
    and "created k abi (next_message F) ty made"
  shows "\<exists>F' Q' x. announce k made F = Some F' \<and> wired held F' cs Q' \<and> made = Some (Some x) \<and> announced k x F cs Q F' Q'"
proof -
  from created_message [OF assms(5,4)] obtain x where x: "made = Some (Some x)" "message_ok (server_code ty) x" by blast
  with announce_ok [OF assms(1,2) x assms(3)] show ?thesis by blast
qed

lemma socket_call_act:
  assumes "socket_call k abi F r"
  shows "\<exists>act ty made. r = verdict act F \<and> act F = announce k made F \<and> created k abi (next_message F) ty made"
  using assms
proof cases
  case (call_in sa cookie c who so)
  then show ?thesis
    by (intro exI) (auto simp: DataIn_def intro: created.SfltDataIn)
next
  case (call_out sa cookie c who so)
  then show ?thesis
    by (intro exI) (auto simp: DataOut_def intro: created.SfltDataOut)
qed (auto simp: GetPeerName_def GetSockName_def ConnectIn_def ConnectOut_def Bind_def SetOption_def GetOption_def
      Listen_def Ioctl_def Accept_def intro!: created.intros exI)

lemma socket_call_ok:
  assumes k: "atomics_documented k" and c: "socket_call k abi F r" and w: "wired held F cs Q" and rm: "room F cs"
    and g: "closing F \<or> countSubscribersForDebug F = 0 \<or> grants k NewMessage (next_message F)"
  shows "\<exists>F' Q'. r = Some (KERN_SUCCESS, F') \<and> wired held F' cs Q' \<and> F' = with_inbox (client_heap F') (mail F') F"
proof -
  from socket_call_act [OF c] obtain act ty made where
    a: "r = verdict act F" "act F = announce k made F" "created k abi (next_message F) ty made" by blast
  show ?thesis
  proof (cases "closing F \<or> countSubscribersForDebug F = 0")
    case True
    then have "r = Some (KERN_SUCCESS, F)" using a(1) by (auto simp: verdict_def if_debug_def)
    with w show ?thesis by (intro exI [of _ F] exI [of _ Q]) simp
  next
    case False
    with g have "grants k NewMessage (next_message F)" by blast
    from announce_created [OF k w rm this a(3)] obtain F' Q' x where
      "announce k made F = Some F'" "wired held F' cs Q'" "announced k x F cs Q F' Q'" by blast
    with a False show ?thesis by (auto simp: verdict_def if_debug_def announced_def)
  qed
qed

lemma socket_call_null:
  assumes c: "socket_call k abi F r" and g: "\<not> grants k NewMessage (next_message F)"
    and "\<not> closing F" and "countSubscribersForDebug F \<noteq> 0"
  shows "r = None"
proof -
  from socket_call_act [OF c] obtain act ty made where
    a: "r = verdict act F" "act F = announce k made F" "created k abi (next_message F) ty made" by blast
  have "made = Some None" using a(3) g by (rule created_null)
  with a assms show ?thesis by (simp add: verdict_def if_debug_def announce_null)
qed

section \<open>Clients come and go: facts\<close>

text \<open>What an operation of the control socket leaves alone: the filter part of the state.\<close>

definition same_filter :: "Firewall \<Rightarrow> Firewall \<Rightarrow> bool" where
  "same_filter F F' \<longleftrightarrow> firewallUp F' = firewallUp F \<and> closing F' = closing F \<and> rules F' = rules F \<and>
     applications F' = applications F \<and> cookies F' = cookies F \<and> protocols F' = protocols F"



lemma KcDisconnect_ok:
  assumes k: "atomics_documented k" and w: "wired held F (us @ a # vs) Q" and a: "client_heap F a = Some c"
  shows "\<exists>F'. KcDisconnect k (Some a) F = Some (KERN_SUCCESS, F') \<and> wired held F' (us @ vs) Q \<and> same_filter F F' \<and>
    client_heap F' a = (if references c = 1 then None else Some (c\<lparr>exitState := 1, references := references c - 1\<rparr>)) \<and>
    countSubscribersAsaProviderOfRules F' =
      countSubscribersAsaProviderOfRules F - (if subscribed c MessageClassProviderOfRules then 1 else 0) \<and>
    countSubscribersForInfoRules F' = countSubscribersForInfoRules F - (if subscribed c MessageClassInfoRules then 1 else 0) \<and>
    countSubscribersForInfoSockets F' =
      countSubscribersForInfoSockets F - (if subscribed c MessageClassInfoSockets then 1 else 0) \<and>
    countSubscribersForDebug F' = countSubscribersForDebug F - (if subscribed c MessageClassCommon then 1 else 0) \<and>
    lockClientsQueue F' = lockClientsQueue F \<and> kernelControlReference F' = kernelControlReference F \<and>
    clients_made F' = clients_made F"
proof -
  note ok = wiredD(2) [OF w]
  have ch: "chain c_next (client_heap F) (clients F) (us @ a # vs)" using clients_okD(2) [OF ok] .
  have dist: "a \<notin> set us" "a \<notin> set (us @ vs)" using clients_okD(4) [OF ok] by auto
  let ?prev = "if us = [] then None else Some (last us)"
  from find_client_present [OF ch dist(1), of None]
  have found: "find_client a (client_heap F) None (clients F) = Some (Some ?prev)" by simp
  from unlink_client_chain [OF ch a] obtain first H where
    un: "unlink_client a ?prev (clients F, client_heap F) = Some (first, H)" "chain c_next H first (us @ vs)"
      "\<forall>b. map_option (\<lambda>x. x\<lparr>c_next := None\<rparr>) (H b) = map_option (\<lambda>x. x\<lparr>c_next := None\<rparr>) (client_heap F b)" "H a = Some c" by blast
  from wiredD(7) [OF w, of a] a have c: "queue_ok (nodes (mail F)) c (Q a)" "exitState c = 0" "subscribed c MessageClassCommon" by auto
  let ?c = "c\<lparr>exitState := 1\<rparr>"
  have close: "CloseSignal k c = ?c" using k c(2) by (simp add: CloseSignal_def)
  have ok1: "clients_ok held first (H(a \<mapsto> ?c)) (mail F) (us @ vs) Q"
    by (rule clients_ok_cell [OF clients_ok_unlink [OF ok un(2,3)] dist(2)])
  have apart: "\<forall>b\<in>set (us @ vs). set (Q a) \<inter> set (Q b) = {}"
    using clients_okD(3) [OF ok] dist by (auto simp: queues_ok_def)
  have q: "queue_ok (nodes (mail F)) ?c (Q a)" using c(1) by (simp add: queue_ok_def)
  have cell: "(H(a \<mapsto> ?c)) a = Some ?c" by simp
  from clients_ok_release [OF k ok1 dist(2) cell q apart] obtain H' M' where
    r: "release_client k a (H(a \<mapsto> ?c), mail F) = Some (H', M')" "clients_ok held first H' M' (us @ vs) Q"
      "H' = (H(a \<mapsto> ?c))(a := (if references ?c = 1 then None else Some (?c\<lparr>references := references ?c - 1\<rparr>)))" by blast
  have "b < clients_made F" if "H' b \<noteq> None" for b
  proof -
    have "H b \<noteq> None" using that r(3) un(4) by (auto split: if_splits)
    then have "client_heap F b \<noteq> None" using un(3) [rule_format, of b] by (cases "client_heap F b") auto
    then show ?thesis using wiredD(3) [OF w] by auto
  qed
  then have below: "below (clients_made F) H'" by (auto simp: below_def)
  let ?F = "F\<lparr>clients := first, client_heap := H', mail := M',
    countSubscribersAsaProviderOfRules := decrement_if k c MessageClassProviderOfRules (countSubscribersAsaProviderOfRules F),
    countSubscribersForInfoRules := decrement_if k c MessageClassInfoRules (countSubscribersForInfoRules F),
    countSubscribersForInfoSockets := decrement_if k c MessageClassInfoSockets (countSubscribersForInfoSockets F),
    countSubscribersForDebug := countSubscribersForDebug F - 1\<rparr>"
  have dec: "decrement_if k ?c cl v = decrement_if k c cl v" for cl v by (simp add: decrement_if_def subscribed_def)
  have "decrement_if k c MessageClassCommon v = v - 1" for v using c(3) k by (simp add: decrement_if_def)
  then have "KcDisconnect k (Some a) F = Some (KERN_SUCCESS, ?F)"
    using wiredD(1) [OF w] found un(1,4) close r(1) by (simp add: KcDisconnect_def Let_def dec)
  moreover have "wired held ?F (us @ vs) Q" using w r(2) below by (simp add: wired_def)
  moreover have "client_heap ?F a = (if references c = 1 then None else Some (c\<lparr>exitState := 1, references := references c - 1\<rparr>))"
    using r(3) by simp
  moreover have "decrement_if k c cl v = v - (if subscribed c cl then 1 else 0)" for cl v
    using k by (simp add: decrement_if_def)
  ultimately show ?thesis using c(3) by (simp add: same_filter_def)
qed

lemma KcDisconnect_unknown:
  assumes "wired held F cs Q" and "a \<notin> set cs"
  shows "KcDisconnect k (Some a) F = Some (KERN_SUCCESS, F)"
  using wiredD(1) [OF assms(1)] find_client_absent [OF clients_okD(2) [OF wiredD(2) [OF assms(1)]] assms(2), of None]
  by (simp add: KcDisconnect_def)

section \<open>Sockets come and go: facts\<close>

text \<open>
  \<open>sockets_ok extra F ks as\<close>: \<open>ks\<close> are the cookies of the attached sockets, \<open>as\<close> the applications on
  the chain. An application is counted once by the chain, once by every cookie that refers to it and
  \<open>extra\<close> times by others (the cursor of the process checker). Cookies have no rule and no deferred
  packets: no callback of the source gives them any.
\<close>

definition users :: "SocketCookie heap \<Rightarrow> addr list \<Rightarrow> addr \<Rightarrow> nat" where
  "users H ks b = length (filter (\<lambda>a. map_option application (H a) = Some (Some b)) ks)"

definition app_owners :: "(addr \<Rightarrow> nat) \<Rightarrow> SocketCookie heap \<Rightarrow> addr list \<Rightarrow> addr list \<Rightarrow> addr \<Rightarrow> nat" where
  "app_owners extra H ks as b = extra b + users H ks b + (if b \<in> set as then 1 else 0)"

definition idle_cookie :: "SocketCookie \<Rightarrow> bool" where
  "idle_cookie c \<longleftrightarrow> application c \<noteq> None \<and> cookie_rule c = None \<and> deferredDataHead c = None \<and> deferredDataLast c = None"

definition sockets_ok :: "(addr \<Rightarrow> nat) \<Rightarrow> Firewall \<Rightarrow> addr list \<Rightarrow> addr list \<Rightarrow> bool" where
  "sockets_ok extra F ks as \<longleftrightarrow>
     cookies_ok (cookies F) ks \<and>
     apps_ok (app_owners extra (cookie_heap (cookies F)) ks as) (applications F) as \<and>
     (\<forall>a\<in>set ks. \<exists>c. cookie_heap (cookies F) a = Some c \<and> idle_cookie c)"

lemma users_cong:
  assumes "\<And>a. a \<in> set ks \<Longrightarrow> map_option application (H' a) = map_option application (H a)"
  shows "users H' ks b = users H ks b"
proof -
  have "filter (\<lambda>a. map_option application (H' a) = Some (Some b)) ks =
    filter (\<lambda>a. map_option application (H a) = Some (Some b)) ks"
    by (rule filter_cong [OF refl]) (simp only: assms)
  then show ?thesis by (simp only: users_def)
qed

lemma users_le: "users H ks b \<le> length ks"
  by (simp add: users_def)

lemma body_eqD:
  assumes "cookie_body d = cookie_body c"
  shows "application d = application c" and "idle_cookie d \<longleftrightarrow> idle_cookie c"
proof -
  have "f d = f c" if "\<And>x. f (cookie_body x) = f x" for f :: "SocketCookie \<Rightarrow> ptr"
    using that assms by metis
  from this [of application] this [of cookie_rule] this [of deferredDataHead] this [of deferredDataLast]
  show "application d = application c" and "idle_cookie d \<longleftrightarrow> idle_cookie c"
    by (simp_all add: idle_cookie_def)
qed

lemma body_application:
  assumes "map_option cookie_body x = map_option cookie_body y"
  shows "map_option application x = map_option application y"
  using assms by (cases x; cases y) (auto dest: body_eqD(1))

lemma body_idle:
  assumes "map_option cookie_body x = map_option cookie_body y" and "y = Some c" and "idle_cookie c"
  shows "\<exists>d. x = Some d \<and> idle_cookie d"
  using assms by (cases x) (auto dest: body_eqD(2))

text \<open>The cookie \<open>Attach\<close> makes; what it does not write is what the fresh memory holds, zero in a kernel that clears it.\<close>

definition attached_cookie :: "SocketCookie \<Rightarrow> ptr \<Rightarrow> u64 \<Rightarrow> u32 \<times> u32 \<times> u32 \<Rightarrow> SocketCookie" where
  "attached_cookie fresh app so types =
     (SetSocket so types (fresh\<lparr>application := app\<rparr>))\<lparr>state := Some SocketCookieStateALLOWED\<rparr>"

definition cleared_cookie :: "SocketCookie \<Rightarrow> bool" where
  "cleared_cookie fresh \<longleftrightarrow> k_prev fresh = None \<and> cookie_rule fresh = None \<and> deferredDataHead fresh = None \<and>
     deferredDataLast fresh = None"

lemma attached_cookie_fields [simp]:
  "application (attached_cookie fresh app so types) = app" "k_prev (attached_cookie fresh app so types) = k_prev fresh"
  "cleared_cookie fresh \<Longrightarrow> idle_cookie (attached_cookie fresh (Some b) so types)"
  "socket (attached_cookie fresh app so types) = so"
  "state (attached_cookie fresh app so types) = Some SocketCookieStateALLOWED"
  by (simp_all add: attached_cookie_def SetSocket_def idle_cookie_def cleared_cookie_def split: prod.split)

lemma cookies_ok_new:
  assumes "cookies_ok C ks"
  shows "cookies_ok (C\<lparr>cookies_made := Suc (cookies_made C), cookie_heap := (cookie_heap C)(cookies_made C \<mapsto> c)\<rparr>) ks"
    and "cookies_made C \<notin> set ks"
    and "cookies_ok (C\<lparr>cookies_made := Suc (cookies_made C)\<rparr>) ks"
proof -
  show out: "cookies_made C \<notin> set ks"
    using assms by (fastforce simp: cookies_ok_def dest: chain_allocated)
  show "cookies_ok (C\<lparr>cookies_made := Suc (cookies_made C), cookie_heap := (cookie_heap C)(cookies_made C \<mapsto> c)\<rparr>) ks"
    using assms out by (auto simp: cookies_ok_def less_Suc_eq)
  show "cookies_ok (C\<lparr>cookies_made := Suc (cookies_made C)\<rparr>) ks"
    using assms by (auto simp: cookies_ok_def less_Suc_eq)
qed

lemma add_cookie:
  assumes ok: "cookies_ok C ks" and fm: "cleared_cookie fresh"
  shows "\<exists>C'. Cookies_Add (cookies_made C) (C\<lparr>cookies_made := Suc (cookies_made C),
      cookie_heap := (cookie_heap C)(cookies_made C \<mapsto> attached_cookie fresh app so types)\<rparr>) = Some C' \<and>
    cookies_ok C' (cookies_made C # ks) \<and>
    (\<forall>b. b \<noteq> cookies_made C \<longrightarrow> map_option cookie_body (cookie_heap C' b) = map_option cookie_body (cookie_heap C b)) \<and>
    map_option cookie_body (cookie_heap C' (cookies_made C)) = Some (cookie_body (attached_cookie fresh app so types))"
proof -
  let ?n = "cookies_made C"
  let ?C = "C\<lparr>cookies_made := Suc ?n, cookie_heap := (cookie_heap C)(?n \<mapsto> attached_cookie fresh app so types)\<rparr>"
  have c: "cookie_heap ?C ?n = Some (attached_cookie fresh app so types)" by simp
  have "k_prev (attached_cookie fresh app so types) = None" using fm by (simp add: cleared_cookie_def)
  from Cookies_Add_ok [OF cookies_ok_new(1) [OF ok] c cookies_ok_new(2) [OF ok] this] obtain C' where
    "Cookies_Add ?n ?C = Some C'" "cookies_ok C' (?n # ks)"
    "\<forall>b. map_option cookie_body (cookie_heap C' b) = map_option cookie_body (cookie_heap ?C b)" by blast
  then show ?thesis by (intro exI [of _ C']) simp
qed

lemma users_Nil [simp]: "users H [] b = 0"
  and users_Cons: "users H (n # ks) b = users H ks b + (if map_option application (H n) = Some (Some b) then 1 else 0)"
  and users_append: "users H (ks @ ls) b = users H ks b + users H ls b"
  by (simp_all add: users_def del: map_option_eq_Some)

lemma owners_attach:
  assumes out: "n \<notin> set ks" and H: "\<forall>b. b \<noteq> n \<longrightarrow> map_option application (H' b) = map_option application (H b)"
    and n: "map_option application (H' n) = Some (Some a)"
  shows "users H' (n # ks) b = users H ks b + (if b = a then 1 else 0)"
proof -
  have "users H' ks b = users H ks b" by (rule users_cong) (use out H in metis)
  moreover have "map_option application (H' n) = Some (Some b) \<longleftrightarrow> b = a" unfolding n by auto
  ultimately show ?thesis by (simp only: users_Cons)
qed

lemma Attach_sockets:
  assumes k: "atomics_documented k" and ok: "sockets_ok extra F ks as" and open_: "app_closing (applications F) = 0"
    and small: "\<forall>b. extra b + length ks + 2 < 2 ^ 32" and fm: "cleared_cookie fresh"
    and get: "Applications_Get k who (applications F) = Some (app, A)"
    and add: "Cookies_Add (cookies_made (cookies F)) ((cookies F)\<lparr>cookies_made := Suc (cookies_made (cookies F)),
      cookie_heap := (cookie_heap (cookies F))(cookies_made (cookies F) \<mapsto> attached_cookie fresh app so types)\<rparr>) = Some C"
  shows "(app = None \<longrightarrow> A = applications F) \<and>
    (app = None \<longleftrightarrow> find (holds_at (app_heap (applications F)) (\<lambda>x. pid x = selfpid who)) as = None \<and>
       \<not> grants k NewApplication (apps_made (applications F))) \<and>
    (\<forall>a. app = Some a \<longrightarrow> (\<exists>as'. sockets_ok extra (F\<lparr>applications := A, cookies := C\<rparr>) (cookies_made (cookies F) # ks) as' \<and>
      (\<exists>x. app_heap A a = Some x \<and> pid x = selfpid who) \<and>
      map_option cookie_body (cookie_heap C (cookies_made (cookies F))) = Some (cookie_body (attached_cookie fresh app so types))))"
proof -
  let ?n = "cookies_made (cookies F)" and ?H = "cookie_heap (cookies F)"
  have cok: "cookies_ok (cookies F) ks"
    and aok: "apps_ok (app_owners extra ?H ks as) (applications F) as"
    and idle: "\<forall>a\<in>set ks. \<exists>c. ?H a = Some c \<and> idle_cookie c"
    using ok by (auto simp: sockets_ok_def)
  have "app_owners extra ?H ks as b + 1 < 2 ^ 32" for b
    using small [rule_format, of b] users_le [of ?H ks b] by (auto simp: app_owners_def)
  with Get_ok [OF k aok open_, of who] get obtain as' cnt' where g: "apps_ok cnt' A as'"
    "(case app of
       None \<Rightarrow> A = applications F \<and> cnt' = app_owners extra ?H ks as \<and> as' = as \<and> \<not> grants k NewApplication (apps_made (applications F)) \<and>
         find (holds_at (app_heap (applications F)) (\<lambda>x. pid x = selfpid who)) as = None
     | Some a \<Rightarrow> (\<exists>x. app_heap A a = Some x \<and> pid x = selfpid who) \<and> a \<in> set as' \<and>
         (case find (holds_at (app_heap (applications F)) (\<lambda>x. pid x = selfpid who)) as of
            Some b \<Rightarrow> a = b \<and> as' = as \<and> cnt' = (app_owners extra ?H ks as)(a := app_owners extra ?H ks as a + 1)
          | None \<Rightarrow> grants k NewApplication (apps_made (applications F)) \<and> a = apps_made (applications F) \<and> as' = a # as \<and> cnt' = (app_owners extra ?H ks as)(a := 2)))"
    by auto
  from add_cookie [OF cok fm, of app so types] add have c: "cookies_ok C (?n # ks)"
    "\<forall>b. b \<noteq> ?n \<longrightarrow> map_option cookie_body (cookie_heap C b) = map_option cookie_body (?H b)"
    "map_option cookie_body (cookie_heap C ?n) = Some (cookie_body (attached_cookie fresh app so types))" by auto
  have out: "?n \<notin> set ks" by (rule cookies_ok_new(2) [OF cok])
  have "sockets_ok extra (F\<lparr>applications := A, cookies := C\<rparr>) (?n # ks) as'" if a: "app = Some a" for a
  proof -
    have napp: "map_option application (cookie_heap C ?n) = Some (Some a)"
      using body_application [of "cookie_heap C ?n" "Some (attached_cookie fresh app so types)"] c(3) a by simp
    have own: "users (cookie_heap C) (?n # ks) b = users ?H ks b + (if b = a then 1 else 0)" for b
      by (rule owners_attach [where H' = "cookie_heap C" and n = ?n, OF out _ napp]) (use c(2) body_application in blast)
    have "cnt' = app_owners extra (cookie_heap C) (?n # ks) as'"
    proof (cases "find (holds_at (app_heap (applications F)) (\<lambda>x. pid x = selfpid who)) as")
      case (Some b)
      with g(2) a show ?thesis by (auto simp: app_owners_def own fun_eq_iff)
    next
      case None
      have new: "app_heap (applications F) (apps_made (applications F)) = None" by (rule apps_okD(8) [OF aok])
      with None g(2) a have e: "a = apps_made (applications F)" "as' = a # as" "cnt' = (app_owners extra ?H ks as)(a := 2)" by auto
      have "app_owners extra ?H ks as a = 0"
        using counted_heap_None [OF apps_okD(4) [OF aok] new] e by simp
      with e show ?thesis by (auto simp: app_owners_def own fun_eq_iff)
    qed
    moreover have "\<exists>d. cookie_heap C b = Some d \<and> idle_cookie d" if "b \<in> set (?n # ks)" for b
    proof (cases "b = ?n")
      case True
      with body_idle [of "cookie_heap C ?n" "Some (attached_cookie fresh app so types)"] c(3) a fm show ?thesis by simp
    next
      case False
      with that idle obtain d where "?H b = Some d" "idle_cookie d" by auto
      with body_idle [OF c(2) [rule_format, OF False]] show ?thesis by blast
    qed
    ultimately show ?thesis using c(1) g(1) by (simp add: sockets_ok_def)
  qed
  with g(2) c(3) show ?thesis by (auto split: option.splits)
qed

text \<open>The announcement at the end of an operation: made for the debug subscribers, if there are any.\<close>

lemma debug_announce:
  assumes k: "atomics_documented k" and w: "wired held F cs Q" and r: "room F cs"
    and g: "countSubscribersForDebug F = 0 \<or> grants k NewMessage (next_message F)"
    and c: "created k abi (next_message F) ty (made F)"
  shows "\<exists>H M Q'. if_debug (\<lambda>F. announce k (made F) F) F = Some (with_inbox H M F) \<and> wired held (with_inbox H M F) cs Q'"
proof (cases "countSubscribersForDebug F = 0")
  case True
  with w show ?thesis
    by (intro exI [of _ "client_heap F"] exI [of _ "mail F"] exI [of _ Q]) (simp add: if_debug_def)
next
  case False
  with g have "grants k NewMessage (next_message F)" by blast
  from announce_created [OF k w r this c] obtain F' Q' x where
    a: "announce k (made F) F = Some F'" "wired held F' cs Q'" "announced k x F cs Q F' Q'" by blast
  from a(3) have "F' = with_inbox (client_heap F') (mail F') F" by (simp add: announced_def)
  with a False show ?thesis by (metis (lifting) if_debug_def)
qed

lemma sockets_ok_inbox [simp]: "sockets_ok extra (with_inbox H M F) ks as = sockets_ok extra F ks as"
  by (simp add: sockets_ok_def)

text \<open>When \<open>Attach\<close> is refused: in a closing extension, or for want of memory for the cookie or the application.\<close>

definition attach_refused :: "kernel \<Rightarrow> caller \<Rightarrow> Firewall \<Rightarrow> addr list \<Rightarrow> bool" where
  "attach_refused k who F as \<longleftrightarrow> closing F \<or> \<not> grants k NewCookie (cookies_made (cookies F)) \<or>
     app_closing (applications F) \<noteq> 0 \<or>
     (\<forall>b\<in>set as. map_option pid (app_heap (applications F) b) \<noteq> Some (selfpid who)) \<and>
       \<not> grants k NewApplication (apps_made (applications F))"

lemma find_pid_None:
  "find (holds_at h (\<lambda>x. pid x = p)) as = None \<longleftrightarrow> (\<forall>b\<in>set as. map_option pid (h b) \<noteq> Some p)"
  by (auto simp: find_None_iff holds_at_def split: option.splits)

lemma Attach_refused:
  assumes ok: "sockets_ok extra F ks as" and k: "atomics_documented k" and small: "\<forall>b. extra b + length ks + 2 < 2 ^ 32"
    and refused: "attach_refused k who F as"
  shows "\<exists>n. Attach k abi fresh who so types F = Some (ENOMEM, None, F\<lparr>cookies := (cookies F)\<lparr>cookies_made := n\<rparr>\<rparr>) \<and>
    cookies_made (cookies F) \<le> n"
proof -
  let ?n = "cookies_made (cookies F)"
  have same: "F\<lparr>cookies := (cookies F)\<lparr>cookies_made := ?n\<rparr>\<rparr> = F" by simp
  show ?thesis
  proof (cases "closing F \<or> \<not> grants k NewCookie ?n")
    case True
    then have "Attach k abi fresh who so types F = Some (ENOMEM, None, F)" by (auto simp: Attach_def)
    with same show ?thesis by (intro exI [of _ ?n]) simp
  next
    case False
    have "Applications_Get k who (applications F) = Some (None, applications F)"
    proof (cases "app_closing (applications F) = 0")
      case True
      with False refused have "find (holds_at (app_heap (applications F)) (\<lambda>x. pid x = selfpid who)) as = None"
        "\<not> grants k NewApplication (apps_made (applications F))"
        by (auto simp: attach_refused_def find_pid_None)
      moreover have "app_owners extra (cookie_heap (cookies F)) ks as b + 1 < 2 ^ 32" for b
        using small [rule_format, of b] users_le [of "cookie_heap (cookies F)" ks b] by (auto simp: app_owners_def)
      ultimately show ?thesis
        using Get_ok [OF k _ True, of "app_owners extra (cookie_heap (cookies F)) ks as" as who] ok
        by (fastforce simp: sockets_ok_def split: option.splits)
    qed (simp add: Applications_Get_def)
    then have "Attach k abi fresh who so types F = Some (ENOMEM, None, F\<lparr>cookies := (cookies F)\<lparr>cookies_made := Suc ?n\<rparr>\<rparr>)"
      using False by (simp add: Attach_def Let_def)
    then show ?thesis by (intro exI [of _ "Suc ?n"]) simp
  qed
qed

lemma sockets_ok_made:
  "sockets_ok extra F ks as \<Longrightarrow> cookies_made (cookies F) \<le> n \<Longrightarrow>
   sockets_ok extra (F\<lparr>cookies := (cookies F)\<lparr>cookies_made := n\<rparr>\<rparr>) ks as"
  by (fastforce simp: sockets_ok_def cookies_ok_def)

lemma Attach_ok:
  assumes k: "atomics_documented k" and ok: "sockets_ok extra F ks as" and w: "wired held F cs Q" and r: "room F cs"
    and small: "\<forall>b. extra b + length ks + 2 < 2 ^ 32" and fm: "cleared_cookie fresh"
    and g: "countSubscribersForDebug F = 0 \<or> grants k NewMessage (next_message F)"
    and taken: "\<not> attach_refused k who F as"
  shows "\<exists>F' Q'. Attach k abi fresh who so types F = Some (KERN_SUCCESS, Some (cookies_made (cookies F)), F') \<and>
    wired held F' cs Q' \<and> rules F' = rules F \<and> (\<exists>as'. sockets_ok extra F' (cookies_made (cookies F) # ks) as') \<and>
    (\<exists>c b x. cookie_heap (cookies F') (cookies_made (cookies F)) = Some c \<and> socket c = so \<and>
       state c = Some SocketCookieStateALLOWED \<and>
       application c = Some b \<and> app_heap (applications F') b = Some x \<and> pid x = selfpid who)"
proof -
  let ?n = "cookies_made (cookies F)"
  have open_: "\<not> closing F" "app_closing (applications F) = 0" "grants k NewCookie ?n"
    using taken by (simp_all add: attach_refused_def)
  have cok: "cookies_ok (cookies F) ks" using ok by (simp add: sockets_ok_def)
  have "app_owners extra (cookie_heap (cookies F)) ks as b + 1 < 2 ^ 32" for b
    using small [rule_format, of b] users_le [of "cookie_heap (cookies F)" ks b] by (auto simp: app_owners_def)
  with Get_ok [OF k _ open_(2), of "app_owners extra (cookie_heap (cookies F)) ks as" as who] ok obtain app A where
    get: "Applications_Get k who (applications F) = Some (app, A)" by (auto simp: sockets_ok_def)
  from add_cookie [OF cok fm, of app so types] obtain C where
    add: "Cookies_Add ?n ((cookies F)\<lparr>cookies_made := Suc ?n,
      cookie_heap := (cookie_heap (cookies F))(?n \<mapsto> attached_cookie fresh app so types)\<rparr>) = Some C" by blast
  note S = Attach_sockets [OF k ok open_(2) small fm get add]
  have "app \<noteq> None" using S taken by (auto simp: attach_refused_def find_pid_None)
  then obtain b where b: "app = Some b" by blast
  let ?F = "F\<lparr>applications := A, cookies := C\<rparr>"
  let ?made = "\<lambda>F. CreateSfltAttach k abi (next_message F) (selfpid who) (kauth_uid who) so
                (ucast (sockProtocol (attached_cookie fresh app so types)))"
  have "wired held ?F cs Q" "room ?F cs" "countSubscribersForDebug ?F = 0 \<or> grants k NewMessage (next_message ?F)"
    using w r g by (simp_all add: wired_def room_def)
  from debug_announce [where made = ?made and F = ?F, OF k this created.SfltAttach] obtain H M Q' where
    F': "if_debug (\<lambda>F. announce k (?made F) F) ?F = Some (with_inbox H M ?F)" "wired held (with_inbox H M ?F) cs Q'"
    by blast
  have "Attach k abi fresh who so types F = Some (KERN_SUCCESS, Some ?n, with_inbox H M ?F)"
    using open_ get add F'(1) b unfolding attached_cookie_def by (simp add: Attach_def Let_def)
  moreover from S b obtain as' x where s: "sockets_ok extra ?F (?n # ks) as'" "app_heap A b = Some x" "pid x = selfpid who"
    "map_option cookie_body (cookie_heap C ?n) = Some (cookie_body (attached_cookie fresh (Some b) so types))" by blast
  moreover from s(4) obtain c where c: "cookie_heap C ?n = Some c"
    "cookie_body c = cookie_body (attached_cookie fresh (Some b) so types)" by auto
  have "f c = f (attached_cookie fresh (Some b) so types)" if "\<And>x. f (cookie_body x) = f x" for f :: "SocketCookie \<Rightarrow> bool"
    using that c(2) by metis
  from this [of "\<lambda>c. socket c = so"] this [of "\<lambda>c. state c = Some SocketCookieStateALLOWED"] this [of "\<lambda>c. application c = Some b"]
  have "socket c = so" "state c = Some SocketCookieStateALLOWED" "application c = Some b"
    by (simp_all add: cookie_body_def strip_def)
  ultimately show ?thesis using F'(2) c(1)
    by (intro exI [of _ "with_inbox H M ?F"] exI [of _ Q']) auto
qed

text \<open>\<open>Detach\<close> takes the cookie off the chain, frees it and gives back its application.\<close>

lemma cookie_free_ok:
  assumes k: "atomics_documented k" and ok: "sockets_ok extra F (us @ a # vs) as"
  shows "\<exists>C C' A. Cookies_Remove a (cookies F) = Some C \<and>
    SocketCookie_Free k a (C, rules_heap (rules F), app_heap (applications F)) = Some (C', rules_heap (rules F), A) \<and>
    sockets_ok extra (F\<lparr>cookies := C', applications := (applications F)\<lparr>app_heap := A\<rparr>\<rparr>) (us @ vs) as \<and>
    cookie_heap C' a = None"
proof -
  let ?H = "cookie_heap (cookies F)"
  from ok have cok: "cookies_ok (cookies F) (us @ a # vs)"
    and aok: "apps_ok (app_owners extra ?H (us @ a # vs) as) (applications F) as" by (simp_all add: sockets_ok_def)
  from ok obtain c0 b where c0: "?H a = Some c0" "application c0 = Some b" "idle_cookie c0"
    by (fastforce simp: sockets_ok_def idle_cookie_def)
  from Cookies_Remove_ok [OF cok] obtain C where C: "Cookies_Remove a (cookies F) = Some C" "cookies_ok C (us @ vs)"
    "\<forall>b. map_option cookie_body (cookie_heap C b) = map_option cookie_body (?H b)" by blast
  have out: "a \<notin> set (us @ vs)" using cok by (auto simp: cookies_ok_def dest: chain_distinct)
  from C(3) [rule_format, of a] c0 obtain c where c: "cookie_heap C a = Some c" "cookie_body c = cookie_body c0" by auto
  have ca: "application c = Some b" "idle_cookie c" using body_eqD [OF c(2)] c0 by simp_all
  let ?C = "C\<lparr>cookie_heap := (cookie_heap C)(a := None)\<rparr>"
  have app: "map_option application (cookie_heap ?C d) = map_option application (?H d)" if "d \<noteq> a" for d
    using body_application [OF C(3) [rule_format, of d]] that by simp
  have "users (cookie_heap ?C) (us @ vs) d = users ?H (us @ vs) d" for d
    by (rule users_cong) (use app out in metis)
  moreover have "users ?H (us @ a # vs) d = users ?H (us @ vs) d + (if d = b then 1 else 0)" for d
    using c0 by (simp add: users_append users_Cons)
  ultimately have cnt: "(app_owners extra ?H (us @ a # vs) as)(b := app_owners extra ?H (us @ a # vs) as b - 1) =
      app_owners extra (cookie_heap ?C) (us @ vs) as"
    by (auto simp: app_owners_def fun_eq_iff)
  note heap = apps_okD(4) [OF aok]
  have "0 < app_owners extra ?H (us @ a # vs) as b" using c0 by (simp add: app_owners_def users_append users_Cons)
  from counted_heap_live [OF heap this] obtain x where x: "app_heap (applications F) b = Some x" by blast
  let ?A = "(app_heap (applications F))(b := (if app_owners extra ?H (us @ a # vs) as b = 1 then None else Some (x\<lparr>references := references x - 1\<rparr>)))"
  note R = release_counted [OF k heap x]
  have keep: "b \<notin> set as" if "app_owners extra ?H (us @ a # vs) as b = 1"
    using that c0 by (auto simp: app_owners_def users_append users_Cons split: if_splits)
  have cells: "\<forall>d y. ?A d = Some y \<longrightarrow> d < apps_made (applications F)"
    using apps_okD(5) [OF aok] x by auto
  have "apps_ok (app_owners extra (cookie_heap ?C) (us @ vs) as) ((applications F)\<lparr>app_heap := ?A\<rparr>) as"
  proof (rule apps_okI)
    show "counted_heap (app_owners extra (cookie_heap ?C) (us @ vs) as) (app_heap ((applications F)\<lparr>app_heap := ?A\<rparr>))"
      using R(2) cnt by simp
    show "chain a_next (app_heap ((applications F)\<lparr>app_heap := ?A\<rparr>)) (app_head ((applications F)\<lparr>app_heap := ?A\<rparr>)) as"
      "backs a_prev (app_heap ((applications F)\<lparr>app_heap := ?A\<rparr>)) None as"
      using apps_okD(2,3) [OF aok] keep x by (simp_all add: chain_upd_same backs_upd_same)
  qed (use apps_okD(1) [OF aok] cells in auto)
  moreover have "cookies_ok ?C (us @ vs)" using C(2) out by (auto simp: cookies_ok_def)
  moreover have "\<exists>d. cookie_heap ?C e = Some d \<and> idle_cookie d" if "e \<in> set (us @ vs)" for e
  proof -
    from ok that obtain d where "?H e = Some d" "idle_cookie d" by (auto simp: sockets_ok_def)
    with body_idle [OF C(3) [rule_format, of e]] that out show ?thesis by auto
  qed
  moreover have "SocketCookie_Free k a (C, rules_heap (rules F), app_heap (applications F)) = Some (?C, rules_heap (rules F), ?A)"
    using c ca R(1) by (simp add: SocketCookie_Free_def ClearDeferredData_def idle_cookie_def)
  ultimately show ?thesis using C(1)
    by (intro exI [of _ C] exI [of _ ?C] exI [of _ ?A]) (simp add: sockets_ok_def)
qed

lemma Detach_ok:
  assumes k: "atomics_documented k" and ok: "sockets_ok extra F (us @ a # vs) as" and w: "wired held F cs Q" and r: "room F cs"
    and g: "closing F \<or> countSubscribersForDebug F = 0 \<or> grants k NewMessage (next_message F)"
  shows "\<exists>F' Q'. Detach k abi who (Some a) so F = Some F' \<and> wired held F' cs Q' \<and> sockets_ok extra F' (us @ vs) as \<and>
    rules F' = rules F \<and> cookie_heap (cookies F') a = None"
proof -
  from cookie_free_ok [OF k ok] obtain C C' A where
    s: "Cookies_Remove a (cookies F) = Some C"
      "SocketCookie_Free k a (C, rules_heap (rules F), app_heap (applications F)) = Some (C', rules_heap (rules F), A)"
      "sockets_ok extra (F\<lparr>cookies := C', applications := (applications F)\<lparr>app_heap := A\<rparr>\<rparr>) (us @ vs) as"
      "cookie_heap C' a = None" by blast
  let ?F = "F\<lparr>cookies := C', applications := (applications F)\<lparr>app_heap := A\<rparr>\<rparr>"
  let ?made = "\<lambda>F. CreateSfltDetach k abi (next_message F) (selfpid who) (kauth_uid who) so"
  have w1: "wired held ?F cs Q" "room ?F cs" using w r by (simp_all add: wired_def room_def)
  have D: "Detach k abi who (Some a) so F = (if closing ?F then Some ?F else if_debug (\<lambda>F. announce k (?made F) F) ?F)"
    using s by (simp add: Detach_def Let_def)
  show ?thesis
  proof (cases "closing F")
    case True
    with D w1 s(3,4) show ?thesis by (intro exI [of _ ?F] exI [of _ Q]) simp
  next
    case False
    with g have "countSubscribersForDebug ?F = 0 \<or> grants k NewMessage (next_message ?F)" by simp
    from debug_announce [where made = ?made and F = ?F, OF k w1 this created.SfltDetach] obtain H M Q' where
      "if_debug (\<lambda>F. announce k (?made F) F) ?F = Some (with_inbox H M ?F)" "wired held (with_inbox H M ?F) cs Q'" by blast
    with False D s(3,4) show ?thesis by (intro exI [of _ "with_inbox H M ?F"] exI [of _ Q']) simp
  qed
qed

lemma Notify_ok:
  assumes k: "atomics_documented k" and w: "wired held F cs Q" and r: "room F cs" and g: "closing F \<or> countSubscribersForDebug F = 0 \<or> grants k NewMessage (next_message F)"
  shows "\<exists>H M Q'. Notify k abi who so event F = Some (with_inbox H M F) \<and> wired held (with_inbox H M F) cs Q'"
proof (cases "closing F")
  case True
  with w show ?thesis
    by (intro exI [of _ "client_heap F"] exI [of _ "mail F"] exI [of _ Q]) (simp add: Notify_def)
next
  case False
  with g have "countSubscribersForDebug F = 0 \<or> grants k NewMessage (next_message F)" by simp
  from debug_announce [where made = "\<lambda>F. CreateSfltNotify k abi (next_message F) (selfpid who) (kauth_uid who) so event",
      OF k w r this created.SfltNotify] False show ?thesis by (simp add: Notify_def)
qed

section \<open>Starting and stopping: facts\<close>

text \<open>The state before the extension starts: nothing allocated, the statics zero.\<close>

definition unloaded :: Firewall where
  "unloaded = \<lparr>firewallUp = False, closing = False, countSubscribersForInfoSockets = 0, countSubscribersForInfoRules = 0,
     countSubscribersAsaProviderOfRules = 0, countSubscribersForDebug = 0, rules = no_rules,
     applications = \<lparr>app_head = None, app_lock = NoLock, lockRoutine = NoLock, app_closing = 0,
       countProcessesToCheck = 0, processListener = False, app_heap = Map.empty, apps_made = 0\<rparr>,
     cookies = \<lparr>cookies_lock = NoLock, socketCookies = None, countAttachedCookies = 0, cookie_heap = Map.empty,
       cookies_made = 0, deferred_heap = Map.empty, deferred_made = 0, mbuf_events = []\<rparr>,
     protocols = initial_protocols, kernelControlReference = False, lockClientsQueue = False, clients = None,
     client_heap = Map.empty, clients_made = 0,
     mail = \<lparr>messages = Map.empty, nodes = Map.empty, messages_made = 0, nodes_made = 0\<rparr>\<rparr>"

text \<open>What a running extension satisfies: every component's invariant holds.\<close>

definition running :: "Firewall \<Rightarrow> addr list \<Rightarrow> addr list \<Rightarrow> addr list \<Rightarrow> addr list \<Rightarrow> (addr \<Rightarrow> addr list) \<Rightarrow> bool" where
  "running F rs ks as cs Q \<longleftrightarrow>
     rules_wf (rules F) rs \<and> sockets_ok (\<lambda>_. 0) F ks as \<and> lockRoutine (applications F) \<noteq> FreedLock \<and> wired {} F cs Q"

text \<open>Nothing is left registered with the kernel, but the filters it refuses to give up.\<close>

definition stopped :: "(protocol \<Rightarrow> bool) \<Rightarrow> Firewall \<Rightarrow> bool" where
  "stopped sfltFails F \<longleftrightarrow> \<not> kernelControlReference F \<and> \<not> lockClientsQueue F \<and> \<not> processListener (applications F) \<and>
     (\<forall>p\<in>set (protocols F). p_state p \<longrightarrow> sfltFails p)"

definition startup_ok :: "kernel \<Rightarrow> startup \<Rightarrow> bool" where
  "startup_ok k e \<longleftrightarrow> s_tagFound e \<and> s_threadStarts e \<and> s_listens e \<and> s_registers e \<and>
     grants k NewLock 0 \<and> grants k NewLock 1 \<and> grants k NewLock 2 \<and> grants k NewLock 3 \<and> grants k NewLock 4"

lemma Init_success:
  assumes "startup_ok k e"
  shows "\<exists>F. Firewall_Init k e unloaded = Some (True, F) \<and> running F [] [] [] [] Q \<and> \<not> closing F \<and>
    app_closing (applications F) = 0 \<and>
    protocols F = map (\<lambda>p. if s_sfltFails e p then p else p\<lparr>p_state := True\<rparr>) initial_protocols"
  using assms
  by (auto simp: startup_ok_def Firewall_Init_def unloaded_def no_rules_def Cookies_Init_def Rules_Init_def Applications_Init_def
      RegisterSocketFilters_def RegisterKernelControl_def running_def rules_wf_def sockets_ok_def cookies_ok_def
      apps_ok_def counted_heap_def wired_def clients_ok_def queues_ok_def mail_ok_def below_def app_owners_def)

lemma RegisterKernelControl_result:
  "RegisterKernelControl k n registers F =
     (if grants k NewLock n \<and> registers then (True, F\<lparr>lockClientsQueue := True, kernelControlReference := True\<rparr>)
      else (False, F\<lparr>lockClientsQueue := False\<rparr>))"
  by (simp add: RegisterKernelControl_def)

lemma app_free_loop_empty [simp]: "app_head A = None \<Longrightarrow> app_free_loop k A = Some A"
  by (simp add: app_free_loop.simps)

lemmas Init_defs = Firewall_Init_def unloaded_def no_rules_def Cookies_Init_def Rules_Init_def Applications_Init_def
  RegisterSocketFilters_def UnregisterSocketFilters_def RegisterKernelControl_result stopped_def
  Rules_Free_def Cookies_Free_def HaveAttachedSockets_def Applications_Free_def Let_def

lemma initial_protocols_off: "p \<in> set initial_protocols \<Longrightarrow> \<not> p_state p"
  by (auto simp: initial_protocols_def)

text \<open>Without memory for the first lock, NULL is given to \<open>IOLockFree\<close>.\<close>

lemma Init_no_lock: "\<not> grants k NewLock 1 \<Longrightarrow> Firewall_Init k e unloaded = None"
  by (simp add: Firewall_Init_def unloaded_def Cookies_Init_def)

text \<open>
  Otherwise the startup stops at the first service that is refused; each stage undoes the earlier ones, but the
  stage that fails may leave pointers to locks it has freed.
\<close>

lemma Init_failure:
  assumes "\<not> startup_ok k e" and one: "grants k NewLock 1"
  shows "\<exists>F. Firewall_Init k e unloaded = Some (False, F) \<and> stopped (s_unregFails e) F \<and> clients F = None \<and>
    \<not> rules_lock (rules F) \<and> cookies_lock (cookies F) = (if s_tagFound e then NoLock else FreedLock) \<and>
    app_lock (applications F) = (if s_tagFound e \<and> grants k NewLock 0 \<and> grants k NewLock 2 \<and>
      \<not> (grants k NewLock 3 \<and> s_threadStarts e \<and> s_listens e) then FreedLock else NoLock)"
proof (cases "s_tagFound e")
  case False
  with one show ?thesis by (simp add: Init_defs initial_protocols_off)
next
  case c: True
  show ?thesis
  proof (cases "grants k NewLock 0")
    case False
    with c one show ?thesis by (simp add: Init_defs initial_protocols_off)
  next
    case r: True
    have free: "Free_loop k R = Some R" if "root R = None" for R using that by simp
    show ?thesis
    proof (cases "grants k NewLock 2 \<and> grants k NewLock 3 \<and> s_threadStarts e \<and> s_listens e")
      case False
      then consider "\<not> grants k NewLock 2" | "grants k NewLock 2" "\<not> grants k NewLock 3"
        | "grants k NewLock 2" "grants k NewLock 3" "\<not> s_threadStarts e"
        | "grants k NewLock 2" "grants k NewLock 3" "s_threadStarts e" "\<not> s_listens e" by blast
      then show ?thesis using c r one by cases (simp_all add: Init_defs initial_protocols_off numeral_3_eq_3 free)
    next
      case True
      with c r one assms(1) have "\<not> (grants k NewLock 4 \<and> s_registers e)" by (auto simp: startup_ok_def)
      with True c r one show ?thesis by (auto simp: Init_defs numeral_3_eq_3 free dest!: initial_protocols_off)
    qed
  qed
qed

text \<open>
  Stopping. The announcement of the end goes to all clients; then the stop waits for them to leave.
  When a client stays connected, or a socket attached, the stop is refused and the extension goes on
  with \<open>closing\<close> set.
\<close>










section \<open>Properties\<close>

text \<open>
  A loaded extension with one connected client for the concrete instances: its list of clients holds the one
  client 0, its mail is empty.
\<close>

definition demo_member :: Client where
  "demo_member = snd (InitWithClient plain_kernel 0 False 0 1 new_client)"

definition demo_firewall :: Firewall where
  "demo_firewall = unloaded\<lparr>lockClientsQueue := True, clients := Some 0, client_heap := [0 \<mapsto> demo_member],
     clients_made := 1, countSubscribersForDebug := 1,
     cookies := (cookies unloaded)\<lparr>cookies_lock := Lock\<rparr>,
     applications := (applications unloaded)\<lparr>app_lock := Lock\<rparr>\<rparr>"

lemma demo_member: "InitWithClient plain_kernel 0 False 0 1 new_client = (True, demo_member)"
  by code_simp

lemma demo_member_fields: "exitState demo_member = 0" "references demo_member = 1" "c_next demo_member = None"
  "subscribed demo_member MessageClassCommon" "\<not> subscribed demo_member MessageClassInfoRules" "queue_ok N demo_member []"
proof -
  from InitWithClient_ok [OF demo_member plain_kernel_documented, of N]
  show "exitState demo_member = 0" "references demo_member = 1" "c_next demo_member = None" "queue_ok N demo_member []"
    by auto
  show "subscribed demo_member MessageClassCommon" "\<not> subscribed demo_member MessageClassInfoRules" by code_simp+
qed

lemma demo_wired: "wired {} demo_firewall [0] (\<lambda>_. [])"
  using demo_member_fields
  by (auto simp: wired_def demo_firewall_def unloaded_def clients_ok_def mail_ok_def below_def queues_ok_def split: if_splits)

lemma demo_room: "room demo_firewall [0]"
  by (simp add: room_def demo_firewall_def unloaded_def)

lemma demo_sockets: "sockets_ok (\<lambda>_. 0) demo_firewall [] []"
  by (simp add: sockets_ok_def demo_firewall_def unloaded_def cookies_ok_def apps_ok_def counted_heap_def app_owners_def
      users_def)

text \<open>C27. The rules are never enforced. Each of the twelve deciding callbacks of the socket filter
  (peer and socket name, data in and out, connect in and out, bind, options, listen, ioctl, accept) answers
  \<open>KERN_SUCCESS\<close> whatever the rule base says, for arguments as the kernel passes them: an address that is NULL
  or whose \<open>sa_len\<close> bytes can be read, and for the data callbacks a cookie that is attached. It needs memory
  for its message only when the extension is in service and somebody has subscribed to debug messages. All it
  does is to send that message to the clients: rules, sockets, applications and counters are as before, the list of
  clients and every reference count stay consistent.\<close>

theorem filters_never_block:
  assumes "atomics_documented k" and "socket_call k abi F r" and "wired held F cs Q" and "room F cs"
    and "closing F \<or> countSubscribersForDebug F = 0 \<or> grants k NewMessage (next_message F)"
  shows "\<exists>F' Q'. r = Some (KERN_SUCCESS, F') \<and> F' = F\<lparr>client_heap := client_heap F', mail := mail F'\<rparr> \<and> wired held F' cs Q'"
  using socket_call_ok [OF assms] unfolding with_inbox_def by blast

lemma filters_never_block_witness:
  "\<exists>F'. ConnectOut plain_kernel X86_64 \<lparr>selfpid = 10, selfppid = 1, selfname = [], kauth_uid = 0, kauth_gid = 0\<rparr> 5
     (Some [4, 2, 7, 9]) demo_firewall = Some (KERN_SUCCESS, F') \<and> rules F' = rules demo_firewall"
proof -
  let ?who = "\<lparr>selfpid = 10, selfppid = 1, selfname = [], kauth_uid = 0, kauth_gid = 0\<rparr>"
  have c: "socket_call plain_kernel X86_64 demo_firewall (ConnectOut plain_kernel X86_64 ?who 5 (Some [4, 2, 7, 9]) demo_firewall)"
    by (rule call_connect_out) (simp add: sockaddr_ok_def)
  obtain F' where F': "ConnectOut plain_kernel X86_64 ?who 5 (Some [4, 2, 7, 9]) demo_firewall = Some (KERN_SUCCESS, F')"
    "F' = demo_firewall\<lparr>client_heap := client_heap F', mail := mail F'\<rparr>"
    using filters_never_block [OF plain_kernel_documented c demo_wired demo_room] plain_kernel_grants by blast
  from F'(2) have "rules F' = rules (demo_firewall\<lparr>client_heap := client_heap F', mail := mail F'\<rparr>)" by (rule arg_cong)
  then have "rules F' = rules demo_firewall" by simp
  with F'(1) show ?thesis by blast
qed

text \<open>C28. A callback does not survive the lack of memory for its message: when the extension is in
  service (not closing), there is a subscriber and the allocation is refused, the NULL message is dereferenced, in every one of the twelve callbacks.\<close>

theorem null_message_faults:
  assumes "socket_call k abi F r" and "\<not> grants k NewMessage (next_message F)"
    and "\<not> closing F" and "countSubscribersForDebug F \<noteq> 0"
  shows "r = None"
  using socket_call_null [OF assms] .

lemma null_message_faults_witness:
  "Listen (plain_kernel\<lparr>grants := \<lambda>_ _. False\<rparr>) X86_64
     \<lparr>selfpid = 10, selfppid = 1, selfname = [], kauth_uid = 0, kauth_gid = 0\<rparr> 5 demo_firewall = None"
  by (rule null_message_faults [OF call_listen]) (simp_all add: demo_firewall_def unloaded_def)

text \<open>C29. \<open>Send\<close> offers a message to every client of the list. It returns, and the queue of every
  client that has registered a class of the message is extended by it (or stays as it is, when a node cannot be allocated);
  the queues of the others keep their messages, no client loses or gains anything else, the counts stay right.\<close>

theorem broadcast_delivers:
  assumes "atomics_documented k" and "wired held F cs Q" and "messages (mail F) m = Some x" and "room F cs"
  shows "\<exists>F' Q'. Firewall_Send k (Some m) F = Some F' \<and> wired held F' cs Q' \<and>
    (\<forall>a\<in>set cs. \<exists>c c'. client_heap F a = Some c \<and> client_heap F' a = Some c' \<and> sans_queue c' = sans_queue c \<and>
       (let before = posted (nodes (mail F)) (Q a); after = posted (nodes (mail F')) (Q' a) in
        if takes c x then after = before @ [Some m] \<or> after = before \<and> (\<exists>n. \<not> grants k NewNode n) else after = before))"
proof -
  from Firewall_Send_ok [OF assms] obtain H M Q' where
    s: "Firewall_Send k (Some m) F = Some (with_inbox H M F)" "wired held (with_inbox H M F) cs Q'"
      "broadcast_done k m x cs (client_heap F) (mail F) Q H M Q'" by blast
  have e: "client_heap (with_inbox H M F) = H" "mail (with_inbox H M F) = M" by (simp_all add: with_inbox_def)
  show ?thesis
  proof (intro exI [of _ "with_inbox H M F"] exI [of _ Q'] conjI ballI)
    show "Firewall_Send k (Some m) F = Some (with_inbox H M F)" "wired held (with_inbox H M F) cs Q'" by (fact s)+
    fix a assume "a \<in> set cs"
    from broadcast_client(2) [OF s(3) this] obtain c c' where
      "client_heap F a = Some c" "H a = Some c'" "sans_queue c' = sans_queue c"
      "offered k m x c (posted (nodes (mail F)) (Q a)) (posted (nodes M) (Q' a))" by blast
    then show "\<exists>c c'. client_heap F a = Some c \<and> client_heap (with_inbox H M F) a = Some c' \<and> sans_queue c' = sans_queue c \<and>
       (let before = posted (nodes (mail F)) (Q a); after = posted (nodes (mail (with_inbox H M F))) (Q' a) in
        if takes c x then after = before @ [Some m] \<or> after = before \<and> (\<exists>n. \<not> grants k NewNode n) else after = before)"
      unfolding e offered_def Let_def by blast
  qed
qed

definition demo_news :: Firewall where
  "demo_news = demo_firewall\<lparr>mail := store_message \<lparr>references = 1, raw = [4, 0, 9, 8]\<rparr> (mail demo_firewall)\<rparr>"

lemma demo_news_wired: "wired {0} demo_news [0] (\<lambda>_. [])" and demo_news_room: "room demo_news [0]"
  and demo_news_message: "messages (mail demo_news) 0 = Some \<lparr>references = 1, raw = [4, 0, 9, 8]\<rparr>"
proof -
  have t: "raw_type \<lparr>references = 1, raw = [4, 0, 9, 8]\<rparr> = Some 2057" "raw_size \<lparr>references = 1, raw = [4, 0, 9, 8]\<rparr> = Some 4"
    by code_simp+
  then have ok: "message_ok 2057 \<lparr>references = 1, raw = [4, 0, 9, 8]\<rparr>" by (simp add: message_ok_def)
  show "room demo_news [0]" "messages (mail demo_news) 0 = Some \<lparr>references = 1, raw = [4, 0, 9, 8]\<rparr>"
    by (simp_all add: room_def demo_news_def demo_firewall_def unloaded_def store_message_def)
  show "wired {0} demo_news [0] (\<lambda>_. [])"
    using store_ok [OF demo_wired ok] by (simp add: demo_news_def demo_firewall_def unloaded_def)
qed

lemma broadcast_delivers_witness:
  "\<exists>F' Q'. Firewall_Send plain_kernel (Some 0) demo_news = Some F' \<and> wired {0} F' [0] Q' \<and>
    posted (nodes (mail F')) (Q' 0) = [Some 0]"
proof -
  have t: "raw_type \<lparr>references = 1, raw = [4, 0, 9, 8]\<rparr> = Some 2057" by code_simp
  have "2057 AND registredMessageClases demo_member \<noteq> 0" by code_simp
  then have tk: "takes demo_member \<lparr>references = 1, raw = [4, 0, 9, 8]\<rparr>"
    by (simp add: takes_def t demo_member_fields)
  have c: "client_heap demo_news 0 = Some demo_member" by (simp add: demo_news_def demo_firewall_def)
  from broadcast_delivers [OF plain_kernel_documented demo_news_wired demo_news_message demo_news_room] obtain F' Q' where
    f: "Firewall_Send plain_kernel (Some 0) demo_news = Some F'" "wired {0} F' [0] Q'"
    and d: "\<forall>a\<in>set [0]. \<exists>c c'. client_heap demo_news a = Some c \<and> client_heap F' a = Some c' \<and> sans_queue c' = sans_queue c \<and>
       (let before = posted (nodes (mail demo_news)) []; after = posted (nodes (mail F')) (Q' a) in
        if takes c \<lparr>references = 1, raw = [4, 0, 9, 8]\<rparr>
        then after = before @ [Some 0] \<or> after = before \<and> (\<exists>n. \<not> grants plain_kernel NewNode n) else after = before)"
    by blast
  have "posted (nodes (mail F')) (Q' 0) = [Some 0]"
    using d c tk by (auto simp: posted_def [of _ "[]"] Let_def)
  with f show ?thesis by blast
qed



text \<open>C31. Disconnecting takes exactly that client out of the list, raises its exit flag, drops the list's
  reference (freeing it when it was the last) and takes it out of the counter of each class it is subscribed to, and
  of no other: providers of rules, rule information, socket information and (class common) debug messages. The other
  clients keep their order and their queues, and rules, sockets, lock and control reference stay. Disconnecting a client
  that is not in the list changes nothing.\<close>

theorem client_disconnects:
  assumes "atomics_documented k" and "wired held F cs Q"
  shows "(a \<notin> set cs \<longrightarrow> KcDisconnect k (Some a) F = Some (KERN_SUCCESS, F)) \<and>
    (\<forall>us vs c. cs = us @ a # vs \<longrightarrow> client_heap F a = Some c \<longrightarrow>
      (\<exists>F'. KcDisconnect k (Some a) F = Some (KERN_SUCCESS, F') \<and> wired held F' (us @ vs) Q \<and> same_filter F F' \<and>
        client_heap F' a = (if references c = 1 then None else Some (c\<lparr>exitState := 1, references := references c - 1\<rparr>)) \<and>
        countSubscribersAsaProviderOfRules F' =
          countSubscribersAsaProviderOfRules F - (if subscribed c MessageClassProviderOfRules then 1 else 0) \<and>
        countSubscribersForInfoRules F' = countSubscribersForInfoRules F - (if subscribed c MessageClassInfoRules then 1 else 0) \<and>
        countSubscribersForInfoSockets F' =
          countSubscribersForInfoSockets F - (if subscribed c MessageClassInfoSockets then 1 else 0) \<and>
        countSubscribersForDebug F' = countSubscribersForDebug F - (if subscribed c MessageClassCommon then 1 else 0) \<and>
        lockClientsQueue F' = lockClientsQueue F \<and> kernelControlReference F' = kernelControlReference F \<and>
        clients_made F' = clients_made F))"
  using KcDisconnect_unknown [OF assms(2)] KcDisconnect_ok [OF assms(1)] assms(2) by blast

lemma client_disconnects_witness:
  "\<exists>F'. KcDisconnect plain_kernel (Some 0) demo_firewall = Some (KERN_SUCCESS, F') \<and> wired {} F' [] (\<lambda>_. []) \<and>
    client_heap F' 0 = None \<and> countSubscribersForDebug F' = 0 \<and> countSubscribersForInfoRules F' = 0"
proof -
  have "client_heap demo_firewall 0 = Some demo_member" "countSubscribersForDebug demo_firewall = 1"
    "countSubscribersForInfoRules demo_firewall = 0"
    by (simp_all add: demo_firewall_def unloaded_def)
  with client_disconnects [OF plain_kernel_documented demo_wired, of 0] show ?thesis
    by (fastforce simp: demo_member_fields dest: spec [of _ "[]"])
qed

text \<open>C32. Attaching a socket is refused exactly when the extension (or its list of applications) is closing,
  when the cookie cannot be allocated, or when the calling process has no record yet and none can be allocated; the
  kernel then gets ENOMEM and no cookie, and nothing but the number of allocated cookies has changed. Otherwise it
  succeeds: the socket has a cookie at the head of the list, in state ALLOWED, with the socket and the record of the
  calling process, to which it holds a reference. In both cases cookies, applications, clients and all their counts
  stay consistent. Fresh memory is taken to be cleared by the kernel's \<open>operator new\<close> (the fields of the cookie the
  code does not write), and memory for the message is needed when there is a subscriber to debug messages.\<close>

theorem socket_attaches:
  assumes "atomics_documented k" and "sockets_ok extra F ks as" and "wired held F cs Q" and "room F cs"
    and "\<forall>b. extra b + length ks + 2 < 2 ^ 32"
    and "k_prev fresh = None \<and> cookie_rule fresh = None \<and> deferredDataHead fresh = None \<and> deferredDataLast fresh = None"
    and "countSubscribersForDebug F = 0 \<or> grants k NewMessage (next_message F)"
  shows "if closing F \<or> \<not> grants k NewCookie (cookies_made (cookies F)) \<or> app_closing (applications F) \<noteq> 0 \<or>
      (\<forall>b\<in>set as. map_option pid (app_heap (applications F) b) \<noteq> Some (selfpid who)) \<and>
        \<not> grants k NewApplication (apps_made (applications F))
    then \<exists>n. Attach k abi fresh who so types F = Some (ENOMEM, None, F\<lparr>cookies := (cookies F)\<lparr>cookies_made := n\<rparr>\<rparr>) \<and>
      sockets_ok extra (F\<lparr>cookies := (cookies F)\<lparr>cookies_made := n\<rparr>\<rparr>) ks as
    else \<exists>F' Q'. Attach k abi fresh who so types F = Some (KERN_SUCCESS, Some (cookies_made (cookies F)), F') \<and>
      wired held F' cs Q' \<and> rules F' = rules F \<and> (\<exists>as'. sockets_ok extra F' (cookies_made (cookies F) # ks) as') \<and>
      (\<exists>c b x. cookie_heap (cookies F') (cookies_made (cookies F)) = Some c \<and> socket c = so \<and>
         state c = Some SocketCookieStateALLOWED \<and>
         application c = Some b \<and> app_heap (applications F') b = Some x \<and> pid x = selfpid who)"
proof (cases "attach_refused k who F as")
  case True
  obtain n where "Attach k abi fresh who so types F = Some (ENOMEM, None, F\<lparr>cookies := (cookies F)\<lparr>cookies_made := n\<rparr>\<rparr>)"
    "cookies_made (cookies F) \<le> n"
    using Attach_refused [OF assms(2,1,5) True] by blast
  with sockets_ok_made [OF assms(2)] True show ?thesis
    unfolding if_P [OF True [unfolded attach_refused_def]] by blast
next
  case False
  have "cleared_cookie fresh" using assms(6) by (simp add: cleared_cookie_def)
  from Attach_ok [OF assms(1-5) this assms(7) False] show ?thesis
    unfolding if_not_P [OF False [unfolded attach_refused_def]] .
qed

definition demo_memory :: SocketCookie where
  "demo_memory = \<lparr>application = None, state = None, socket = 0, sockDomain = 0, sockType = 0, sockProtocol = 0,
     obtainedRuleTime = 0, deferredDataHead = None, deferredDataLast = None, cookie_rule = None,
     sa_from = None, sa_to = None, k_prev = None, k_next = None\<rparr>"

lemma socket_attaches_witness:
  "\<exists>F' Q'. Attach plain_kernel X86_64 demo_memory \<lparr>selfpid = 10, selfppid = 1, selfname = [], kauth_uid = 0, kauth_gid = 0\<rparr>
     5 (2, 1, 6) demo_firewall = Some (KERN_SUCCESS, Some 0, F') \<and> wired {} F' [0] Q'"
proof -
  have m: "k_prev demo_memory = None \<and> cookie_rule demo_memory = None \<and> deferredDataHead demo_memory = None \<and>
    deferredDataLast demo_memory = None" by (simp add: demo_memory_def)
  have f: "\<not> closing demo_firewall" "app_closing (applications demo_firewall) = 0" "cookies_made (cookies demo_firewall) = 0"
    by (simp_all add: demo_firewall_def unloaded_def)
  show ?thesis
    using socket_attaches [OF plain_kernel_documented demo_sockets demo_wired demo_room _ m, where abi = X86_64
        and who = "\<lparr>selfpid = 10, selfppid = 1, selfname = [], kauth_uid = 0, kauth_gid = 0\<rparr>"
        and so = 5 and types = "(2, 1, 6)"] f
    by auto
qed

text \<open>C33. Detaching a socket unlinks its cookie, frees it, gives its reference to the process record back and
  leaves the other cookies, the applications and the clients consistent. Memory for the message is needed only
  when the extension is in service and there is a subscriber to debug messages (without it the NULL message is
  dereferenced, as in the callbacks).\<close>

theorem socket_detaches:
  assumes "atomics_documented k" and "sockets_ok extra F (us @ a # vs) as" and "wired held F cs Q" and "room F cs"
    and "closing F \<or> countSubscribersForDebug F = 0 \<or> grants k NewMessage (next_message F)"
  shows "\<exists>F' Q'. Detach k abi who (Some a) so F = Some F' \<and> wired held F' cs Q' \<and> sockets_ok extra F' (us @ vs) as \<and>
    rules F' = rules F \<and> cookie_heap (cookies F') a = None"
  using Detach_ok [OF assms] .

definition demo_attached :: Firewall where
  "demo_attached = demo_firewall\<lparr>
     cookies := (cookies demo_firewall)\<lparr>socketCookies := Some 0, countAttachedCookies := 1, cookies_made := 1,
       cookie_heap := [0 \<mapsto> attached_cookie demo_memory (Some 0) 5 (2, 1, 6)]\<rparr>,
     applications := (applications demo_firewall)\<lparr>app_head := Some 0, apps_made := 1,
       app_heap := [0 \<mapsto> \<lparr>references = 2, pid = 10, p_pid = 1, uid = 0, gid = 0, processName = None, filePath = None,
         createTime = 0, modifyTime = 0, dataSize = 0, a_prev = None, a_next = None\<rparr>]\<rparr>\<rparr>"

lemma demo_attached:
  "sockets_ok (\<lambda>_. 0) demo_attached [0] [0]" "wired {} demo_attached [0] (\<lambda>_. [])" "room demo_attached [0]"
proof -
  have n: "k_next (attached_cookie demo_memory (Some 0) 5 (2, 1, 6)) = None" "k_prev demo_memory = None" "cleared_cookie demo_memory"
    by (simp_all add: attached_cookie_def SetSocket_def demo_memory_def cleared_cookie_def)
  show "sockets_ok (\<lambda>_. 0) demo_attached [0] [0]"
    by (auto simp: sockets_ok_def demo_attached_def cookies_ok_def apps_ok_def counted_heap_def app_owners_def users_def
        demo_firewall_def unloaded_def n split: if_splits)
  show "wired {} demo_attached [0] (\<lambda>_. [])" using demo_wired by (simp add: demo_attached_def wired_def)
  show "room demo_attached [0]" using demo_room by (simp add: demo_attached_def room_def)
qed

lemma socket_detaches_witness:
  "\<exists>F'. Detach plain_kernel X86_64 \<lparr>selfpid = 10, selfppid = 1, selfname = [], kauth_uid = 0, kauth_gid = 0\<rparr> (Some 0) 5
     demo_attached = Some F' \<and> sockets_ok (\<lambda>_. 0) F' [] [0] \<and> cookie_heap (cookies F') 0 = None"
  using socket_detaches [OF plain_kernel_documented, of _ demo_attached "[]" 0 "[]" "[0]"] demo_attached by fastforce

text \<open>C34. Loading the extension. Without memory for its first lock it faults (\<open>IOLockFree\<close> is given the
  NULL pointer). Otherwise it either succeeds, exactly when every lock, the mbuf tag, the thread, the listener and the
  control socket can be had, in a state in which all the invariants hold and every protocol is filtered that could be
  registered; or it fails and undoes what it had done: the control socket is not registered, and no filter is but those whose
  removal the kernel refuses; the rules have no lock left. A stage that fails half way leaves the address of a lock it
  has freed: the cookies' when the tag is not found, the applications' when their second lock, their thread or
  the listener cannot be had.\<close>

theorem start_or_undo:
  "case watch_start k e unloaded of
     None \<Rightarrow> \<not> grants k NewLock 1
   | Some (result, F) \<Rightarrow> grants k NewLock 1 \<and>
      (if startup_ok k e
       then result = KERN_SUCCESS \<and> running F [] [] [] [] Q \<and> \<not> closing F \<and>
         protocols F = map (\<lambda>p. if s_sfltFails e p then p else p\<lparr>p_state := True\<rparr>) initial_protocols
       else result = KERN_FAILURE \<and> stopped (s_unregFails e) F \<and> \<not> rules_lock (rules F) \<and> clients F = None \<and>
         cookies_lock (cookies F) = (if s_tagFound e then NoLock else FreedLock) \<and>
         app_lock (applications F) = (if s_tagFound e \<and> grants k NewLock 0 \<and> grants k NewLock 2 \<and>
           \<not> (grants k NewLock 3 \<and> s_threadStarts e \<and> s_listens e) then FreedLock else NoLock))"
proof (cases "grants k NewLock 1")
  case False
  with Init_no_lock [OF False] show ?thesis by (simp add: watch_start_def)
next
  case one: True
  show ?thesis
  proof (cases "startup_ok k e")
    case True
    with Init_success [OF True, of Q] one show ?thesis unfolding watch_start_def by (auto simp: True)
  next
    case False
    with Init_failure [OF False one] one show ?thesis unfolding watch_start_def by auto
  qed
qed

lemma start_or_undo_witness:
  "(\<exists>F. watch_start plain_kernel \<lparr>s_tagFound = True, s_threadStarts = True, s_listens = True, s_sfltFails = (\<lambda>_. False),
      s_unregFails = (\<lambda>_. False), s_registers = True\<rparr> unloaded = Some (KERN_SUCCESS, F)) \<and>
   (\<exists>F. watch_start plain_kernel \<lparr>s_tagFound = True, s_threadStarts = True, s_listens = False, s_sfltFails = (\<lambda>_. False),
      s_unregFails = (\<lambda>_. False), s_registers = True\<rparr> unloaded = Some (KERN_FAILURE, F) \<and> app_lock (applications F) = FreedLock)"
proof -
  let ?e = "\<lambda>listens. \<lparr>s_tagFound = True, s_threadStarts = True, s_listens = listens, s_sfltFails = (\<lambda>_. False),
      s_unregFails = (\<lambda>_. False), s_registers = True\<rparr>"
  have "startup_ok plain_kernel (?e True)" "\<not> startup_ok plain_kernel (?e False)" by (simp_all add: startup_ok_def)
  with start_or_undo [of plain_kernel "?e True"] start_or_undo [of plain_kernel "?e False"]
  show ?thesis
    by (cases "watch_start plain_kernel (?e True) unloaded"; cases "watch_start plain_kernel (?e False) unloaded") auto
qed






end
