(* ===== verification/KcSend.thy ===== *)
theory KcSend
  imports Firewall
begin

text \<open>
  The commands of the control socket (\<open>Firewall::KcSend\<close> in Kext/firewall.cpp). A client writes a
  batch of raw messages into an \<open>mbuf\<close>; the loop walks over it by the size each message declares and
  dispatches on its type. There is one definition per case of the \<open>switch\<close>; \<open>m\<close> is the memory from
  the message on, \<open>a\<close> the client.

  An answer is a new message whose \<open>actionState\<close> may be overwritten before it is sent; success is
  announced to everybody (\<open>firewall.Send\<close>), the other results go to the client (\<open>client->Send\<close>).
\<close>

section \<open>Answers\<close>

text \<open>
  \<open>Message* responce = Message::CreateX(..); if(responce == NULL) break; ..; responce->Release();\<close>
\<close>

definition with_response ::
  "kernel \<Rightarrow> Message option option \<Rightarrow> (ptr \<Rightarrow> Firewall \<Rightarrow> Firewall option) \<Rightarrow> Firewall \<Rightarrow> Firewall option" where
  "with_response k made body F = do {
     responce \<leftarrow> made;
     case responce of None \<Rightarrow> Some F
     | Some x \<Rightarrow> do {
         let p = Some (next_message F);
         F1 \<leftarrow> body p (F\<lparr>mail := store_message x (mail F)\<rparr>);
         M \<leftarrow> release_message k p (mail F1);
         Some (F1\<lparr>mail := M\<rparr>)
       }
   }"

text \<open>\<open>rawResponce->actionState = v;\<close>\<close>

definition set_actionState :: "abi \<Rightarrow> u32 \<Rightarrow> ptr \<Rightarrow> Firewall \<Rightarrow> Firewall option" where
  "set_actionState abi v p F = (case p of None \<Rightarrow> None
     | Some n \<Rightarrow> do {
         x \<leftarrow> messages (mail F) n;
         r \<leftarrow> put_field abi RawMessageClientActionResponse F_actionState (unat v) (raw x);
         Some (F\<lparr>mail := (mail F)\<lparr>messages := (messages (mail F))(n \<mapsto> x\<lparr>raw := r\<rparr>)\<rparr>\<rparr>)
       })"

text \<open>\<open>client->Send(responce);\<close>\<close>

definition client_Send :: "kernel \<Rightarrow> addr \<Rightarrow> ptr \<Rightarrow> Firewall \<Rightarrow> Firewall option" where
  "client_Send k a p F = do {
     c \<leftarrow> client_heap F a;
     (c', M) \<leftarrow> Client_Send k p c (mail F);
     Some (F\<lparr>client_heap := (client_heap F)(a \<mapsto> c'), mail := M\<rparr>)
   }"

definition answer :: "kernel \<Rightarrow> abi \<Rightarrow> addr \<Rightarrow> u32 \<Rightarrow> ptr \<Rightarrow> Firewall \<Rightarrow> Firewall option" where
  "answer k abi a v p F = Option.bind (set_actionState abi v p F) (client_Send k a p)"

definition client_unit :: "addr \<Rightarrow> Firewall \<Rightarrow> u32 option" where
  "client_unit a F = map_option unit (client_heap F a)"

definition field32 :: "abi \<Rightarrow> struct \<Rightarrow> fname \<Rightarrow> u8 list \<Rightarrow> u32 option" where
  "field32 abi S f m = map_option of_nat (get_field abi S f m)"

section \<open>The cases of the switch\<close>

definition kc_DeleteRule :: "kernel \<Rightarrow> abi \<Rightarrow> addr \<Rightarrow> u8 list \<Rightarrow> Firewall \<Rightarrow> Firewall option" where
  "kc_DeleteRule k abi a m F = do {
     u \<leftarrow> client_unit a F;
     messageId \<leftarrow> field32 abi RawMessageClientAction F_messageId m;
     ruleId \<leftarrow> field32 abi RawMessageDeleteRule F_ruleId m;
     with_response k (CreateRuleDeleted k abi (next_message F) u messageId 0 ruleId) (\<lambda>responce F. do {
       (res, R) \<leftarrow> DeleteRule k ruleId (rules F);
       let F1 = F\<lparr>rules := R\<rparr>;
       if res = 0 then Firewall_Send k responce F1
       else if res = 1 then answer k abi a (-1) responce F1
       else Some F1
     }) F
   }"

definition kc_AddRule :: "kernel \<Rightarrow> abi \<Rightarrow> addr \<Rightarrow> u8 list \<Rightarrow> Firewall \<Rightarrow> Firewall option" where
  "kc_AddRule k abi a m F = do {
     u \<leftarrow> client_unit a F;
     ident \<leftarrow> field32 abi RawMessageAddRule F_id m;
     with_response k (CreateRuleAdded k abi (next_message F) u ident 0 0) (\<lambda>responce F. do {
       (res, rule, R) \<leftarrow> AddRule k abi (Some m) (rules F);
       let F1 = F\<lparr>rules := R\<rparr>;
       F2 \<leftarrow> (if res = -1 then answer k abi a (-1) responce F1
              else if res = 0 then Firewall_Send k responce F1
              else if res = 1 then answer k abi a 1 responce F1
              else Some F1);
       case rule of None \<Rightarrow> Some F2
       | Some r \<Rightarrow> map_option (\<lambda>h. F2\<lparr>rules := (rules F2)\<lparr>rules_heap := h\<rparr>\<rparr>) (release_at k (Some r) (rules_heap (rules F2)))
     }) F
   }"

definition kc_ActivateRule :: "kernel \<Rightarrow> abi \<Rightarrow> addr \<Rightarrow> u8 list \<Rightarrow> Firewall \<Rightarrow> Firewall option" where
  "kc_ActivateRule k abi a m F = do {
     u \<leftarrow> client_unit a F;
     messageId \<leftarrow> field32 abi RawMessageClientAction F_messageId m;
     ruleId \<leftarrow> field32 abi RawMessageActivateRule F_ruleId m;
     with_response k (CreateRuleActivated k abi (next_message F) u messageId 0 ruleId) (\<lambda>responce F. do {
       (res, R) \<leftarrow> ActivateRule k ruleId (rules F);
       let F1 = F\<lparr>rules := R\<rparr>;
       if res = -1 then answer k abi a (-1) responce F1
       else if res = 0 then Option.bind (set_actionState abi 0 responce F1) (Firewall_Send k responce)
       else if res = 1 then answer k abi a 1 responce F1
       else Some F1
     }) F
   }"

definition kc_DeactivateRule :: "kernel \<Rightarrow> abi \<Rightarrow> addr \<Rightarrow> u8 list \<Rightarrow> Firewall \<Rightarrow> Firewall option" where
  "kc_DeactivateRule k abi a m F = do {
     u \<leftarrow> client_unit a F;
     messageId \<leftarrow> field32 abi RawMessageClientAction F_messageId m;
     ruleId \<leftarrow> field32 abi RawMessageDeactivateRule F_ruleId m;
     with_response k (CreateRuleDeactivated k abi (next_message F) u messageId 0 ruleId) (\<lambda>responce F. do {
       (res, R) \<leftarrow> DeactivateRule k ruleId (rules F);
       let F1 = F\<lparr>rules := R\<rparr>;
       if res = -1 then answer k abi a (-1) responce F1
       else if res = 0 then Option.bind (set_actionState abi 0 responce F1) (Firewall_Send k responce)
       else if res = 1 then answer k abi a 1 responce F1
       else Some F1
     }) F
   }"

definition kc_ActivateFirewall :: "kernel \<Rightarrow> abi \<Rightarrow> addr \<Rightarrow> u8 list \<Rightarrow> Firewall \<Rightarrow> Firewall option" where
  "kc_ActivateFirewall k abi a m F = do {
     u \<leftarrow> client_unit a F;
     messageId \<leftarrow> field32 abi RawMessageClientAction F_messageId m;
     with_response k (CreateFirewallActivated k abi (next_message F) u messageId 0) (\<lambda>responce F.
       if \<not> firewallUp F then Firewall_Send k responce (F\<lparr>firewallUp := True\<rparr>)
       else answer k abi a 1 responce F) F
   }"

definition kc_DeactivateFirewall :: "kernel \<Rightarrow> abi \<Rightarrow> addr \<Rightarrow> u8 list \<Rightarrow> Firewall \<Rightarrow> Firewall option" where
  "kc_DeactivateFirewall k abi a m F = do {
     u \<leftarrow> client_unit a F;
     messageId \<leftarrow> field32 abi RawMessageClientAction F_messageId m;
     with_response k (CreateFirewallDeactivated k abi (next_message F) u messageId 0) (\<lambda>responce F.
       if firewallUp F then Firewall_Send k responce (F\<lparr>firewallUp := False\<rparr>)
       else answer k abi a 1 responce F) F
   }"

text \<open>
  The six subscription cases differ in the message class, the counter and the answer; \<open>count\<close> is the
  update function of the counter's field.
\<close>

definition kc_subscribe ::
  "kernel \<Rightarrow> abi \<Rightarrow> (u32 \<Rightarrow> u32 \<Rightarrow> u32 \<Rightarrow> Message option option) \<Rightarrow> MessagesClass \<Rightarrow> ((s32 \<Rightarrow> s32) \<Rightarrow> Firewall \<Rightarrow> Firewall) \<Rightarrow>
   addr \<Rightarrow> u8 list \<Rightarrow> Firewall \<Rightarrow> Firewall option" where
  "kc_subscribe k abi create cl count a m F = do {
     u \<leftarrow> client_unit a F;
     messageId \<leftarrow> field32 abi RawMessageClientAction F_messageId m;
     with_response k (create u messageId 0) (\<lambda>responce F. do {
       c \<leftarrow> client_heap F a;
       let (r, c') = RegisterMessageClasses k (class_code cl) c;
       let F1 = F\<lparr>client_heap := (client_heap F)(a \<mapsto> c')\<rparr>;
       F2 \<leftarrow> (if r then Some (count (\<lambda>v. snd (OSIncrementAtomic k v)) F1) else set_actionState abi 1 responce F1);
       client_Send k a responce F2
     }) F
   }"

definition kc_unsubscribe ::
  "kernel \<Rightarrow> abi \<Rightarrow> (u32 \<Rightarrow> u32 \<Rightarrow> u32 \<Rightarrow> Message option option) \<Rightarrow> MessagesClass \<Rightarrow> ((s32 \<Rightarrow> s32) \<Rightarrow> Firewall \<Rightarrow> Firewall) \<Rightarrow>
   addr \<Rightarrow> u8 list \<Rightarrow> Firewall \<Rightarrow> Firewall option" where
  "kc_unsubscribe k abi create cl count a m F = do {
     u \<leftarrow> client_unit a F;
     messageId \<leftarrow> field32 abi RawMessageClientAction F_messageId m;
     with_response k (create u messageId 0) (\<lambda>responce F. do {
       c \<leftarrow> client_heap F a;
       let (r, c') = UnregisterMessageClasses k (class_code cl) c;
       let F1 = F\<lparr>client_heap := (client_heap F)(a \<mapsto> c')\<rparr>;
       F2 \<leftarrow> (if r then Some (count (\<lambda>v. snd (OSDecrementAtomic k v)) F1) else set_actionState abi 1 responce F1);
       client_Send k a responce F2
     }) F
   }"

definition kc_SubscribeAsaProviderOfRules :: "kernel \<Rightarrow> abi \<Rightarrow> addr \<Rightarrow> u8 list \<Rightarrow> Firewall \<Rightarrow> Firewall option" where
  "kc_SubscribeAsaProviderOfRules k abi a m F =
     kc_subscribe k abi (CreateClientSubscribedAsaProviderOfRules k abi (next_message F))
       MessageClassProviderOfRules countSubscribersAsaProviderOfRules_update a m F"

definition kc_UnsubscribeAsaProviderOfRules :: "kernel \<Rightarrow> abi \<Rightarrow> addr \<Rightarrow> u8 list \<Rightarrow> Firewall \<Rightarrow> Firewall option" where
  "kc_UnsubscribeAsaProviderOfRules k abi a m F =
     kc_unsubscribe k abi (CreateClientUnsubscribedAsaProviderOfRules k abi (next_message F))
       MessageClassProviderOfRules countSubscribersAsaProviderOfRules_update a m F"

definition kc_SubscribeToInfoRules :: "kernel \<Rightarrow> abi \<Rightarrow> addr \<Rightarrow> u8 list \<Rightarrow> Firewall \<Rightarrow> Firewall option" where
  "kc_SubscribeToInfoRules k abi a m F =
     kc_subscribe k abi (CreateClientSubscribedToInfoRules k abi (next_message F))
       MessageClassInfoRules countSubscribersForInfoRules_update a m F"

definition kc_UnsubscribeFromInfoRules :: "kernel \<Rightarrow> abi \<Rightarrow> addr \<Rightarrow> u8 list \<Rightarrow> Firewall \<Rightarrow> Firewall option" where
  "kc_UnsubscribeFromInfoRules k abi a m F =
     kc_unsubscribe k abi (CreateClientUnsubscribedFromInfoRules k abi (next_message F))
       MessageClassInfoRules countSubscribersForInfoRules_update a m F"

definition kc_SubscribeToInfoSockets :: "kernel \<Rightarrow> abi \<Rightarrow> addr \<Rightarrow> u8 list \<Rightarrow> Firewall \<Rightarrow> Firewall option" where
  "kc_SubscribeToInfoSockets k abi a m F =
     kc_subscribe k abi (CreateClientSubscribedToInfoSockets k abi (next_message F))
       MessageClassInfoSockets countSubscribersForInfoSockets_update a m F"

definition kc_UnsubscribeFromInfoSockets :: "kernel \<Rightarrow> abi \<Rightarrow> addr \<Rightarrow> u8 list \<Rightarrow> Firewall \<Rightarrow> Firewall option" where
  "kc_UnsubscribeFromInfoSockets k abi a m F =
     kc_unsubscribe k abi (CreateClientUnsubscribedFromInfoSockets k abi (next_message F))
       MessageClassInfoSockets countSubscribersForInfoSockets_update a m F"

text \<open>The dispatch on \<open>message->type\<close>; other types are skipped.\<close>

definition kc_command :: "kernel \<Rightarrow> abi \<Rightarrow> addr \<Rightarrow> u8 list \<Rightarrow> Firewall \<Rightarrow> Firewall option" where
  "kc_command k abi a m F = do {
     ty \<leftarrow> rd_u16 m 2;
     case client_type_of ty of
       None \<Rightarrow> Some F
     | Some MessageTypeDeleteRule \<Rightarrow> kc_DeleteRule k abi a m F
     | Some MessageTypeAddRule \<Rightarrow> kc_AddRule k abi a m F
     | Some MessageTypeActivateRule \<Rightarrow> kc_ActivateRule k abi a m F
     | Some MessageTypeDeactivateRule \<Rightarrow> kc_DeactivateRule k abi a m F
     | Some MessageTypeActivateFirewall \<Rightarrow> kc_ActivateFirewall k abi a m F
     | Some MessageTypeDeactivateFirewall \<Rightarrow> kc_DeactivateFirewall k abi a m F
     | Some MessageTypeSubscribeAsaProviderOfRules \<Rightarrow> kc_SubscribeAsaProviderOfRules k abi a m F
     | Some MessageTypeUnsubscribeAsaProviderOfRules \<Rightarrow> kc_UnsubscribeAsaProviderOfRules k abi a m F
     | Some MessageTypeSubscribeToInfoRules \<Rightarrow> kc_SubscribeToInfoRules k abi a m F
     | Some MessageTypeUnsubscribeFromInfoRules \<Rightarrow> kc_UnsubscribeFromInfoRules k abi a m F
     | Some MessageTypeSubscribeToInfoSockets \<Rightarrow> kc_SubscribeToInfoSockets k abi a m F
     | Some MessageTypeUnsubscribeFromInfoSockets \<Rightarrow> kc_UnsubscribeFromInfoSockets k abi a m F
   }"

section \<open>The loop\<close>

text \<open>
  The memory is \<open>mem\<close>, from \<open>mbuf_data\<close> to the end of the buffer, of which \<open>data_len\<close> bytes (\<open>dataSize\<close> in the source,
  \<open>mbuf_len\<close>) are data. \<open>currentPosition\<close> is the 32-bit counter of the source, \<open>at\<close> the offset of the
  pointer \<open>message\<close>; the code steps them apart. \<open>fuel\<close> bounds the number of rounds.
\<close>

fun kc_loop :: "kernel \<Rightarrow> abi \<Rightarrow> addr \<Rightarrow> u8 list \<Rightarrow> nat \<Rightarrow> nat \<Rightarrow> u32 \<Rightarrow> nat \<Rightarrow> Firewall \<Rightarrow> Firewall outcome" where
  "kc_loop k abi a mem data_len 0 currentPosition at F = OutOfFuel"
| "kc_loop k abi a mem data_len (Suc fuel) currentPosition at F =
     (if unat currentPosition < data_len then
        (case kc_command k abi a (drop at mem) F of None \<Rightarrow> Fault
         | Some F' \<Rightarrow>
             (case rd_u16 mem at of None \<Rightarrow> Fault
              | Some sz \<Rightarrow> kc_loop k abi a mem data_len fuel (currentPosition + ucast sz) (at + unat sz) F'))
      else Returned F)"

definition KcSend :: "kernel \<Rightarrow> abi \<Rightarrow> ptr \<Rightarrow> u8 list \<Rightarrow> nat \<Rightarrow> nat \<Rightarrow> Firewall \<Rightarrow> (errno \<times> Firewall) outcome" where
  "KcSend k abi unitinfo mem data_len fuel F =
     (if closing F then Returned (KERN_TERMINATED, F)
      else case unitinfo of None \<Rightarrow> Returned (KERN_TERMINATED, F)
      | Some a \<Rightarrow>
          (case kc_loop k abi a mem data_len fuel 0 0 F of
             Returned F' \<Rightarrow> Returned (KERN_SUCCESS, F') | Fault \<Rightarrow> Fault | OutOfFuel \<Rightarrow> OutOfFuel))"

text \<open>\<open>KcSetSocketOption\<close> and \<open>KcGetSocketOption\<close> do nothing.\<close>

definition KcSetSocketOption :: "Firewall \<Rightarrow> errno \<times> Firewall" where
  "KcSetSocketOption F = (KERN_SUCCESS, F)"

definition KcGetSocketOption :: "Firewall \<Rightarrow> errno \<times> Firewall" where
  "KcGetSocketOption F = (KERN_SUCCESS, F)"

section \<open>Facts about answers\<close>

lemma wired_other [simp]:
  "wired held (F\<lparr>rules := R\<rparr>) cs Q = wired held F cs Q"
  "wired held (F\<lparr>firewallUp := b\<rparr>) cs Q = wired held F cs Q"
  "wired held (countSubscribersAsaProviderOfRules_update f F) cs Q = wired held F cs Q"
  "wired held (countSubscribersForInfoRules_update f F) cs Q = wired held F cs Q"
  "wired held (countSubscribersForInfoSockets_update f F) cs Q = wired held F cs Q"
  by (simp_all add: wired_def)

lemma room_other [simp]: "mail F' = mail F \<Longrightarrow> room F' cs = room F cs"
  by (simp add: room_def)

text \<open>Changing the subscriptions of a client, its queue and its place on the list kept.\<close>

lemma wired_client:
  assumes w: "wired held F cs Q" and c: "client_heap F a = Some c"
    and d: "d = c\<lparr>registredMessageClases := v\<rparr>" "subscribed d MessageClassCommon"
  shows "wired held (F\<lparr>client_heap := (client_heap F)(a \<mapsto> d)\<rparr>) cs Q"
proof -
  have "a < clients_made F" using wiredD(3) [OF w c] .
  moreover have "queue_ok (nodes (mail F)) d as = queue_ok (nodes (mail F)) c as" for as by (simp add: d(1) queue_ok_def)
  moreover have "exitState d = exitState c" "c_next d = c_next c" by (simp_all add: d(1))
  ultimately show ?thesis
    using w c d(2) by (auto simp: wired_def clients_ok_def queues_ok_def below_def chain_upd_same)
qed

text \<open>\<open>client->Send\<close> for a client of the list.\<close>

lemma clients_ok_offer:
  assumes k: "atomics_documented k" and ok: "clients_ok held p H M cs Q" and m: "messages M m = Some x"
    and a: "a \<in> set cs" "H a = Some c" and small: "nodes_made M + 2 < 2 ^ 32"
  shows "\<exists>c' M' as'. Client_Send k (Some m) c M = Some (c', M') \<and> clients_ok held p (H(a \<mapsto> c')) M' cs (Q(a := as')) \<and>
    offered k m x c (posted (nodes M) (Q a)) (posted (nodes M') as') \<and>
    nodes_made M' \<le> Suc (nodes_made M) \<and> messages_made M' = messages_made M"
proof -
  from clients_okD(5) [OF ok a(1)] a(2) have q: "queue_ok (nodes M) c (Q a)" and c: "exitState c = 0" "subscribed c MessageClassCommon" by auto
  from offer_one [OF k clients_okD(1) [OF ok] m q small] obtain c' M' as' where
    s: "Client_Send k (Some m) c M = Some (c', M')" "mail_ok held M'" "queue_ok (nodes M') c' as'"
      "sans_queue c' = sans_queue c" "offered k m x c (posted (nodes M) (Q a)) (posted (nodes M') as')"
      "nodes_made M \<le> nodes_made M'" "nodes_made M' \<le> Suc (nodes_made M)" "messages_made M' = messages_made M"
      "\<forall>n. n \<notin> set (Q a) \<longrightarrow> nodes M n \<noteq> None \<longrightarrow> nodes M' n = nodes M n"
      "set as' \<subseteq> set (Q a) \<union> {nodes_made M..<nodes_made M'}" by blast
  have fields: "c_next c' = c_next c" "exitState c' = exitState c" "registredMessageClases c' = registredMessageClases c"
    using s(4) by (metis sans_queue_fields)+
  have cell: "\<exists>d. H b = Some d \<and> queue_ok (nodes M) d (Q b) \<and> exitState d = 0 \<and> subscribed d MessageClassCommon" if "b \<in> set cs" for b
    using clients_okD(5) [OF ok that] .
  have disj: "set (Q b) \<inter> set (Q d) = {}" if "b \<in> set cs" "d \<in> set cs" "b \<noteq> d" for b d
    using clients_okD(3) [OF ok] that by (auto simp: queues_ok_def)
  have live: "nodes M n \<noteq> None" if "b \<in> set cs" "n \<in> set (Q b)" for b n
    using cell [OF that(1)] that(2) queue_ok_live by blast
  have same: "nodes M' n = nodes M n" if "b \<in> set cs" "b \<noteq> a" "n \<in> set (Q b)" for b n
    using s(9) live [OF that(1,3)] disj [OF that(1) a(1) that(2)] that(3) by blast
  have apart: "set as' \<inter> set (Q b) = {}" if "b \<in> set cs" "b \<noteq> a" for b
  proof -
    have "n < nodes_made M" if "n \<in> set (Q b)" for n
      using live_below [OF clients_okD(1) [OF ok] live [OF \<open>b \<in> set cs\<close> that]] .
    then show ?thesis using s(10) disj [OF that(1) a(1) that(2)] by fastforce
  qed
  have "clients_ok held p (H(a \<mapsto> c')) M' cs (Q(a := as'))"
    unfolding clients_ok_def queues_ok_def
  proof (intro conjI ballI allI impI)
    show "chain c_next (H(a \<mapsto> c')) p cs" using clients_okD(2) [OF ok] a(2) fields(1) by (simp add: chain_upd_same)
    show "\<exists>d. (H(a \<mapsto> c')) b = Some d \<and> queue_ok (nodes M') d ((Q(a := as')) b)" if b: "b \<in> set cs" for b
    proof (cases "b = a")
      case False
      with cell [OF b] queue_ok_nodes_cong [of "Q b" "nodes M'" "nodes M"] same [OF b] show ?thesis by auto
    qed (use s(3) in simp)
    show "set ((Q(a := as')) b) \<inter> set ((Q(a := as')) d) = {}" if "b \<in> set cs" "d \<in> set cs" "b \<noteq> d" for b d
      using that disj apart by (auto simp: Int_commute)
    show "exitState d = 0" "subscribed d MessageClassCommon" if "b \<in> set cs" "(H(a \<mapsto> c')) b = Some d" for b d
      using that cell [OF that(1)] c fields by (auto simp: subscribed_def split: if_splits)
  qed (rule s(2))
  with s(1,5,7,8) show ?thesis by blast
qed

lemma client_Send_ok:
  assumes k: "atomics_documented k" and w: "wired held F cs Q" and m: "messages (mail F) m = Some x"
    and a: "a \<in> set cs" and r: "room F cs"
  shows "\<exists>H M Q'. client_Send k a (Some m) F = Some (with_inbox H M F) \<and> wired held (with_inbox H M F) cs Q' \<and>
    nodes_made M \<le> Suc (nodes_made (mail F))"
proof -
  from wiredD(7) [OF w a] obtain c where c: "client_heap F a = Some c" by blast
  from a r have small: "nodes_made (mail F) + 2 < 2 ^ 32" by (cases cs) (auto simp: room_def)
  from clients_ok_offer [OF k wiredD(2) [OF w] m a c small] obtain c' M' as' where
    s: "Client_Send k (Some m) c (mail F) = Some (c', M')" "clients_ok held (clients F) ((client_heap F)(a \<mapsto> c')) M' cs (Q(a := as'))"
      "nodes_made M' \<le> Suc (nodes_made (mail F))" by blast
  have "below (clients_made F) ((client_heap F)(a \<mapsto> c'))"
    using w wiredD(3) [OF w c] by (auto simp: wired_def intro: below_upd)
  with w s have "wired held (with_inbox ((client_heap F)(a \<mapsto> c')) M' F) cs (Q(a := as'))" by (simp add: wired_def)
  moreover have "client_Send k a (Some m) F = Some (with_inbox ((client_heap F)(a \<mapsto> c')) M' F)"
    using c s(1) by (simp add: client_Send_def with_inbox_def)
  ultimately show ?thesis using s(3) by blast
qed

text \<open>The answer's header is never touched by the store to \<open>actionState\<close>.\<close>

lemma response_fields:
  "field abi RawMessageClientActionResponse F_actionState = Some (12, CU32)"
  "sizeof abi RawMessageClientActionResponse = 16"
  by (cases abi; simp add: struct_defs layout_eval)+

lemma put_actionState:
  assumes "16 \<le> length (raw x)" and "sendable x"
  shows "\<exists>r. put_field abi RawMessageClientActionResponse F_actionState v (raw x) = Some r \<and> sendable (x\<lparr>raw := r\<rparr>) \<and> length r = length (raw x)"
proof -
  have "F_actionState \<in> fst ` set RawMessageClientActionResponse" by (simp add: struct_defs)
  with assms(1) obtain r where r: "put_field abi RawMessageClientActionResponse F_actionState v (raw x) = Some r" "length r = length (raw x)"
    using put_field_defined [of F_actionState RawMessageClientActionResponse abi "raw x" v] response_fields(2) [of abi] by auto
  have "RawMessageClientActionResponse = RawMessageBase @ [(F_unitId, CU32), (F_clientMessageId, CU32), (F_actionState, CU32)]"
    by (simp add: struct_defs)
  then obtain R where S: "RawMessageClientActionResponse = RawMessageBase @ R" by blast
  have "raw_size (x\<lparr>raw := r\<rparr>) = raw_size x" "raw_type (x\<lparr>raw := r\<rparr>) = raw_type x"
    using get_put_other [OF r(1), of F_size] get_put_other [OF r(1), of F_type] by (simp_all add: raw_header [of _ abi R] S)
  with r assms(2) show ?thesis by (simp add: sendable_def)
qed

lemma wired_raw:
  assumes w: "wired held F cs Q" and m: "messages (mail F) m = Some x" and y: "references y = references x" "sendable y"
  shows "wired held (F\<lparr>mail := (mail F)\<lparr>messages := (messages (mail F))(m \<mapsto> y)\<rparr>\<rparr>) cs Q"
proof -
  note ok = wiredD(5) [OF w]
  let ?M = "(mail F)\<lparr>messages := (messages (mail F))(m \<mapsto> y)\<rparr>"
  have "mail_ok held ?M"
  proof (rule mail_okI)
    have "m < messages_made (mail F)" using mail_okD(2) [OF ok] m by (simp add: below_def)
    then show "below (messages_made ?M) (messages ?M)"
      using below_upd [OF mail_okD(2) [OF ok]] by simp
    show "messages ?M b \<noteq> None" if "b \<in> held" for b
      using mail_okD(3) [OF ok that] by simp
    show "\<exists>b. n_message z = Some b \<and> messages ?M b \<noteq> None" if "nodes ?M n = Some z" for n z
      using mail_okD(4) [OF ok, of n z] that by auto
    show "sendable z \<and> references z = of_nat (counted held (nodes ?M) b) \<and>
        0 < counted held (nodes ?M) b \<and> counted held (nodes ?M) b < 2 ^ 32"
      if "messages ?M b = Some z" for b z
      using that mail_okD(5) [OF ok, of b z] mail_okD(5) [OF ok m] y by (cases "b = m") auto
  qed (use mail_okD(1) [OF ok] in simp)
  then have "clients_ok held (clients F) (client_heap F) ((mail F)\<lparr>messages := (messages (mail F))(m \<mapsto> y)\<rparr>) cs Q"
    by (rule clients_ok_mail [OF wiredD(2) [OF w]]) simp
  with w show ?thesis by (simp add: wired_def)
qed

lemma set_actionState_ok:
  assumes w: "wired held F cs Q" and m: "messages (mail F) m = Some x" and l: "16 \<le> length (raw x)"
  shows "\<exists>M y. set_actionState abi v (Some m) F = Some (with_inbox (client_heap F) M F) \<and>
    wired held (with_inbox (client_heap F) M F) cs Q \<and> messages M m = Some y \<and> 16 \<le> length (raw y) \<and>
    nodes_made M = nodes_made (mail F) \<and> messages_made M = messages_made (mail F)"
proof -
  from mail_okD(5) [OF wiredD(5) [OF w] m] have "sendable x" by blast
  from put_actionState [OF l this, of abi "unat v"] obtain r where
    r: "put_field abi RawMessageClientActionResponse F_actionState (unat v) (raw x) = Some r" "sendable (x\<lparr>raw := r\<rparr>)" "length r = length (raw x)"
    by blast
  from wired_raw [OF w m, of "x\<lparr>raw := r\<rparr>"] r m l show ?thesis
    by (auto simp: set_actionState_def with_inbox_def)
qed

lemma answer_ok:
  assumes k: "atomics_documented k" and w: "wired held F cs Q" and m: "messages (mail F) m = Some x" "16 \<le> length (raw x)"
    and a: "a \<in> set cs" and r: "room F cs"
  shows "\<exists>H M Q'. answer k abi a v (Some m) F = Some (with_inbox H M F) \<and> wired held (with_inbox H M F) cs Q' \<and>
    nodes_made M \<le> nodes_made (mail F) + length cs"
proof -
  from set_actionState_ok [OF w m, of abi v] obtain M y where
    s: "set_actionState abi v (Some m) F = Some (with_inbox (client_heap F) M F)"
      "wired held (with_inbox (client_heap F) M F) cs Q" "messages M m = Some y" "nodes_made M = nodes_made (mail F)" by blast
  have "room (with_inbox (client_heap F) M F) cs" using r s(4) by (simp add: room_def)
  from client_Send_ok [OF k s(2) _ a this, of m y] s(3) obtain H' M' Q' where
    "client_Send k a (Some m) (with_inbox (client_heap F) M F) = Some (with_inbox H' M' F)"
    "wired held (with_inbox H' M' F) cs Q'" "nodes_made M' \<le> Suc (nodes_made M)" by auto
  moreover from a have "1 \<le> length cs" by (cases cs) auto
  ultimately show ?thesis using s(1,4) by (intro exI [of _ H'] exI [of _ M'] exI [of _ Q']) (simp add: answer_def)
qed

text \<open>
  The frame of every command. \<open>G\<close> is the state the command leaves apart from the clients and the mail;
  when there is no memory for the answer nothing happens at all.
\<close>

definition commanded :: "Firewall \<Rightarrow> Firewall \<Rightarrow> addr list \<Rightarrow> Firewall option \<Rightarrow> bool" where
  "commanded F G cs res \<longleftrightarrow> (\<exists>H M Q'. res = Some (with_inbox H M G) \<and> wired {} (with_inbox H M G) cs Q' \<and>
     nodes_made M \<le> nodes_made (mail F) + length cs)"

lemma commanded_none: "wired {} F cs Q \<Longrightarrow> commanded F F cs (Some F)"
  unfolding commanded_def
  by (intro exI [of _ "client_heap F"] exI [of _ "mail F"] exI [of _ Q]) simp

lemma with_response_ok:
  assumes k: "atomics_documented k" and w: "wired {} F cs Q" and cr: "created k abi (next_message F) ty made"
    and body: "\<And>x. made = Some (Some x) \<Longrightarrow> wired {next_message F} (F\<lparr>mail := store_message x (mail F)\<rparr>) cs Q \<Longrightarrow>
      \<exists>H M Q1. body (Some (next_message F)) (F\<lparr>mail := store_message x (mail F)\<rparr>) = Some (with_inbox H M G) \<and>
        wired {next_message F} (with_inbox H M G) cs Q1 \<and> nodes_made M \<le> nodes_made (mail F) + length cs"
  shows "made = Some None \<and> with_response k made body F = Some F \<or> commanded F G cs (with_response k made body F)"
proof (cases "grants k NewMessage (next_message F)")
  case False
  from created_null [OF cr False] show ?thesis by (simp add: with_response_def)
next
  case True
  from created_message [OF cr True] obtain x where x: "made = Some (Some x)" "message_ok (server_code ty) x" by blast
  from body [OF x(1) store_ok [OF w x(2)]] obtain H M Q1 where
    b: "body (Some (next_message F)) (F\<lparr>mail := store_message x (mail F)\<rparr>) = Some (with_inbox H M G)"
      "wired {next_message F} (with_inbox H M G) cs Q1" "nodes_made M \<le> nodes_made (mail F) + length cs" by auto
  from release_ok [OF k b(2), of "next_message F"] obtain M' where
    r: "release_message k (Some (next_message F)) M = Some M'" "wired {} ((with_inbox H M G)\<lparr>mail := M'\<rparr>) cs Q1"
      "nodes_made M' = nodes_made M" by auto
  have "(with_inbox H M G)\<lparr>mail := M'\<rparr> = with_inbox H M' G" by (simp add: with_inbox_def)
  with b r x(1) show ?thesis
    unfolding commanded_def
    by (intro disjI2 exI [of _ H] exI [of _ M'] exI [of _ Q1]) (simp add: with_response_def)
qed

lemma response_length:
  assumes "new_message k n cap (put_fields abi S fvs) = Some (Some x)"
  shows "length (raw x) = cap"
  using assms put_fields_length [of abi S fvs] by (fastforce simp: new_message_def split: if_splits)

lemma response_sizes:
  "sizeof abi RawMessageRuleAdded = 20" "sizeof abi RawMessageRuleDeleted = 20" "sizeof abi RawMessageRuleActivated = 20"
  "sizeof abi RawMessageRuleDeactivated = 20" "sizeof abi RawMessageFirewallActivated = 16"
  "sizeof abi RawMessageFirewallDeactivated = 16"
  "sizeof abi RawMessageClientSubscribedAsaProviderOfRules = 16" "sizeof abi RawMessageClientUnsubscribedAsaProviderOfRules = 16"
  "sizeof abi RawMessageClientSubscribedToInfoRules = 16" "sizeof abi RawMessageClientUnsubscribedFromInfoRules = 16"
  "sizeof abi RawMessageClientSubscribedToInfoSockets = 16" "sizeof abi RawMessageClientUnsubscribedFromInfoSockets = 16"
  by (cases abi; simp add: struct_defs layout_eval)+

lemma response_long:
  "CreateRuleAdded k abi n u i s r = Some (Some x) \<Longrightarrow> 16 \<le> length (raw x)"
  "CreateRuleDeleted k abi n u i s r = Some (Some x) \<Longrightarrow> 16 \<le> length (raw x)"
  "CreateRuleActivated k abi n u i s r = Some (Some x) \<Longrightarrow> 16 \<le> length (raw x)"
  "CreateRuleDeactivated k abi n u i s r = Some (Some x) \<Longrightarrow> 16 \<le> length (raw x)"
  "CreateFirewallActivated k abi n u i s = Some (Some x) \<Longrightarrow> 16 \<le> length (raw x)"
  "CreateFirewallDeactivated k abi n u i s = Some (Some x) \<Longrightarrow> 16 \<le> length (raw x)"
  "CreateClientSubscribedAsaProviderOfRules k abi n u i s = Some (Some x) \<Longrightarrow> 16 \<le> length (raw x)"
  "CreateClientUnsubscribedAsaProviderOfRules k abi n u i s = Some (Some x) \<Longrightarrow> 16 \<le> length (raw x)"
  "CreateClientSubscribedToInfoRules k abi n u i s = Some (Some x) \<Longrightarrow> 16 \<le> length (raw x)"
  "CreateClientUnsubscribedFromInfoRules k abi n u i s = Some (Some x) \<Longrightarrow> 16 \<le> length (raw x)"
  "CreateClientSubscribedToInfoSockets k abi n u i s = Some (Some x) \<Longrightarrow> 16 \<le> length (raw x)"
  "CreateClientUnsubscribedFromInfoSockets k abi n u i s = Some (Some x) \<Longrightarrow> 16 \<le> length (raw x)"
  unfolding create_defs simple_init_defs by (drule response_length, simp add: response_sizes)+

text \<open>The two ways to end a command, for the stored answer.\<close>

lemma stored_answer:
  "messages (mail (F\<lparr>mail := store_message x (mail F)\<rparr>)) (next_message F) = Some x"
  by (simp add: store_message_def)

lemma store_made [simp]:
  "nodes_made (store_message x M) = nodes_made M" "nodes (store_message x M) = nodes M"
  by (simp_all add: store_message_def)

lemma send_all_ok:
  assumes k: "atomics_documented k" and w: "wired held F cs Q" and m: "messages (mail F) m = Some x" and r: "room F cs"
  shows "\<exists>H M Q'. Firewall_Send k (Some m) F = Some (with_inbox H M F) \<and> wired held (with_inbox H M F) cs Q' \<and>
    nodes_made M \<le> nodes_made (mail F) + length cs"
  using Firewall_Send_ok [OF k w m r] unfolding broadcast_done_def by blast

lemma with_inbox_mail: "with_inbox H M (G\<lparr>mail := M'\<rparr>) = with_inbox H M G"
  by (simp add: with_inbox_def)

section \<open>Facts about the commands\<close>

definition owned :: "Rules \<Rightarrow> addr list \<Rightarrow> bool" where
  "owned R rs \<longleftrightarrow> (\<forall>b\<in>set rs. map_option references (rules_heap R b) = Some 1)"

text \<open>The ways a command ends, in the state \<open>G\<close> with the answer \<open>x\<close> stored as the object \<open>m\<close>.\<close>

definition ends_well :: "Firewall \<Rightarrow> addr list \<Rightarrow> addr \<Rightarrow> Firewall option \<Rightarrow> bool" where
  "ends_well G cs m res \<longleftrightarrow> (\<exists>H M Q1. res = Some (with_inbox H M G) \<and> wired {m} (with_inbox H M G) cs Q1 \<and>
     nodes_made M \<le> nodes_made (mail G) + length cs)"

lemma ends_well_inbox: "ends_well (with_inbox H M G) cs m res \<Longrightarrow> nodes_made M = nodes_made (mail G) \<Longrightarrow> ends_well G cs m res"
  unfolding ends_well_def by fastforce

lemma ends:
  assumes k: "atomics_documented k" and w: "wired {m} G cs Q" and x: "messages (mail G) m = Some x" "16 \<le> length (raw x)"
    and a: "a \<in> set cs" and r: "room G cs"
  shows ends_nothing: "ends_well G cs m (Some G)"
    and ends_all: "ends_well G cs m (Firewall_Send k (Some m) G)"
    and ends_answer: "ends_well G cs m (answer k abi a v (Some m) G)"
    and ends_client: "ends_well G cs m (client_Send k a (Some m) G)"
    and ends_set_all: "ends_well G cs m (Option.bind (set_actionState abi v (Some m) G) (Firewall_Send k (Some m)))"
proof -
  show "ends_well G cs m (Some G)" unfolding ends_well_def using w
    by (intro exI [of _ "client_heap G"] exI [of _ "mail G"] exI [of _ Q]) simp
  show all: "ends_well G cs m (Firewall_Send k (Some m) G)"
    using send_all_ok [OF k w x(1) r] by (auto simp: ends_well_def)
  show "ends_well G cs m (answer k abi a v (Some m) G)"
    using answer_ok [OF k w x a r, of abi v] by (auto simp: ends_well_def)
  have "1 \<le> length cs" using a by (cases cs) auto
  then show "ends_well G cs m (client_Send k a (Some m) G)"
    using client_Send_ok [OF k w x(1) a r] by (fastforce simp: ends_well_def)
  from set_actionState_ok [OF w x, of abi v] obtain M y where
    s: "set_actionState abi v (Some m) G = Some (with_inbox (client_heap G) M G)"
      "wired {m} (with_inbox (client_heap G) M G) cs Q" "messages M m = Some y" "nodes_made M = nodes_made (mail G)" by blast
  have "room (with_inbox (client_heap G) M G) cs" using r s(4) by (simp add: room_def)
  from send_all_ok [OF k s(2) _ this, of m y] s(3) obtain H' M' Q' where
    "Firewall_Send k (Some m) (with_inbox (client_heap G) M G) = Some (with_inbox H' M' G)" "wired {m} (with_inbox H' M' G) cs Q'"
    "nodes_made M' \<le> nodes_made M + length cs" by auto
  then show "ends_well G cs m (Option.bind (set_actionState abi v (Some m) G) (Firewall_Send k (Some m)))"
    using s(1,4) unfolding ends_well_def by auto
qed

lemma with_inbox_push:
  "(with_inbox H M F)\<lparr>rules := R\<rparr> = with_inbox H M (F\<lparr>rules := R\<rparr>)"
  "(with_inbox H M F)\<lparr>firewallUp := b\<rparr> = with_inbox H M (F\<lparr>firewallUp := b\<rparr>)"
  "(with_inbox H M F)\<lparr>client_heap := H'\<rparr> = with_inbox H' M F"
  "countSubscribersAsaProviderOfRules_update f (with_inbox H M F) = with_inbox H M (countSubscribersAsaProviderOfRules_update f F)"
  "countSubscribersForInfoRules_update f (with_inbox H M F) = with_inbox H M (countSubscribersForInfoRules_update f F)"
  "countSubscribersForInfoSockets_update f (with_inbox H M F) = with_inbox H M (countSubscribersForInfoSockets_update f F)"
  by (simp_all add: with_inbox_def)

lemma wired_push [simp]:
  "wired held (with_inbox H M (F\<lparr>rules := R\<rparr>)) cs Q = wired held (with_inbox H M F) cs Q"
  "wired held (with_inbox H M (F\<lparr>firewallUp := b\<rparr>)) cs Q = wired held (with_inbox H M F) cs Q"
  "wired held (with_inbox H M (countSubscribersAsaProviderOfRules_update f F)) cs Q = wired held (with_inbox H M F) cs Q"
  "wired held (with_inbox H M (countSubscribersForInfoRules_update f F)) cs Q = wired held (with_inbox H M F) cs Q"
  "wired held (with_inbox H M (countSubscribersForInfoSockets_update f F)) cs Q = wired held (with_inbox H M F) cs Q"
  by (simp_all add: wired_def)

lemma mail_inbox: "F\<lparr>mail := M\<rparr> = with_inbox (client_heap F) M F"
  by (simp add: with_inbox_def)

text \<open>The state in which the body of a command runs: the answer is stored and held.\<close>

definition awaiting :: "Firewall \<Rightarrow> addr list \<Rightarrow> (addr \<Rightarrow> addr list) \<Rightarrow> Message \<Rightarrow> Mail \<Rightarrow> bool" where
  "awaiting F cs Q x M \<longleftrightarrow> wired {next_message F} (with_inbox (client_heap F) M F) cs Q \<and>
     nodes_made M + length cs + 1 < 2 ^ 32 \<and> messages M (next_message F) = Some x \<and> 16 \<le> length (raw x)"

lemma awaiting_ends:
  assumes k: "atomics_documented k" and x: "awaiting F cs Q x M" and a: "a \<in> set cs"
    and G: "wired {next_message F} (with_inbox H M G) cs Q"
  shows "ends_well (with_inbox H M G) cs (next_message F) (Some (with_inbox H M G))"
    and "ends_well (with_inbox H M G) cs (next_message F) (Firewall_Send k (Some (next_message F)) (with_inbox H M G))"
    and "ends_well (with_inbox H M G) cs (next_message F) (answer k abi a v (Some (next_message F)) (with_inbox H M G))"
    and "ends_well (with_inbox H M G) cs (next_message F) (client_Send k a (Some (next_message F)) (with_inbox H M G))"
    and "ends_well (with_inbox H M G) cs (next_message F)
      (Option.bind (set_actionState abi v (Some (next_message F)) (with_inbox H M G)) (Firewall_Send k (Some (next_message F))))"
  using ends [OF k G _ _ a, of x] x by (simp_all add: awaiting_def room_def)

lemma response_body:
  assumes k: "atomics_documented k" and w: "wired {} F cs Q" and r: "room F cs" and cr: "created k abi (next_message F) ty made"
    and long: "\<And>x. made = Some (Some x) \<Longrightarrow> 16 \<le> length (raw x)"
    and body: "\<And>x M. awaiting F cs Q x M \<Longrightarrow>
      \<exists>H. ends_well (with_inbox H M G) cs (next_message F) (body (Some (next_message F)) (with_inbox (client_heap F) M F))"
  shows "with_response k made body F = Some F \<or> commanded F G cs (with_response k made body F)"
proof -
  have "made = Some None \<and> with_response k made body F = Some F \<or> commanded F G cs (with_response k made body F)"
  proof (rule with_response_ok [OF k w cr])
    fix x assume x: "made = Some (Some x)" "wired {next_message F} (F\<lparr>mail := store_message x (mail F)\<rparr>) cs Q"
    from x r long [OF x(1)] have "awaiting F cs Q x (store_message x (mail F))"
      by (simp add: awaiting_def room_def mail_inbox) (simp add: store_message_def)
    from body [OF this] show "\<exists>H M Q1. body (Some (next_message F)) (F\<lparr>mail := store_message x (mail F)\<rparr>) = Some (with_inbox H M G) \<and>
          wired {next_message F} (with_inbox H M G) cs Q1 \<and> nodes_made M \<le> nodes_made (mail F) + length cs"
      unfolding ends_well_def mail_inbox by fastforce
  qed
  then show ?thesis by blast
qed

lemma kc_DeleteRule_ok:
  assumes k: "atomics_documented k" and w: "wired {} F cs Q" and r: "room F cs" and a: "a \<in> set cs"
    and u: "client_unit a F = Some u" and i: "field32 abi RawMessageClientAction F_messageId m = Some i"
    and d: "field32 abi RawMessageDeleteRule F_ruleId m = Some ident"
    and del: "DeleteRule k ident (rules F) = Some (res, R)"
  shows "kc_DeleteRule k abi a m F = Some F \<or> commanded F (F\<lparr>rules := R\<rparr>) cs (kc_DeleteRule k abi a m F)"
  unfolding kc_DeleteRule_def u i d bind.bind_lunit
proof (rule response_body [OF k w r created.RuleDeleted response_long(2)])
  fix x M assume x: "awaiting F cs Q x M"
  then have "wired {next_message F} (with_inbox (client_heap F) M (F\<lparr>rules := R\<rparr>)) cs Q" by (simp add: awaiting_def)
  note E = awaiting_ends [OF k x a this]
  show "\<exists>H. ends_well (with_inbox H M (F\<lparr>rules := R\<rparr>)) cs (next_message F)
        (do { (res, R) \<leftarrow> DeleteRule k ident (rules (with_inbox (client_heap F) M F));
              let F1 = (with_inbox (client_heap F) M F)\<lparr>rules := R\<rparr>;
              if res = 0 then Firewall_Send k (Some (next_message F)) F1
              else if res = 1 then answer k abi a (-1) (Some (next_message F)) F1 else Some F1 })"
    using E del by (intro exI [of _ "client_heap F"]) (simp add: with_inbox_push Let_def)
qed

lemma kc_ActivateRule_ok:
  assumes k: "atomics_documented k" and w: "wired {} F cs Q" and r: "room F cs" and a: "a \<in> set cs"
    and u: "client_unit a F = Some u" and i: "field32 abi RawMessageClientAction F_messageId m = Some i"
    and d: "field32 abi RawMessageActivateRule F_ruleId m = Some ident"
    and act: "ActivateRule k ident (rules F) = Some (res, R)"
  shows "kc_ActivateRule k abi a m F = Some F \<or> commanded F (F\<lparr>rules := R\<rparr>) cs (kc_ActivateRule k abi a m F)"
  unfolding kc_ActivateRule_def u i d bind.bind_lunit
proof (rule response_body [OF k w r created.RuleActivated response_long(3)])
  fix x M assume x: "awaiting F cs Q x M"
  then have "wired {next_message F} (with_inbox (client_heap F) M (F\<lparr>rules := R\<rparr>)) cs Q" by (simp add: awaiting_def)
  note E = awaiting_ends [OF k x a this]
  show "\<exists>H. ends_well (with_inbox H M (F\<lparr>rules := R\<rparr>)) cs (next_message F)
        (do { (res, R) \<leftarrow> ActivateRule k ident (rules (with_inbox (client_heap F) M F));
              let F1 = (with_inbox (client_heap F) M F)\<lparr>rules := R\<rparr>;
              if res = -1 then answer k abi a (-1) (Some (next_message F)) F1
              else if res = 0 then Option.bind (set_actionState abi 0 (Some (next_message F)) F1) (Firewall_Send k (Some (next_message F)))
              else if res = 1 then answer k abi a 1 (Some (next_message F)) F1 else Some F1 })"
    using E act by (intro exI [of _ "client_heap F"]) (simp add: with_inbox_push Let_def)
qed

lemma kc_DeactivateRule_ok:
  assumes k: "atomics_documented k" and w: "wired {} F cs Q" and r: "room F cs" and a: "a \<in> set cs"
    and u: "client_unit a F = Some u" and i: "field32 abi RawMessageClientAction F_messageId m = Some i"
    and d: "field32 abi RawMessageDeactivateRule F_ruleId m = Some ident"
    and act: "DeactivateRule k ident (rules F) = Some (res, R)"
  shows "kc_DeactivateRule k abi a m F = Some F \<or> commanded F (F\<lparr>rules := R\<rparr>) cs (kc_DeactivateRule k abi a m F)"
  unfolding kc_DeactivateRule_def u i d bind.bind_lunit
proof (rule response_body [OF k w r created.RuleDeactivated response_long(4)])
  fix x M assume x: "awaiting F cs Q x M"
  then have "wired {next_message F} (with_inbox (client_heap F) M (F\<lparr>rules := R\<rparr>)) cs Q" by (simp add: awaiting_def)
  note E = awaiting_ends [OF k x a this]
  show "\<exists>H. ends_well (with_inbox H M (F\<lparr>rules := R\<rparr>)) cs (next_message F)
        (do { (res, R) \<leftarrow> DeactivateRule k ident (rules (with_inbox (client_heap F) M F));
              let F1 = (with_inbox (client_heap F) M F)\<lparr>rules := R\<rparr>;
              if res = -1 then answer k abi a (-1) (Some (next_message F)) F1
              else if res = 0 then Option.bind (set_actionState abi 0 (Some (next_message F)) F1) (Firewall_Send k (Some (next_message F)))
              else if res = 1 then answer k abi a 1 (Some (next_message F)) F1 else Some F1 })"
    using E act by (intro exI [of _ "client_heap F"]) (simp add: with_inbox_push Let_def)
qed

lemma kc_ActivateFirewall_ok:
  assumes k: "atomics_documented k" and w: "wired {} F cs Q" and r: "room F cs" and a: "a \<in> set cs"
    and u: "client_unit a F = Some u" and i: "field32 abi RawMessageClientAction F_messageId m = Some i"
  shows "kc_ActivateFirewall k abi a m F = Some F \<or> commanded F (F\<lparr>firewallUp := True\<rparr>) cs (kc_ActivateFirewall k abi a m F)"
  unfolding kc_ActivateFirewall_def u i bind.bind_lunit
proof (rule response_body [OF k w r created.FirewallActivated response_long(5)])
  fix x M assume x: "awaiting F cs Q x M"
  then have wG: "wired {next_message F} (with_inbox (client_heap F) M (F\<lparr>firewallUp := True\<rparr>)) cs Q" by (simp add: awaiting_def)
  have same: "F\<lparr>firewallUp := True\<rparr> = F" if "firewallUp F = True" using that by simp
  show "\<exists>H. ends_well (with_inbox H M (F\<lparr>firewallUp := True\<rparr>)) cs (next_message F)
        (if \<not> firewallUp (with_inbox (client_heap F) M F)
         then Firewall_Send k (Some (next_message F)) ((with_inbox (client_heap F) M F)\<lparr>firewallUp := True\<rparr>)
         else answer k abi a 1 (Some (next_message F)) (with_inbox (client_heap F) M F))"
  proof (cases "firewallUp F = True")
    case True
    show ?thesis unfolding same [OF True] using awaiting_ends(3) [OF k x a wG [unfolded same [OF True]]] True
      by (intro exI [of _ "client_heap F"]) simp
  next
    case False
    with awaiting_ends(2) [OF k x a wG] show ?thesis
      by (intro exI [of _ "client_heap F"]) (simp add: with_inbox_push)
  qed
qed

lemma kc_DeactivateFirewall_ok:
  assumes k: "atomics_documented k" and w: "wired {} F cs Q" and r: "room F cs" and a: "a \<in> set cs"
    and u: "client_unit a F = Some u" and i: "field32 abi RawMessageClientAction F_messageId m = Some i"
  shows "kc_DeactivateFirewall k abi a m F = Some F \<or> commanded F (F\<lparr>firewallUp := False\<rparr>) cs (kc_DeactivateFirewall k abi a m F)"
  unfolding kc_DeactivateFirewall_def u i bind.bind_lunit
proof (rule response_body [OF k w r created.FirewallDeactivated response_long(6)])
  fix x M assume x: "awaiting F cs Q x M"
  then have wG: "wired {next_message F} (with_inbox (client_heap F) M (F\<lparr>firewallUp := False\<rparr>)) cs Q" by (simp add: awaiting_def)
  have same: "F\<lparr>firewallUp := False\<rparr> = F" if "firewallUp F = False" using that by simp
  show "\<exists>H. ends_well (with_inbox H M (F\<lparr>firewallUp := False\<rparr>)) cs (next_message F)
        (if firewallUp (with_inbox (client_heap F) M F)
         then Firewall_Send k (Some (next_message F)) ((with_inbox (client_heap F) M F)\<lparr>firewallUp := False\<rparr>)
         else answer k abi a 1 (Some (next_message F)) (with_inbox (client_heap F) M F))"
  proof (cases "firewallUp F = False")
    case True
    show ?thesis unfolding same [OF True] using awaiting_ends(3) [OF k x a wG [unfolded same [OF True]]] True
      by (intro exI [of _ "client_heap F"]) simp
  next
    case False
    with awaiting_ends(2) [OF k x a wG] show ?thesis
      by (intro exI [of _ "client_heap F"]) (simp add: with_inbox_push)
  qed
qed

lemma ends_well_then:
  assumes "ends_well G cs m res" and "\<And>H M. f (with_inbox H M G) = Some (with_inbox H M G')"
    and "\<And>held H M Q. wired held (with_inbox H M G') cs Q = wired held (with_inbox H M G) cs Q" and "mail G' = mail G"
  shows "ends_well G' cs m (Option.bind res f)"
  using assms unfolding ends_well_def by fastforce

lemma kc_AddRule_ok:
  assumes k: "atomics_documented k" and w: "wired {} F cs Q" and r: "room F cs" and a: "a \<in> set cs"
    and u: "client_unit a F = Some u" and d: "field32 abi RawMessageAddRule F_id m = Some ident"
    and add: "AddRule k abi (Some m) (rules F) = Some (res, rule, R)"
    and rel: "(case rule of None \<Rightarrow> R' = R | Some c \<Rightarrow> \<exists>h. release_at k (Some c) (rules_heap R) = Some h \<and> R' = R\<lparr>rules_heap := h\<rparr>)"
  shows "kc_AddRule k abi a m F = Some F \<or> commanded F (F\<lparr>rules := R'\<rparr>) cs (kc_AddRule k abi a m F)"
  unfolding kc_AddRule_def u d bind.bind_lunit
proof (rule response_body [OF k w r created.RuleAdded response_long(1)])
  fix x M assume x: "awaiting F cs Q x M"
  then have wG: "wired {next_message F} (with_inbox (client_heap F) M (F\<lparr>rules := R\<rparr>)) cs Q" by (simp add: awaiting_def)
  let ?G = "with_inbox (client_heap F) M (F\<lparr>rules := R\<rparr>)"
  let ?tail = "if res = -1 then answer k abi a (-1) (Some (next_message F)) ?G
              else if res = 0 then Firewall_Send k (Some (next_message F)) ?G
              else if res = 1 then answer k abi a 1 (Some (next_message F)) ?G
              else Some ?G"
  let ?rest = "\<lambda>F2. case rule of None \<Rightarrow> Some F2
       | Some r \<Rightarrow> map_option (\<lambda>h. F2\<lparr>rules := (rules F2)\<lparr>rules_heap := h\<rparr>\<rparr>) (release_at k (Some r) (rules_heap (rules F2)))"
  have "ends_well ?G cs (next_message F) ?tail" using awaiting_ends [OF k x a wG] by simp
  then have "ends_well (with_inbox (client_heap F) M (F\<lparr>rules := R'\<rparr>)) cs (next_message F) (Option.bind ?tail ?rest)"
    by (rule ends_well_then) (use rel in \<open>auto simp: with_inbox_push split: option.splits\<close>)
  then show "\<exists>H. ends_well (with_inbox H M (F\<lparr>rules := R'\<rparr>)) cs (next_message F)
        (do { (res, rule, R) \<leftarrow> AddRule k abi (Some m) (rules (with_inbox (client_heap F) M F));
              let F1 = (with_inbox (client_heap F) M F)\<lparr>rules := R\<rparr>;
              F2 \<leftarrow> (if res = -1 then answer k abi a (-1) (Some (next_message F)) F1
                     else if res = 0 then Firewall_Send k (Some (next_message F)) F1
                     else if res = 1 then answer k abi a 1 (Some (next_message F)) F1
                     else Some F1);
              case rule of None \<Rightarrow> Some F2
              | Some r \<Rightarrow> map_option (\<lambda>h. F2\<lparr>rules := (rules F2)\<lparr>rules_heap := h\<rparr>\<rparr>) (release_at k (Some r) (rules_heap (rules F2))) })"
    using add by (intro exI [of _ "client_heap F"]) (simp add: with_inbox_push Let_def)
qed

text \<open>
  The counter fields the subscription commands update: they are part of the state that is neither
  clients nor mail.
\<close>

definition counter :: "((s32 \<Rightarrow> s32) \<Rightarrow> Firewall \<Rightarrow> Firewall) \<Rightarrow> bool" where
  "counter count \<longleftrightarrow> (\<forall>f H M F. count f (with_inbox H M F) = with_inbox H M (count f F)) \<and>
     (\<forall>f held H M F cs Q. wired held (with_inbox H M (count f F)) cs Q = wired held (with_inbox H M F) cs Q)"

lemma counters:
  "counter countSubscribersAsaProviderOfRules_update" "counter countSubscribersForInfoRules_update"
  "counter countSubscribersForInfoSockets_update"
  by (simp_all add: counter_def with_inbox_push)

lemma awaiting_client:
  assumes x: "awaiting F cs Q x M" and c: "client_heap F a = Some c"
    and d: "d = c\<lparr>registredMessageClases := v\<rparr>" "subscribed d MessageClassCommon"
  shows "wired {next_message F} (with_inbox ((client_heap F)(a \<mapsto> d)) M F) cs Q"
  using wired_client [of "{next_message F}" "with_inbox (client_heap F) M F" cs Q a c d v] x c d
  by (simp add: awaiting_def with_inbox_push)

lemma subscription_ends:
  assumes k: "atomics_documented k" and x: "awaiting F cs Q x M" and a: "a \<in> set cs" and n: "counter count"
    and w: "wired {next_message F} (with_inbox H M F) cs Q"
  shows "ends_well (with_inbox H M (if r then count f F else F)) cs (next_message F)
    (Option.bind (if r then Some (count f (with_inbox H M F)) else set_actionState abi 1 (Some (next_message F)) (with_inbox H M F))
      (client_Send k a (Some (next_message F))))"
proof (cases r)
  case True
  have "wired {next_message F} (with_inbox H M (count f F)) cs Q" using w n by (simp add: counter_def)
  from awaiting_ends(4) [OF k x a this] True n show ?thesis by (simp add: counter_def)
next
  case False
  with awaiting_ends(3) [OF k x a w, of abi 1] show ?thesis by (simp add: answer_def)
qed

lemma kc_subscribe_ok:
  assumes k: "atomics_documented k" and w: "wired {} F cs Q" and rm: "room F cs" and a: "a \<in> set cs" and c: "client_heap F a = Some c"
    and i: "field32 abi RawMessageClientAction F_messageId m = Some i" and n: "counter count"
    and cr: "created k abi (next_message F) ty (create (unit c) i 0)"
    and long: "\<And>x. create (unit c) i 0 = Some (Some x) \<Longrightarrow> 16 \<le> length (raw x)"
  shows "kc_subscribe k abi create cl count a m F = Some F \<or>
    commanded F (if subscribed c cl then count (\<lambda>v. v + 1) F else F) cs (kc_subscribe k abi create cl count a m F)"
proof -
  obtain r d where reg: "RegisterMessageClasses k (class_code cl) c = (r, d)" by fastforce
  have d: "d = c\<lparr>registredMessageClases := registredMessageClases d\<rparr>"
    using RegisterMessageClasses_eq [OF k, of "class_code cl" c] reg by auto
  have s: "r \<longleftrightarrow> subscribed c cl" "subscribed d MessageClassCommon"
    using subscribed_register [OF k, of cl c] wiredD(7) [OF w a] c reg by auto
  have u: "client_unit a F = Some (unit c)" using c by (simp add: client_unit_def)
  have inc: "(\<lambda>v. snd (OSIncrementAtomic k v)) = (\<lambda>v. v + 1)" using k by (simp add: fun_eq_iff)
  show ?thesis
    unfolding kc_subscribe_def u i bind.bind_lunit
  proof (rule response_body [OF k w rm cr long])
    fix x M assume x: "awaiting F cs Q x M"
    let ?H = "(client_heap F)(a \<mapsto> d)"
    note E = subscription_ends [OF k x a n awaiting_client [OF x c d s(2)], of r "\<lambda>v. v + 1" abi]
    show "\<exists>H. ends_well (with_inbox H M (if subscribed c cl then count (\<lambda>v. v + 1) F else F)) cs (next_message F)
       (do { c \<leftarrow> client_heap (with_inbox (client_heap F) M F) a;
             let (r, c') = RegisterMessageClasses k (class_code cl) c;
             let F1 = (with_inbox (client_heap F) M F)\<lparr>client_heap := (client_heap (with_inbox (client_heap F) M F))(a \<mapsto> c')\<rparr>;
             F2 \<leftarrow> (if r then Some (count (\<lambda>v. snd (OSIncrementAtomic k v)) F1) else set_actionState abi 1 (Some (next_message F)) F1);
             client_Send k a (Some (next_message F)) F2 })"
      using E unfolding inc s(1) [symmetric] by (intro exI [of _ ?H]) (cases r; simp add: c reg with_inbox_push)
  qed
qed

lemma kc_unsubscribe_ok:
  assumes k: "atomics_documented k" and w: "wired {} F cs Q" and rm: "room F cs" and a: "a \<in> set cs" and c: "client_heap F a = Some c"
    and i: "field32 abi RawMessageClientAction F_messageId m = Some i" and n: "counter count"
    and cr: "created k abi (next_message F) ty (create (unit c) i 0)"
    and long: "\<And>x. create (unit c) i 0 = Some (Some x) \<Longrightarrow> 16 \<le> length (raw x)"
    and other: "cl \<noteq> MessageClassCommon"
  shows "kc_unsubscribe k abi create cl count a m F = Some F \<or>
    commanded F (if \<not> subscribed c cl then count (\<lambda>v. v - 1) F else F) cs (kc_unsubscribe k abi create cl count a m F)"
proof -
  obtain r d where reg: "UnregisterMessageClasses k (class_code cl) c = (r, d)" by fastforce
  have d: "d = c\<lparr>registredMessageClases := registredMessageClases d\<rparr>"
    using UnregisterMessageClasses_eq [OF k, of "class_code cl" c] reg by auto
  have s: "r \<longleftrightarrow> \<not> subscribed c cl" "subscribed d MessageClassCommon"
    using subscribed_unregister [OF k, of cl c] wiredD(7) [OF w a] c reg other by auto
  have u: "client_unit a F = Some (unit c)" using c by (simp add: client_unit_def)
  have inc: "(\<lambda>v. snd (OSDecrementAtomic k v)) = (\<lambda>v. v - 1)" using k by (simp add: fun_eq_iff)
  show ?thesis
    unfolding kc_unsubscribe_def u i bind.bind_lunit
  proof (rule response_body [OF k w rm cr long])
    fix x M assume x: "awaiting F cs Q x M"
    let ?H = "(client_heap F)(a \<mapsto> d)"
    note E = subscription_ends [OF k x a n awaiting_client [OF x c d s(2)], of r "\<lambda>v. v - 1" abi]
    show "\<exists>H. ends_well (with_inbox H M (if \<not> subscribed c cl then count (\<lambda>v. v - 1) F else F)) cs (next_message F)
       (do { c \<leftarrow> client_heap (with_inbox (client_heap F) M F) a;
             let (r, c') = UnregisterMessageClasses k (class_code cl) c;
             let F1 = (with_inbox (client_heap F) M F)\<lparr>client_heap := (client_heap (with_inbox (client_heap F) M F))(a \<mapsto> c')\<rparr>;
             F2 \<leftarrow> (if r then Some (count (\<lambda>v. snd (OSDecrementAtomic k v)) F1) else set_actionState abi 1 (Some (next_message F)) F1);
             client_Send k a (Some (next_message F)) F2 })"
      using E unfolding inc s(1) [symmetric] by (intro exI [of _ ?H]) (cases r; simp add: c reg with_inbox_push)
  qed
qed

section \<open>Every well-formed command succeeds and keeps the invariant\<close>

lemma ActivateRule_references:
  "ActivateRule k i R = Some (res, R') \<Longrightarrow> map_option references (rules_heap R' b) = map_option references (rules_heap R b)"
  by (auto simp: ActivateRule_def locked_def touch_def split: option.splits bind_splits if_splits)

text \<open>\<open>AddRule\<close> and the release of the rule it hands out: the chain keeps its one reference per rule.\<close>

lemma AddRule_release:
  assumes k: "atomics_documented k" and wf: "rules_wf R rs" and own: "owned R rs" and m: "readable k abi (Some m)"
  shows "\<exists>res rule R' R'' rs'. AddRule k abi (Some m) R = Some (res, rule, R') \<and>
    (case rule of None \<Rightarrow> R'' = R' | Some c \<Rightarrow> \<exists>h. release_at k (Some c) (rules_heap R') = Some h \<and> R'' = R'\<lparr>rules_heap := h\<rparr>) \<and>
    rules_wf R'' rs' \<and> owned R'' rs'"
proof (cases "grants k NewRule (rules_made R) \<and> Rule_Init k abi (rules_made R) (Some m) \<noteq> Some None")
  case False
  with AddRule_fails [of k R abi "Some m" rs] obtain R' where
    "AddRule k abi (Some m) R = Some (-1, None, R')" "rules_wf R' rs" "rules_heap R' = rules_heap R" using wf by blast
  with own show ?thesis by (intro exI [of _ "-1"] exI [of _ None] exI [of _ R'] exI [of _ rs]) (simp add: owned_def)
next
  case True
  moreover from m have "Rule_Init k abi (rules_made R) (Some m) \<noteq> None" by (simp add: readable_def)
  ultimately obtain r where "grants k NewRule (rules_made R)" "Rule_Init k abi (rules_made R) (Some m) = Some (Some r)" by auto
  from AddRule_step [OF k wf this] obtain res a R' rs' where
    s: "AddRule k abi (Some m) R = Some (res, Some a, R')" "added r R rs res a R' rs'" by blast
  then have wf': "rules_wf R' rs'" and res: "res = 0 \<or> res = 1" and sub: "set rs' \<subseteq> insert a (set rs)"
    and others: "\<And>b. b \<noteq> a \<Longrightarrow> map_option references (rules_heap R' b) = map_option references (rules_heap R b)"
    by (auto simp: added_def split: if_splits)
  have "\<exists>x. rules_heap R' a = Some x \<and> references x = 2"
    using s(2) res own by (auto simp: added_def owned_def)
  then obtain x where x: "rules_heap R' a = Some x" "references x = 2" by blast
  let ?y = "x\<lparr>references := 1\<rparr>"
  let ?R = "R'\<lparr>rules_heap := (rules_heap R')(a \<mapsto> ?y)\<rparr>"
  have "release_at k (Some a) (rules_heap R') = Some ((rules_heap R')(a \<mapsto> ?y))"
    using k x by (simp add: release_at_Some)
  moreover have "rules_wf ?R rs'"
    by (rule rules_wf_update [OF wf' x(1)]) (use wf' x(1) in \<open>auto simp: rules_wf_def\<close>)
  moreover have "owned ?R rs'"
    using own sub others by (auto simp: owned_def split: if_splits) fastforce
  ultimately show ?thesis using s(1)
    by (intro exI [of _ res] exI [of _ "Some a"] exI [of _ R'] exI [of _ ?R] exI [of _ rs']) simp
qed

definition client_struct :: "ClientMessagesType \<Rightarrow> struct" where
  "client_struct t = (case t of
       MessageTypeAddRule \<Rightarrow> RawMessageAddRule
     | MessageTypeDeleteRule \<Rightarrow> RawMessageDeleteRule
     | MessageTypeActivateRule \<Rightarrow> RawMessageActivateRule
     | MessageTypeDeactivateRule \<Rightarrow> RawMessageDeactivateRule
     | _ \<Rightarrow> RawMessageClientAction)"

text \<open>A message the loop can process: the struct of its type is there, and an addition's strings end.\<close>

definition command_ok :: "kernel \<Rightarrow> abi \<Rightarrow> u8 list \<Rightarrow> bool" where
  "command_ok k abi m \<longleftrightarrow> atomics_documented k \<and> (case rd_u16 m 2 of None \<Rightarrow> False | Some ty \<Rightarrow>
     (case client_type_of ty of None \<Rightarrow> True
      | Some t \<Rightarrow> sizeof abi (client_struct t) \<le> length m \<and> (t = MessageTypeAddRule \<longrightarrow> readable k abi (Some m))))"

text \<open>The invariant between two commands; \<open>n\<close> commands may follow before the node counter is exhausted.\<close>

definition kc_inv :: "Firewall \<Rightarrow> addr list \<Rightarrow> nat \<Rightarrow> Firewall \<Rightarrow> bool" where
  "kc_inv F0 cs n F \<longleftrightarrow> (\<exists>rs Q. rules_wf (rules F) rs \<and> owned (rules F) rs \<and> wired {} F cs Q) \<and>
     nodes_made (mail F) + n * length cs + 1 < 2 ^ 32 \<and>
     applications F = applications F0 \<and> cookies F = cookies F0 \<and> closing F = closing F0"

lemma field32_defined:
  assumes "f \<in> fst ` set S" and "sizeof abi S \<le> length m"
  shows "\<exists>v. field32 abi S f m = Some v"
proof -
  obtain p t where f: "field abi S f = Some (p, t)" using field_defined [OF assms(1)] by blast
  with assms(2) have "p + csize t \<le> length m" using field_bound le_trans by blast
  with f show ?thesis by (simp add: field32_def get_field_def peek_def)
qed

lemma client_struct_size: "sizeof abi RawMessageClientAction \<le> sizeof abi (client_struct t)"
  by (cases t; cases abi; simp add: client_struct_def struct_defs layout_eval)

lemma commanded_inv:
  assumes "kc_inv F0 cs (Suc n) F" and "commanded F G cs res" and "rules_wf (rules G) rs" and "owned (rules G) rs"
    and "applications G = applications F" "cookies G = cookies F" "closing G = closing F"
  shows "\<exists>F'. res = Some F' \<and> kc_inv F0 cs n F'"
  using assms unfolding commanded_def kc_inv_def by fastforce

lemma kc_inv_less: "kc_inv F0 cs (Suc n) F \<Longrightarrow> kc_inv F0 cs n F"
  by (auto simp: kc_inv_def)

text \<open>Reading the fields of a message that is long enough for the struct of its type.\<close>

lemma command_fields:
  assumes "sizeof abi (client_struct t) \<le> length m"
  shows "\<exists>i. field32 abi RawMessageClientAction F_messageId m = Some i"
    and "f \<in> fst ` set (client_struct t) \<Longrightarrow> \<exists>v. field32 abi (client_struct t) f m = Some v"
  using field32_defined [of F_messageId RawMessageClientAction abi m] field32_defined [of f "client_struct t" abi m]
    client_struct_size [of abi t] assms
  by (auto simp: struct_defs)

lemma kc_result:
  assumes "kc_inv F0 cs (Suc n) F" and "res = Some F \<or> commanded F G cs res" and "rules_wf (rules G) rs" and "owned (rules G) rs"
    and "applications G = applications F" "cookies G = cookies F" "closing G = closing F"
  shows "\<exists>F'. res = Some F' \<and> kc_inv F0 cs n F'"
  using commanded_inv [OF assms(1) _ assms(3-7)] kc_inv_less [OF assms(1)] assms(2) by blast

text \<open>What every command is given: the client is on the list, the invariant holds, the struct is there.\<close>

definition serving :: "kernel \<Rightarrow> abi \<Rightarrow> Firewall \<Rightarrow> addr list \<Rightarrow> nat \<Rightarrow> addr \<Rightarrow> ClientMessagesType \<Rightarrow> u8 list \<Rightarrow> Firewall \<Rightarrow> bool" where
  "serving k abi F0 cs n a t m F \<longleftrightarrow> atomics_documented k \<and> kc_inv F0 cs (Suc n) F \<and> a \<in> set cs \<and>
     sizeof abi (client_struct t) \<le> length m \<and> (t = MessageTypeAddRule \<longrightarrow> readable k abi (Some m))"

lemma servingD:
  assumes "serving k abi F0 cs n a t m F"
  shows "\<exists>rs Q c i. atomics_documented k \<and> rules_wf (rules F) rs \<and> owned (rules F) rs \<and> wired {} F cs Q \<and> room F cs \<and> a \<in> set cs \<and>
    client_heap F a = Some c \<and> client_unit a F = Some (unit c) \<and> field32 abi RawMessageClientAction F_messageId m = Some i"
proof -
  from assms obtain rs Q where s: "rules_wf (rules F) rs" "owned (rules F) rs" "wired {} F cs Q" "a \<in> set cs"
    "nodes_made (mail F) + (length cs + n * length cs) + 1 < 2 ^ 32" by (auto simp: serving_def kc_inv_def)
  from s(5) have r: "room F cs" by (simp add: room_def)
  from wiredD(7) [OF s(3,4)] obtain c where c: "client_heap F a = Some c" by blast
  from assms command_fields(1) obtain i where i: "field32 abi RawMessageClientAction F_messageId m = Some i"
    unfolding serving_def by blast
  from assms have k: "atomics_documented k" by (simp add: serving_def)
  have u: "client_unit a F = Some (unit c)" using c by (simp add: client_unit_def)
  show ?thesis using k s(1-4) r c u i by blast
qed

lemma serve_AddRule:
  assumes s: "serving k abi F0 cs n a MessageTypeAddRule m F"
  shows "\<exists>F'. kc_AddRule k abi a m F = Some F' \<and> kc_inv F0 cs n F'"
proof -
  from servingD [OF s] obtain rs Q and c :: Client where D: "atomics_documented k" "rules_wf (rules F) rs" "owned (rules F) rs" "wired {} F cs Q"
    "room F cs" "a \<in> set cs" "client_unit a F = Some (unit c)" by blast
  from s have inv: "kc_inv F0 cs (Suc n) F" and rd: "readable k abi (Some m)" by (simp_all add: serving_def)
  from s command_fields(2) [of abi MessageTypeAddRule m F_id] obtain ident where
    d: "field32 abi RawMessageAddRule F_id m = Some ident" by (auto simp: serving_def client_struct_def struct_defs)
  from AddRule_release [OF D(1,2,3) rd] obtain res rule R' R'' rs' where
    A: "AddRule k abi (Some m) (rules F) = Some (res, rule, R')"
      "case rule of None \<Rightarrow> R'' = R' | Some c \<Rightarrow> \<exists>h. release_at k (Some c) (rules_heap R') = Some h \<and> R'' = R'\<lparr>rules_heap := h\<rparr>"
      "rules_wf R'' rs'" "owned R'' rs'" by blast
  show ?thesis
    by (rule kc_result [OF inv kc_AddRule_ok [OF D(1,4-7) d A(1,2)]]) (use A in simp_all)
qed

lemma serve_DeleteRule:
  assumes s: "serving k abi F0 cs n a MessageTypeDeleteRule m F"
  shows "\<exists>F'. kc_DeleteRule k abi a m F = Some F' \<and> kc_inv F0 cs n F'"
proof -
  from servingD [OF s] obtain rs Q i and c :: Client where D: "atomics_documented k" "rules_wf (rules F) rs" "owned (rules F) rs" "wired {} F cs Q"
    "room F cs" "a \<in> set cs" "client_unit a F = Some (unit c)" "field32 abi RawMessageClientAction F_messageId m = Some i" by blast
  from s have inv: "kc_inv F0 cs (Suc n) F" by (simp add: serving_def)
  from s command_fields(2) [of abi MessageTypeDeleteRule m F_ruleId] obtain ident where
    d: "field32 abi RawMessageDeleteRule F_ruleId m = Some ident" by (auto simp: serving_def client_struct_def struct_defs)
  from DeleteRule_step [OF D(2), of k ident] obtain res R' rs' where
    A: "DeleteRule k ident (rules F) = Some (res, R')" "rules_wf R' rs'" "set rs' \<subseteq> set rs"
      "\<forall>b. map_option references (rules_heap R' b) = map_option references (rules_heap (rules F) b)" by blast
  then have own: "owned R' rs'" using D(3) by (auto simp: owned_def)
  show ?thesis
    by (rule kc_result [OF inv kc_DeleteRule_ok [OF D(1,4-8) d A(1)]]) (use A own in simp_all)
qed

lemma serve_ActivateRule:
  assumes s: "serving k abi F0 cs n a MessageTypeActivateRule m F"
  shows "\<exists>F'. kc_ActivateRule k abi a m F = Some F' \<and> kc_inv F0 cs n F'"
proof -
  from servingD [OF s] obtain rs Q i and c :: Client where D: "atomics_documented k" "rules_wf (rules F) rs" "owned (rules F) rs" "wired {} F cs Q"
    "room F cs" "a \<in> set cs" "client_unit a F = Some (unit c)" "field32 abi RawMessageClientAction F_messageId m = Some i" by blast
  from s have inv: "kc_inv F0 cs (Suc n) F" by (simp add: serving_def)
  from s command_fields(2) [of abi MessageTypeActivateRule m F_ruleId] obtain ident where
    d: "field32 abi RawMessageActivateRule F_ruleId m = Some ident" by (auto simp: serving_def client_struct_def struct_defs)
  from ActivateRule_step [OF D(2), of k ident] obtain res R' where
    A: "ActivateRule k ident (rules F) = Some (res, R')" "rules_wf R' rs" by blast
  then have own: "owned R' rs" using D(3) ActivateRule_references [OF A(1)] by (auto simp: owned_def)
  show ?thesis
    by (rule kc_result [OF inv kc_ActivateRule_ok [OF D(1,4-8) d A(1)]]) (use A own in simp_all)
qed

lemma serve_DeactivateRule:
  assumes s: "serving k abi F0 cs n a MessageTypeDeactivateRule m F"
  shows "\<exists>F'. kc_DeactivateRule k abi a m F = Some F' \<and> kc_inv F0 cs n F'"
proof -
  from servingD [OF s] obtain rs Q i and c :: Client where D: "atomics_documented k" "rules_wf (rules F) rs" "owned (rules F) rs" "wired {} F cs Q"
    "room F cs" "a \<in> set cs" "client_unit a F = Some (unit c)" "field32 abi RawMessageClientAction F_messageId m = Some i" by blast
  from s have inv: "kc_inv F0 cs (Suc n) F" by (simp add: serving_def)
  from s command_fields(2) [of abi MessageTypeDeactivateRule m F_ruleId] obtain ident where
    d: "field32 abi RawMessageDeactivateRule F_ruleId m = Some ident" by (auto simp: serving_def client_struct_def struct_defs)
  from ActivateRule_step [OF D(2), of k ident] obtain res R' where
    A: "ActivateRule k ident (rules F) = Some (res, R')" "rules_wf R' rs" by blast
  then have own: "owned R' rs" using D(3) ActivateRule_references [OF A(1)] by (auto simp: owned_def)
  show ?thesis
    by (rule kc_result [OF inv kc_DeactivateRule_ok [OF D(1,4-8) d A(1) [folded Deactivate_is_Activate]]]) (use A own in simp_all)
qed

lemma serve_ActivateFirewall:
  assumes s: "serving k abi F0 cs n a MessageTypeActivateFirewall m F"
  shows "\<exists>F'. kc_ActivateFirewall k abi a m F = Some F' \<and> kc_inv F0 cs n F'"
proof -
  from servingD [OF s] obtain rs Q i and c :: Client where D: "atomics_documented k" "rules_wf (rules F) rs" "owned (rules F) rs" "wired {} F cs Q"
    "room F cs" "a \<in> set cs" "client_unit a F = Some (unit c)" "field32 abi RawMessageClientAction F_messageId m = Some i" by blast
  from s have inv: "kc_inv F0 cs (Suc n) F" by (simp add: serving_def)
  show ?thesis
    by (rule kc_result [OF inv kc_ActivateFirewall_ok [OF D(1,4-8)]]) (use D(2,3) in simp_all)
qed

lemma serve_DeactivateFirewall:
  assumes s: "serving k abi F0 cs n a MessageTypeDeactivateFirewall m F"
  shows "\<exists>F'. kc_DeactivateFirewall k abi a m F = Some F' \<and> kc_inv F0 cs n F'"
proof -
  from servingD [OF s] obtain rs Q i and c :: Client where D: "atomics_documented k" "rules_wf (rules F) rs" "owned (rules F) rs" "wired {} F cs Q"
    "room F cs" "a \<in> set cs" "client_unit a F = Some (unit c)" "field32 abi RawMessageClientAction F_messageId m = Some i" by blast
  from s have inv: "kc_inv F0 cs (Suc n) F" by (simp add: serving_def)
  show ?thesis
    by (rule kc_result [OF inv kc_DeactivateFirewall_ok [OF D(1,4-8)]]) (use D(2,3) in simp_all)
qed

text \<open>A counter's update function changes nothing else the invariant reads.\<close>

lemma serve_subscription:
  assumes s: "serving k abi F0 cs n a t m F"
    and res: "\<And>rs Q c i. atomics_documented k \<Longrightarrow> wired {} F cs Q \<Longrightarrow> room F cs \<Longrightarrow> a \<in> set cs \<Longrightarrow> client_heap F a = Some c \<Longrightarrow>
      field32 abi RawMessageClientAction F_messageId m = Some i \<Longrightarrow>
      res = Some F \<or> commanded F (if P c then count f F else F) cs res"
    and frame: "rules (count f F) = rules F" "applications (count f F) = applications F" "cookies (count f F) = cookies F"
      "closing (count f F) = closing F"
  shows "\<exists>F'. res = Some F' \<and> kc_inv F0 cs n F'"
proof -
  from servingD [OF s] obtain rs Q i and c :: Client where D: "atomics_documented k" "rules_wf (rules F) rs" "owned (rules F) rs" "wired {} F cs Q"
    "room F cs" "a \<in> set cs" "client_heap F a = Some c" "field32 abi RawMessageClientAction F_messageId m = Some i" by blast
  from s have inv: "kc_inv F0 cs (Suc n) F" by (simp add: serving_def)
  show ?thesis
    by (rule kc_result [OF inv res [OF D(1,4-8)]]) (use D(2,3) frame in simp_all)
qed

lemma kc_SubscribeAsaProviderOfRules_ok:
  assumes "atomics_documented k" and "wired {} F cs Q" and "room F cs" and "a \<in> set cs" and "client_heap F a = Some c"
    and "field32 abi RawMessageClientAction F_messageId m = Some i"
  shows "kc_SubscribeAsaProviderOfRules k abi a m F = Some F \<or>
    commanded F (if subscribed c MessageClassProviderOfRules then countSubscribersAsaProviderOfRules_update (\<lambda>v. v + 1) F else F) cs
      (kc_SubscribeAsaProviderOfRules k abi a m F)"
  unfolding kc_SubscribeAsaProviderOfRules_def
  by (rule kc_subscribe_ok [OF assms counters(1) created.ClientSubscribedAsaProviderOfRules response_long(7)])

lemma serve_SubscribeAsaProviderOfRules:
  assumes s: "serving k abi F0 cs n a t m F"
  shows "\<exists>F'. kc_SubscribeAsaProviderOfRules k abi a m F = Some F' \<and> kc_inv F0 cs n F'"
  by (rule serve_subscription [OF s, where f = "\<lambda>v. v + 1" and count = countSubscribersAsaProviderOfRules_update
      and P = "\<lambda>c. subscribed c MessageClassProviderOfRules"], (rule kc_SubscribeAsaProviderOfRules_ok; assumption), simp_all)

lemma kc_UnsubscribeAsaProviderOfRules_ok:
  assumes "atomics_documented k" and "wired {} F cs Q" and "room F cs" and "a \<in> set cs" and "client_heap F a = Some c"
    and "field32 abi RawMessageClientAction F_messageId m = Some i"
  shows "kc_UnsubscribeAsaProviderOfRules k abi a m F = Some F \<or>
    commanded F (if \<not> subscribed c MessageClassProviderOfRules then countSubscribersAsaProviderOfRules_update (\<lambda>v. v - 1) F else F) cs
      (kc_UnsubscribeAsaProviderOfRules k abi a m F)"
  unfolding kc_UnsubscribeAsaProviderOfRules_def
  by (rule kc_unsubscribe_ok [OF assms counters(1) created.ClientUnsubscribedAsaProviderOfRules response_long(8)]) simp_all

lemma serve_UnsubscribeAsaProviderOfRules:
  assumes s: "serving k abi F0 cs n a t m F"
  shows "\<exists>F'. kc_UnsubscribeAsaProviderOfRules k abi a m F = Some F' \<and> kc_inv F0 cs n F'"
  by (rule serve_subscription [OF s, where f = "\<lambda>v. v - 1" and count = countSubscribersAsaProviderOfRules_update
      and P = "\<lambda>c. \<not> subscribed c MessageClassProviderOfRules"], (rule kc_UnsubscribeAsaProviderOfRules_ok; assumption), simp_all)

lemma kc_SubscribeToInfoRules_ok:
  assumes "atomics_documented k" and "wired {} F cs Q" and "room F cs" and "a \<in> set cs" and "client_heap F a = Some c"
    and "field32 abi RawMessageClientAction F_messageId m = Some i"
  shows "kc_SubscribeToInfoRules k abi a m F = Some F \<or>
    commanded F (if subscribed c MessageClassInfoRules then countSubscribersForInfoRules_update (\<lambda>v. v + 1) F else F) cs
      (kc_SubscribeToInfoRules k abi a m F)"
  unfolding kc_SubscribeToInfoRules_def
  by (rule kc_subscribe_ok [OF assms counters(2) created.ClientSubscribedToInfoRules response_long(9)])

lemma serve_SubscribeToInfoRules:
  assumes s: "serving k abi F0 cs n a t m F"
  shows "\<exists>F'. kc_SubscribeToInfoRules k abi a m F = Some F' \<and> kc_inv F0 cs n F'"
  by (rule serve_subscription [OF s, where f = "\<lambda>v. v + 1" and count = countSubscribersForInfoRules_update
      and P = "\<lambda>c. subscribed c MessageClassInfoRules"], (rule kc_SubscribeToInfoRules_ok; assumption), simp_all)

lemma kc_UnsubscribeFromInfoRules_ok:
  assumes "atomics_documented k" and "wired {} F cs Q" and "room F cs" and "a \<in> set cs" and "client_heap F a = Some c"
    and "field32 abi RawMessageClientAction F_messageId m = Some i"
  shows "kc_UnsubscribeFromInfoRules k abi a m F = Some F \<or>
    commanded F (if \<not> subscribed c MessageClassInfoRules then countSubscribersForInfoRules_update (\<lambda>v. v - 1) F else F) cs
      (kc_UnsubscribeFromInfoRules k abi a m F)"
  unfolding kc_UnsubscribeFromInfoRules_def
  by (rule kc_unsubscribe_ok [OF assms counters(2) created.ClientUnsubscribedFromInfoRules response_long(10)]) simp_all

lemma serve_UnsubscribeFromInfoRules:
  assumes s: "serving k abi F0 cs n a t m F"
  shows "\<exists>F'. kc_UnsubscribeFromInfoRules k abi a m F = Some F' \<and> kc_inv F0 cs n F'"
  by (rule serve_subscription [OF s, where f = "\<lambda>v. v - 1" and count = countSubscribersForInfoRules_update
      and P = "\<lambda>c. \<not> subscribed c MessageClassInfoRules"], (rule kc_UnsubscribeFromInfoRules_ok; assumption), simp_all)

lemma kc_SubscribeToInfoSockets_ok:
  assumes "atomics_documented k" and "wired {} F cs Q" and "room F cs" and "a \<in> set cs" and "client_heap F a = Some c"
    and "field32 abi RawMessageClientAction F_messageId m = Some i"
  shows "kc_SubscribeToInfoSockets k abi a m F = Some F \<or>
    commanded F (if subscribed c MessageClassInfoSockets then countSubscribersForInfoSockets_update (\<lambda>v. v + 1) F else F) cs
      (kc_SubscribeToInfoSockets k abi a m F)"
  unfolding kc_SubscribeToInfoSockets_def
  by (rule kc_subscribe_ok [OF assms counters(3) created.ClientSubscribedToInfoSockets response_long(11)])

lemma serve_SubscribeToInfoSockets:
  assumes s: "serving k abi F0 cs n a t m F"
  shows "\<exists>F'. kc_SubscribeToInfoSockets k abi a m F = Some F' \<and> kc_inv F0 cs n F'"
  by (rule serve_subscription [OF s, where f = "\<lambda>v. v + 1" and count = countSubscribersForInfoSockets_update
      and P = "\<lambda>c. subscribed c MessageClassInfoSockets"], (rule kc_SubscribeToInfoSockets_ok; assumption), simp_all)

lemma kc_UnsubscribeFromInfoSockets_ok:
  assumes "atomics_documented k" and "wired {} F cs Q" and "room F cs" and "a \<in> set cs" and "client_heap F a = Some c"
    and "field32 abi RawMessageClientAction F_messageId m = Some i"
  shows "kc_UnsubscribeFromInfoSockets k abi a m F = Some F \<or>
    commanded F (if \<not> subscribed c MessageClassInfoSockets then countSubscribersForInfoSockets_update (\<lambda>v. v - 1) F else F) cs
      (kc_UnsubscribeFromInfoSockets k abi a m F)"
  unfolding kc_UnsubscribeFromInfoSockets_def
  by (rule kc_unsubscribe_ok [OF assms counters(3) created.ClientUnsubscribedFromInfoSockets response_long(12)]) simp_all

lemma serve_UnsubscribeFromInfoSockets:
  assumes s: "serving k abi F0 cs n a t m F"
  shows "\<exists>F'. kc_UnsubscribeFromInfoSockets k abi a m F = Some F' \<and> kc_inv F0 cs n F'"
  by (rule serve_subscription [OF s, where f = "\<lambda>v. v - 1" and count = countSubscribersForInfoSockets_update
      and P = "\<lambda>c. \<not> subscribed c MessageClassInfoSockets"], (rule kc_UnsubscribeFromInfoSockets_ok; assumption), simp_all)

lemmas serve_all = serve_AddRule serve_DeleteRule serve_ActivateRule serve_DeactivateRule serve_ActivateFirewall
  serve_DeactivateFirewall serve_SubscribeAsaProviderOfRules serve_UnsubscribeAsaProviderOfRules
  serve_SubscribeToInfoRules serve_UnsubscribeFromInfoRules serve_SubscribeToInfoSockets serve_UnsubscribeFromInfoSockets

lemma kc_command_total:
  assumes inv: "kc_inv F0 cs (Suc n) F" and ok: "command_ok k abi m" and a: "a \<in> set cs"
  shows "\<exists>F'. kc_command k abi a m F = Some F' \<and> kc_inv F0 cs n F'"
proof -
  from ok obtain ty where ty: "rd_u16 m 2 = Some ty" by (auto simp: command_ok_def split: option.splits)
  show ?thesis
  proof (cases "client_type_of ty")
    case None
    with ty kc_inv_less [OF inv] show ?thesis by (simp add: kc_command_def)
  next
    case (Some t)
    with ok inv a ty have "serving k abi F0 cs n a t m F" by (simp add: serving_def command_ok_def)
    with Some ty show ?thesis by (cases t) (auto simp: kc_command_def intro: serve_all)
  qed
qed

definition client_command_ok :: "kernel \<Rightarrow> abi \<Rightarrow> addr list \<Rightarrow> addr \<Rightarrow> u8 list \<Rightarrow> bool" where
  "client_command_ok k abi cs a m \<longleftrightarrow> a \<in> set cs \<and> command_ok k abi m"

interpretation kc: total_ops "kc_inv F0 cs" "client_command_ok k abi cs a" "kc_command k abi a" for F0 cs k abi a
  by unfold_locales (use kc_command_total in \<open>auto simp: client_command_ok_def\<close>)

section \<open>The loop over a batch\<close>

text \<open>
  \<open>batch abi mem at szs\<close>: from the offset \<open>at\<close> on the memory holds messages of the declared sizes \<open>szs\<close>,
  none of them zero; \<open>batch_messages\<close> is the memory from each of them on.
\<close>

fun batch_messages :: "u8 list \<Rightarrow> nat \<Rightarrow> nat list \<Rightarrow> u8 list list" where
  "batch_messages mem at [] = []"
| "batch_messages mem at (sz # szs) = drop at mem # batch_messages mem (at + sz) szs"

fun batch :: "u8 list \<Rightarrow> nat \<Rightarrow> nat list \<Rightarrow> bool" where
  "batch mem at [] = True"
| "batch mem at (sz # szs) = (0 < sz \<and> map_option unat (rd_u16 mem at) = Some sz \<and> batch mem (at + sz) szs)"

lemma length_batch_messages [simp]: "length (batch_messages mem at szs) = length szs"
  by (induction szs arbitrary: at) auto

text \<open>The 32-bit position does not wrap inside a buffer of less than 4 GB.\<close>

lemma position_step:
  assumes "unat (p :: u32) + unat (w :: u16) < 2 ^ 32"
  shows "unat (p + ucast w) = unat p + unat w"
proof -
  have "unat w < 2 ^ 16" using unsigned_less [where ?'a = nat, of w] by simp
  then have "unat w < 2 ^ 32" by simp
  then have "unat (ucast w :: u32) = unat w" by (simp add: unsigned_ucast_eq take_bit_nat_eq_self_iff)
  then show ?thesis using assms by (simp add: unat_word_ariths)
qed

text \<open>The loop over a batch is the sequence of its commands; one round of fuel per message is enough.\<close>

lemma kc_loop_batch:
  assumes "batch mem at szs" and "at + sum_list szs = data_len" and "data_len < 2 ^ 32" and "unat currentPosition = at"
    and "length szs < fuel"
  shows "kc_loop k abi a mem data_len fuel currentPosition at F =
    (case run_all (kc_command k abi a) (batch_messages mem at szs) F of None \<Rightarrow> Fault | Some F' \<Rightarrow> Returned F')"
  using assms
proof (induction szs arbitrary: at currentPosition fuel F)
  case Nil
  then show ?case by (cases fuel) auto
next
  case (Cons sz szs)
  then obtain f where f: "fuel = Suc f" "length szs < f" by (cases fuel) auto
  from Cons.prems obtain w where w: "rd_u16 mem at = Some w" "unat w = sz" by auto
  have pos: "unat currentPosition < data_len" using Cons.prems by auto
  have step: "unat (currentPosition + ucast w) = at + sz"
    using Cons.prems w position_step [of currentPosition w] by simp
  note IH = Cons.IH [of "at + sz" "currentPosition + ucast w" f]
  show ?case
  proof (cases "kc_command k abi a (drop at mem) F")
    case None
    with f pos show ?thesis by simp
  next
    case (Some F')
    with f pos w IH [of F'] step Cons.prems show ?thesis by simp
  qed
qed

text \<open>A message of size zero: the loop stays where it is.\<close>

lemma kc_loop_stuck:
  assumes "unat currentPosition < data_len" and "rd_u16 mem at = Some 0"
    and "\<And>F. I F \<Longrightarrow> \<exists>F'. kc_command k abi a (drop at mem) F = Some F' \<and> I F'" and "I F"
  shows "kc_loop k abi a mem data_len fuel currentPosition at F = OutOfFuel"
  using assms(4)
proof (induction fuel arbitrary: F)
  case (Suc fuel)
  from assms(3) [OF Suc.prems] obtain F' where "kc_command k abi a (drop at mem) F = Some F'" "I F'" by blast
  with Suc.IH [of F'] assms(1,2) show ?case by simp
qed simp

section \<open>Properties\<close>

text \<open>
  For the concrete instances: the extension of \<open>demo_firewall\<close> with the rule base of \<open>demo_rules\<close>, and a
  buffer with the commands "activate the firewall" and "add the rule for the process a".
\<close>

definition demo_server :: Firewall where
  "demo_server = demo_firewall\<lparr>rules := demo_rules\<rparr>"

definition demo_activate :: "u8 list" where
  "demo_activate = [8, 0, 5, 16, 1, 0, 0, 0]"

definition demo_batch :: "u8 list" where
  "demo_batch = demo_activate @ 36 # 0 # 1 # 16 # drop 4 (demo_message 97)"

lemma demo_server_inv: "kc_inv demo_server [0] n demo_server" if "n < 1000"
proof -
  have "wired {} demo_server [0] (\<lambda>_. [])" using demo_wired by (simp add: demo_server_def)
  moreover have "rules_wf (rules demo_server) [0]" "owned (rules demo_server) [0]"
    using demo_rules_wf(1) by (simp_all add: demo_server_def owned_def demo_rules_def demo_rule_def)
  moreover have "nodes_made (mail demo_server) = 0" by (simp add: demo_server_def demo_firewall_def unloaded_def)
  ultimately show ?thesis using that unfolding kc_inv_def by auto
qed

text \<open>C13. A buffer of well-formed commands is served completely. When the extension is not closing, the client
  is connected and the buffer is a sequence of messages of known non-zero sizes whose fields can be read, \<open>KcSend\<close> returns \<open>KERN_SUCCESS\<close> after one
  round per message: it does what the commands do one after the other, no command faults whatever memory is
  refused on the way, and afterwards rule base, clients, mail and reference counts satisfy their invariants.\<close>

theorem batch_served:
  assumes "atomics_documented k" and "kc_inv F cs (length szs) F" and "a \<in> set cs" and "\<not> closing F"
    and "batch mem 0 szs" and "sum_list szs < 2 ^ 32" and "\<forall>m\<in>set (batch_messages mem 0 szs). command_ok k abi m"
    and "length szs < fuel"
  shows "\<exists>F'. KcSend k abi (Some a) mem (sum_list szs) fuel F = Returned (KERN_SUCCESS, F') \<and>
    run_all (kc_command k abi a) (batch_messages mem 0 szs) F = Some F' \<and> kc_inv F cs 0 F'"
proof -
  have "list_all (client_command_ok k abi cs a) (batch_messages mem 0 szs)"
    using assms(3,7) by (simp add: list_all_iff client_command_ok_def)
  with kc.runs_total [of F cs 0 "batch_messages mem 0 szs" F k abi a] assms(2) obtain F' where
    "run_all (kc_command k abi a) (batch_messages mem 0 szs) F = Some F'" "kc_inv F cs 0 F'" by auto
  then show ?thesis
    using kc_loop_batch [OF assms(5) _ assms(6) _ assms(8), of 0 k abi a F] assms(4) by (simp add: KcSend_def)
qed

lemma batch_served_witness:
  "\<exists>F'. KcSend plain_kernel X86_64 (Some 0) demo_batch 44 3 demo_server = Returned (KERN_SUCCESS, F') \<and> kc_inv demo_server [0] 0 F'"
proof -
  have sz: "batch demo_batch 0 [8, 36]" by code_simp
  have rd: "readable plain_kernel X86_64 (Some (drop 8 demo_batch))"
  proof -
    have "Rule_Init plain_kernel X86_64 n (Some (drop 8 demo_batch)) = Some (Some (demo_rule 97))" for n by code_simp
    then show ?thesis by (simp add: readable_def)
  qed
  have ty: "rd_u16 (drop 0 demo_batch) 2 = Some (client_code MessageTypeActivateFirewall)"
    "rd_u16 (drop 8 demo_batch) 2 = Some (client_code MessageTypeAddRule)"
    "sizeof X86_64 (client_struct MessageTypeActivateFirewall) \<le> length (drop 0 demo_batch)"
    "sizeof X86_64 (client_struct MessageTypeAddRule) \<le> length (drop 8 demo_batch)"
    by code_simp+
  have "\<forall>m\<in>set (batch_messages demo_batch 0 [8, 36]). command_ok plain_kernel X86_64 m"
    using ty rd by (simp add: command_ok_def del: client_code.simps)
  from batch_served [OF plain_kernel_documented demo_server_inv _ _ sz _ this, of 0 3] show ?thesis
    by (auto simp: demo_server_def demo_firewall_def unloaded_def)
qed

text \<open>C37. A message of declared size 0 makes \<open>KcSend\<close> loop for ever. When the buffer starts with four
  zero-size header bytes of a type the switch does not know, the position never advances: no number of rounds suffices,
  from any state that is not closing, so that a client can keep the kernel busy with a single short message.\<close>

theorem zero_size_hangs:
  assumes "\<not> closing F" and "0 < data_len" and "rd_u16 mem 0 = Some 0" and "rd_u16 mem 2 = Some ty" and "client_type_of ty = None"
  shows "KcSend k abi (Some a) mem data_len fuel F = OutOfFuel"
proof -
  have "kc_command k abi a (drop 0 mem) G = Some G" for G using assms(4,5) by (simp add: kc_command_def)
  then have "kc_loop k abi a mem data_len fuel 0 0 F = OutOfFuel"
    using kc_loop_stuck [of 0 data_len mem 0 "\<lambda>_. True" k abi a F fuel] assms(2,3) by simp
  then show ?thesis using assms(1) by (simp add: KcSend_def)
qed

lemma zero_size_hangs_witness: "KcSend plain_kernel X86_64 (Some 0) [0, 0, 0, 0] 4 1000000 demo_server = OutOfFuel"
proof (rule zero_size_hangs)
  show "rd_u16 [0, 0, 0, 0] 0 = Some 0" "rd_u16 [0, 0, 0, 0] 2 = Some 0" "client_type_of 0 = None" by code_simp+
qed (simp_all add: demo_server_def demo_firewall_def unloaded_def)

text \<open>The counter of subscribers misses every first subscription. Subscribing to the news about rules
  raises the counter only if the client was subscribed before; a client that subscribes once is not counted, though
  its later disconnect subtracts it. (Nothing happens at all when there is no memory for the answer.)\<close>

theorem subscription_counts:
  assumes "atomics_documented k" and "wired {} F cs Q" and "room F cs" and "a \<in> set cs" and "client_heap F a = Some c"
    and "field32 abi RawMessageClientAction F_messageId m = Some i"
  shows "\<exists>F'. kc_SubscribeToInfoRules k abi a m F = Some F' \<and>
    (F' = F \<or> countSubscribersForInfoRules F' =
       (if subscribed c MessageClassInfoRules then countSubscribersForInfoRules F + 1 else countSubscribersForInfoRules F)) \<and>
    rules F' = rules F \<and> (\<exists>Q'. wired {} F' cs Q')"
proof -
  from kc_SubscribeToInfoRules_ok [OF assms] show ?thesis
  proof
    assume "kc_SubscribeToInfoRules k abi a m F = Some F"
    with assms(2) show ?thesis by blast
  next
    assume "commanded F (if subscribed c MessageClassInfoRules then countSubscribersForInfoRules_update (\<lambda>v. v + 1) F else F)
      cs (kc_SubscribeToInfoRules k abi a m F)"
    then show ?thesis by (auto simp: commanded_def with_inbox_def split: if_splits)
  qed
qed

lemma subscription_counts_witness:
  "\<exists>F'. kc_SubscribeToInfoRules plain_kernel X86_64 0 [8, 0, 9, 16, 1, 0, 0, 0] demo_firewall = Some F' \<and>
    countSubscribersForInfoRules F' = countSubscribersForInfoRules demo_firewall"
proof -
  have i: "field32 X86_64 RawMessageClientAction F_messageId [8, 0, 9, 16, 1, 0, 0, 0] = Some 1" by code_simp
  have c: "client_heap demo_firewall 0 = Some demo_member" by (simp add: demo_firewall_def)
  from subscription_counts [OF plain_kernel_documented demo_wired demo_room _ c i] show ?thesis
    by (auto simp: demo_member_fields)
qed

end
