(* ===== verification/ServerConnection.thy ===== *)
theory ServerConnection
  imports MessageType
begin

text \<open>
  The client side of the control socket (Shared/ServerConnection.h, ServerConnection.cpp): opening and
  closing the connection, sending a message, and the thread that receives what the extension sends and
  hands every message to a delegate. What the system calls answer is a parameter. The connection keeps a
  log of the calls it makes that matter here: descriptors closed, bytes sent, messages handed over, the
  notification of the end.

  The structures that are only passed on to the system (\<open>m_ctl_info\<close>, \<open>sc\<close>) are left out.
\<close>

section \<open>The connection\<close>

text \<open>\<open>Received m\<close>: the delegate is called with a pointer to \<open>m\<close>, the memory from the message to the end of the buffer.\<close>

datatype connection_event =
    SocketClosed s32
  | DataSent s32 "u8 list"
  | Received "u8 list"
  | ConnectionClosed

record ServerConnection =
  gSocket :: s32
  receiveThread :: bool \<comment> \<open>not NULL\<close>
  receiveDelegate :: bool \<comment> \<open>not NULL\<close>
  closedDelegate :: bool \<comment> \<open>not NULL\<close>
  connection_log :: "connection_event list"

definition new_connection :: ServerConnection where
  "new_connection = \<lparr>gSocket = -1, receiveThread = False, receiveDelegate = False, closedDelegate = False,
     connection_log = []\<rparr>"

definition logged :: "connection_event \<Rightarrow> ServerConnection \<Rightarrow> ServerConnection" where
  "logged e C = C\<lparr>connection_log := connection_log C @ [e]\<rparr>"

text \<open>The answers of \<open>socket\<close>, \<open>ioctl\<close>, \<open>connect\<close>, \<open>pthread_attr_init\<close> and \<open>pthread_create\<close>.\<close>

record connection_attempt =
  o_socket :: s32
  o_ioctl :: s32
  o_connect :: s32
  o_attr :: s32
  o_thread :: s32

text \<open>
  \<open>close(gSocket); gSocket = -1;\<close> and the code before \<open>unlock\<close>. The test after \<open>pthread_create\<close> reads
  \<open>result\<close>, which is still false there, and not the variable that holds the answer.
\<close>

definition give_up :: "ServerConnection \<Rightarrow> ServerConnection" where
  "give_up C = (logged (SocketClosed (gSocket C)) C)\<lparr>gSocket := -1\<rparr>"

definition Open :: "connection_attempt \<Rightarrow> bool \<Rightarrow> bool \<Rightarrow> ServerConnection \<Rightarrow> bool \<times> ServerConnection" where
  "Open e receive closed C0 = (let result = False; C = C0\<lparr>gSocket := o_socket e\<rparr> in
     if 0 <s gSocket C then
       if o_ioctl e \<noteq> -1 then
         let C1 = C\<lparr>receiveDelegate := receive, closedDelegate := closed\<rparr> in
         if o_connect e = 0 then
           if o_attr e = 0 then
             let C2 = C1\<lparr>receiveThread := (if o_thread e = 0 then True else receiveThread C1)\<rparr> in
             if result = False then (True, C2) else (result, give_up C2)
           else (result, give_up C1)
         else (result, give_up C1)
       else (result, give_up C)
     else (result, C))"

text \<open>\<open>Close\<close> leaves \<open>gSocket\<close> as it is; \<open>closed\<close> is the answer of \<open>close\<close>.\<close>

definition Close :: "s32 \<Rightarrow> ServerConnection \<Rightarrow> bool \<times> ServerConnection" where
  "Close closed C =
     (if 0 <s gSocket C then (closed = 0, logged (SocketClosed (gSocket C)) C) else (False, C))"

text \<open>\<open>sent\<close> is the answer of \<open>send\<close>. \<open>SendMessage\<close> sends as many bytes as the message declares.\<close>

definition Send :: "(u8 list \<Rightarrow> s32) \<Rightarrow> u8 list \<Rightarrow> ServerConnection \<Rightarrow> s32 \<times> ServerConnection" where
  "Send sent data C = (sent data, logged (DataSent (gSocket C) data) C)"

definition SendMessage :: "(u8 list \<Rightarrow> s32) \<Rightarrow> u8 list option \<Rightarrow> ServerConnection \<Rightarrow> (s32 \<times> ServerConnection) option" where
  "SendMessage sent message C =
     (case message of None \<Rightarrow> Some (0, C)
      | Some m \<Rightarrow> do {
          sz \<leftarrow> rd_u16 m 0;
          data \<leftarrow> peek 0 (unat sz) m;
          Some (Send sent data C)
        })"

section \<open>The receiving thread\<close>

definition buffer_size :: nat where
  "buffer_size = 8 * 1024"

text \<open>
  The inner loop over the \<open>n\<close> bytes received; \<open>at\<close> is \<open>k\<close>. The value says whether the loop was left by
  \<open>goto close\<close>. \<open>fuel\<close> bounds the number of rounds.
\<close>

fun receive_batch :: "nat \<Rightarrow> u8 list \<Rightarrow> nat \<Rightarrow> nat \<Rightarrow> ServerConnection \<Rightarrow> (bool \<times> ServerConnection) outcome" where
  "receive_batch 0 buf n at C = OutOfFuel"
| "receive_batch (Suc fuel) buf n at C =
     (if at < n then
        let C1 = (if receiveDelegate C then logged (Received (drop at buf)) C else C) in
        case rd_u16 buf (at + 2) of None \<Rightarrow> Fault
        | Some ty \<Rightarrow>
            if ty = server_code MessageTypeFirewallClosing then Returned (True, C1)
            else (case rd_u16 buf at of None \<Rightarrow> Fault
                  | Some sz \<Rightarrow> receive_batch fuel buf n (at + unat sz) C1)
      else Returned (False, C))"

text \<open>
  The outer loop over the answers of \<open>recv\<close>: \<open>RecvError\<close> is -1, \<open>RecvData []\<close> is 0. The bytes overwrite the
  front of the buffer. When the list is exhausted the thread is blocked in \<open>recv\<close>; the value is whether the
  thread has left the loop.
\<close>

datatype recv_answer = RecvError | RecvData "u8 list"

fun receive_loop :: "nat \<Rightarrow> recv_answer list \<Rightarrow> u8 list \<Rightarrow> ServerConnection \<Rightarrow> (bool \<times> ServerConnection) outcome" where
  "receive_loop fuel [] buf C = Returned (False, C)"
| "receive_loop fuel (RecvError # rs) buf C = Returned (True, C)"
| "receive_loop fuel (RecvData bs # rs) buf C =
     (if bs = [] then Returned (True, C)
      else let buf' = bs @ drop (length bs) buf in
        case receive_batch fuel buf' (length bs) 0 C of
          Returned (stop, C') \<Rightarrow> if stop then Returned (True, C') else receive_loop fuel rs buf' C'
        | Fault \<Rightarrow> Fault | OutOfFuel \<Rightarrow> OutOfFuel)"

text \<open>The code behind the label \<open>close\<close>.\<close>

definition receive_end :: "ServerConnection \<Rightarrow> ServerConnection" where
  "receive_end C = (let
     C1 = (if 0 <s gSocket C then logged (SocketClosed (gSocket C)) C else C);
     C2 = C1\<lparr>gSocket := -1, receiveThread := False\<rparr>
     in if closedDelegate C2 then logged ConnectionClosed C2 else C2)"

definition ReceiveThread :: "nat \<Rightarrow> recv_answer list \<Rightarrow> u8 list \<Rightarrow> ServerConnection \<Rightarrow> ServerConnection outcome" where
  "ReceiveThread fuel rs buf C =
     (case receive_loop fuel rs buf C of
        Returned (True, C') \<Rightarrow> Returned (receive_end C')
      | Returned (False, C') \<Rightarrow> Returned C'
      | Fault \<Rightarrow> Fault | OutOfFuel \<Rightarrow> OutOfFuel)"

section \<open>Facts\<close>

lemma logged_fields [simp]:
  "gSocket (logged e C) = gSocket C" "receiveThread (logged e C) = receiveThread C"
  "receiveDelegate (logged e C) = receiveDelegate C" "closedDelegate (logged e C) = closedDelegate C"
  "connection_log (logged e C) = connection_log C @ [e]"
  by (simp_all add: logged_def)

text \<open>The connection after a sequence of messages has been handed over.\<close>

definition handed :: "u8 list list \<Rightarrow> ServerConnection \<Rightarrow> ServerConnection" where
  "handed ms C = C\<lparr>connection_log := connection_log C @ map Received ms\<rparr>"

lemma handed_Nil [simp]: "handed [] C = C"
  by (simp add: handed_def)

lemma handed_Cons: "handed (m # ms) C = handed ms (logged (Received m) C)"
  by (simp add: handed_def logged_def)

lemma handed_handed [simp]: "handed ns (handed ms C) = handed (ms @ ns) C"
  by (simp add: handed_def)

lemma handed_fields [simp]:
  "gSocket (handed ms C) = gSocket C" "receiveThread (handed ms C) = receiveThread C"
  "receiveDelegate (handed ms C) = receiveDelegate C" "closedDelegate (handed ms C) = closedDelegate C"
  "connection_log (handed ms C) = connection_log C @ map Received ms"
  by (simp_all add: handed_def)

text \<open>A news item: a message that is not the notification of the end.\<close>

definition news :: "u8 list \<Rightarrow> bool" where
  "news b \<longleftrightarrow> framed b \<and> rd_u16 b 2 \<noteq> Some (server_code MessageTypeFirewallClosing)"

definition starts_with :: "u8 list \<Rightarrow> u8 list \<Rightarrow> bool" where
  "starts_with m b \<longleftrightarrow> take (length b) m = b"

lemma receive_one:
  assumes b: "framed b" and buf: "drop at buf = b @ rest" and at: "at < n" and d: "receiveDelegate C"
  shows "receive_batch (Suc fuel) buf n at C =
    (if rd_u16 b 2 = Some (server_code MessageTypeFirewallClosing) then Returned (True, logged (Received (b @ rest)) C)
     else receive_batch fuel buf n (at + length b) (logged (Received (b @ rest)) C))"
proof -
  from framed_size [OF b] obtain sz where sz: "rd_u16 b 0 = Some sz" "unat sz = length b" by blast
  have rd: "rd_u16 buf (at + i) = rd_u16 b i" if "i + 2 \<le> length b" for i
    using rd_u16_drop [of buf at i] rd_u16_append [OF that] buf by simp
  from framed_length [OF b] have four: "4 \<le> length b" .
  then obtain ty where ty: "rd_u16 b 2 = Some ty" by (auto simp: rd_u16_def peek_def)
  show ?thesis using at d buf sz ty rd [of 0] rd [of 2] four by (simp add: Let_def)
qed

text \<open>Whole messages are handed over one by one.\<close>

lemma receive_prefix:
  assumes "list_all news ms" and "drop at buf = concat ms @ rest" and "at + length (concat ms) \<le> n"
    and "receiveDelegate C"
  obtains ns where "list_all2 starts_with ns ms"
    and "\<And>f. receive_batch (length ms + f) buf n at C = receive_batch f buf n (at + length (concat ms)) (handed ns C)"
  using assms
proof (induction ms arbitrary: at C thesis)
  case Nil
  then show ?case by simp
next
  case (Cons b ms)
  from Cons.prems(2) have b: "framed b" "rd_u16 b 2 \<noteq> Some (server_code MessageTypeFirewallClosing)" "list_all news ms"
    by (simp_all add: news_def [of b])
  let ?m = "b @ concat ms @ rest" and ?at = "at + length b"
  have "at < n" using framed_length [OF b(1)] Cons.prems(4) by (cases b) auto
  moreover have drp: "drop at buf = b @ (concat ms @ rest)" using Cons.prems(3) by simp
  ultimately have step: "receive_batch (Suc f) buf n at C = receive_batch f buf n ?at (logged (Received ?m) C)" for f
    using receive_one [OF b(1) drp _ Cons.prems(5), of n f] b(2) by simp
  have "drop ?at buf = concat ms @ rest" using drop_drop [of "length b" at buf] drp by (simp add: add.commute)
  moreover have "?at + length (concat ms) \<le> n" using Cons.prems(4) by simp
  moreover have "receiveDelegate (logged (Received ?m) C)" using Cons.prems(5) by simp
  ultimately obtain ns where ns: "list_all2 starts_with ns ms"
    "\<And>f. receive_batch (length ms + f) buf n ?at (logged (Received ?m) C) =
      receive_batch f buf n (?at + length (concat ms)) (handed ns (logged (Received ?m) C))"
    using Cons.IH [OF _ b(3)] by blast
  show ?case
  proof (rule Cons.prems(1))
    show "list_all2 starts_with (?m # ns) (b # ms)" using ns(1) by (simp add: starts_with_def)
    show "receive_batch (length (b # ms) + f) buf n at C =
      receive_batch f buf n (at + length (concat (b # ms))) (handed (?m # ns) C)" for f
      using step [of "length ms + f"] ns(2) [of f] by (simp add: handed_Cons add.assoc)
  qed
qed

lemma receive_batch_news:
  assumes "list_all news ms" and "drop at buf = concat ms @ rest" and "n = at + length (concat ms)"
    and "receiveDelegate C" and "length ms < fuel"
  shows "\<exists>ns. list_all2 starts_with ns ms \<and> receive_batch fuel buf n at C = Returned (False, handed ns C)"
proof -
  obtain f where f: "fuel = length ms + Suc f" using assms(5) less_iff_Suc_add [of "length ms" fuel] by auto
  obtain ns where "list_all2 starts_with ns ms"
    "receive_batch (length ms + Suc f) buf n at C = receive_batch (Suc f) buf n n (handed ns C)"
    using receive_prefix [OF assms(1,2) _ assms(4), of n] assms(3) by blast
  with f show ?thesis by (intro exI [of _ ns]) simp
qed

lemma news_count: "list_all news ms \<Longrightarrow> length ms \<le> length (concat ms)"
  by (induction ms) (auto simp: news_def dest: framed_length)

text \<open>What arrives in several answers of \<open>recv\<close>, each of whole messages.\<close>

definition arrives :: "u8 list list \<Rightarrow> bool" where
  "arrives ms \<longleftrightarrow> ms \<noteq> [] \<and> list_all news ms \<and> length (concat ms) \<le> buffer_size"

lemma receive_loop_news:
  assumes "list_all arrives css" and "receiveDelegate C" and "length buf = buffer_size" and "buffer_size < fuel"
  shows "\<exists>ns buf'. list_all2 starts_with ns (concat css) \<and> length buf' = buffer_size \<and>
    receive_loop fuel (map (RecvData \<circ> concat) css @ rs) buf C = receive_loop fuel rs buf' (handed ns C)"
  using assms
proof (induction css arbitrary: C buf)
  case Nil
  then show ?case by (intro exI [of _ "[]"] exI [of _ buf]) simp
next
  case (Cons ms css)
  then have ms: "ms \<noteq> []" "list_all news ms" "length (concat ms) \<le> buffer_size" by (auto simp: arrives_def)
  let ?bs = "concat ms" and ?buf = "concat ms @ drop (length (concat ms)) buf"
  have ne: "?bs \<noteq> []" using ms(1,2) framed_length by (cases ms) (fastforce simp: news_def)+
  have "length ms < fuel" using news_count [OF ms(2)] ms(3) Cons.prems(4) by simp
  with ms(2) Cons.prems(2) obtain ns where ns: "list_all2 starts_with ns ms"
    "receive_batch fuel ?buf (length ?bs) 0 C = Returned (False, handed ns C)"
    using receive_batch_news [of ms 0 ?buf "drop (length ?bs) buf" "length ?bs" C fuel] by auto
  have "length ?buf = buffer_size" using Cons.prems(3) ms(3) by simp
  then obtain ns' buf' where "list_all2 starts_with ns' (concat css)" "length buf' = buffer_size"
    "receive_loop fuel (map (RecvData \<circ> concat) css @ rs) ?buf (handed ns C) =
       receive_loop fuel rs buf' (handed ns' (handed ns C))"
    using Cons.IH [of "handed ns C" ?buf] Cons.prems by (auto simp: comp_def)
  with ns ne show ?case
    by (intro exI [of _ "ns @ ns'"] exI [of _ buf']) (auto simp: Let_def comp_def list_all2_appendI)
qed

text \<open>The notification of the end behind other messages.\<close>

lemma receive_batch_closing:
  assumes "list_all news ms" and b: "framed b" "rd_u16 b 2 = Some (server_code MessageTypeFirewallClosing)"
    and "drop at buf = concat ms @ b @ rest" and n: "at + length (concat ms) < n"
    and d: "receiveDelegate C" and "length ms < fuel"
  shows "\<exists>ns. list_all2 starts_with ns (ms @ [b]) \<and> receive_batch fuel buf n at C = Returned (True, handed ns C)"
proof -
  obtain f where f: "fuel = length ms + Suc f" using assms(7) less_iff_Suc_add [of "length ms" fuel] by auto
  let ?at = "at + length (concat ms)"
  obtain ns where ns: "list_all2 starts_with ns ms"
    "receive_batch (length ms + Suc f) buf n at C = receive_batch (Suc f) buf n ?at (handed ns C)"
    using receive_prefix [OF assms(1,4) less_imp_le [OF n] d] by blast
  have "drop ?at buf = b @ rest" using drop_drop [of "length (concat ms)" at buf] assms(4)
    by (simp add: add.commute)
  then have "receive_batch (Suc f) buf n ?at (handed ns C) = Returned (True, handed (ns @ [b @ rest]) C)"
    using receive_one [OF b(1) _ n, of buf rest "handed ns C" f] b(2) d by (simp add: handed_def logged_def)
  with f ns show ?thesis
    by (intro exI [of _ "ns @ [b @ rest]"]) (simp add: list_all2_appendI starts_with_def)
qed

section \<open>Properties\<close>

text \<open>A connection with its thread running, and messages for the concrete instances.\<close>

definition demo_connection :: ServerConnection where
  "demo_connection = snd (Open \<lparr>o_socket = 3, o_ioctl = 0, o_connect = 0, o_attr = 0, o_thread = 0\<rparr> True True new_connection)"

lemma demo_connection: "demo_connection = \<lparr>gSocket = 3, receiveThread = True, receiveDelegate = True,
    closedDelegate = True, connection_log = []\<rparr>"
  by code_simp

lemma demo_news: "news [8, 0, 4, 32, 1, 2, 3, 4]" "news [4, 0, 2, 32]" "framed [4, 0, 9, 8]"
    "rd_u16 [4, 0, 9, 8] 2 = Some (server_code MessageTypeFirewallClosing)"
  by code_simp+

text \<open>The receiving thread hands over exactly what was sent. When every answer of \<open>recv\<close> holds
  whole messages, at least one, then the delegate is called once for each message, in order, with a pointer to memory
  that starts with the bytes of the message, and the thread waits for more. Fuel of one round per byte of the
  buffer is enough.\<close>

theorem receive_in_order:
  assumes "list_all arrives css" and "receiveDelegate C" and "length buf = buffer_size" and "buffer_size < fuel"
  shows "\<exists>ms C'. ReceiveThread fuel (map (RecvData \<circ> concat) css) buf C = Returned C' \<and>
    connection_log C' = connection_log C @ map Received ms \<and> list_all2 starts_with ms (concat css) \<and>
    receiveThread C' = receiveThread C \<and> gSocket C' = gSocket C"
proof -
  obtain ms buf' where ms: "list_all2 starts_with ms (concat css)"
    "receive_loop fuel (map (RecvData \<circ> concat) css @ []) buf C = receive_loop fuel [] buf' (handed ms C)"
    using receive_loop_news [OF assms] by blast
  then have "ReceiveThread fuel (map (RecvData \<circ> concat) css) buf C = Returned (handed ms C)"
    by (simp add: ReceiveThread_def)
  with ms(1) show ?thesis by (intro exI [of _ ms] exI [of _ "handed ms C"]) simp
qed

lemma receive_in_order_witness:
  "\<exists>ms C'. ReceiveThread 10000 [RecvData [8, 0, 4, 32, 1, 2, 3, 4, 4, 0, 2, 32]] (replicate buffer_size 0) demo_connection =
      Returned C' \<and> connection_log C' = map Received ms \<and> list_all2 starts_with ms [[8, 0, 4, 32, 1, 2, 3, 4], [4, 0, 2, 32]]"
proof -
  have "list_all arrives [[[8, 0, 4, 32, 1, 2, 3, 4], [4, 0, 2, 32]]]"
    using demo_news by (simp add: arrives_def buffer_size_def)
  from receive_in_order [OF this, of demo_connection "replicate buffer_size 0" 10000] show ?thesis
    by (auto simp: demo_connection buffer_size_def)
qed

text \<open>The notification of the end: the thread leaves its loop with it, whatever follows.\<close>

lemma receive_closing:
  assumes "list_all arrives css" and "list_all news ms"
    and "framed b" and "rd_u16 b 2 = Some (server_code MessageTypeFirewallClosing)"
    and "length (concat ms @ b @ rest) \<le> buffer_size"
    and "receiveDelegate C" and "length buf = buffer_size" and "buffer_size < fuel"
  shows "\<exists>ns. list_all2 starts_with ns (concat css @ ms @ [b]) \<and>
    ReceiveThread fuel (map (RecvData \<circ> concat) css @ RecvData (concat ms @ b @ rest) # later) buf C =
      Returned (receive_end (handed ns C))"
proof -
  define bs where "bs = concat ms @ b @ rest"
  obtain n1 buf' where n1: "list_all2 starts_with n1 (concat css)" "length buf' = buffer_size"
    "receive_loop fuel (map (RecvData \<circ> concat) css @ RecvData bs # later) buf C =
       receive_loop fuel (RecvData bs # later) buf' (handed n1 C)"
    using receive_loop_news [OF assms(1,6-8)] by blast
  have "length ms < fuel" using news_count [OF assms(2)] assms(5,8) by simp
  moreover have "length (concat ms) < length bs" using framed_length [OF assms(3)] by (cases b) (auto simp: bs_def)
  moreover have "bs @ drop (length bs) buf' = concat ms @ b @ (rest @ drop (length bs) buf')" by (simp add: bs_def)
  ultimately obtain n2 where n2: "list_all2 starts_with n2 (ms @ [b])"
    "receive_batch fuel (bs @ drop (length bs) buf') (length bs) 0 (handed n1 C) = Returned (True, handed n2 (handed n1 C))"
    using receive_batch_closing [OF assms(2-4), of 0 "bs @ drop (length bs) buf'" "rest @ drop (length bs) buf'"
        "length bs" "handed n1 C" fuel] assms(6) by auto
  have "bs \<noteq> []" using framed_length [OF assms(3)] by (auto simp: bs_def)
  with n1(3) n2(2) have "receive_loop fuel (map (RecvData \<circ> concat) css @ RecvData bs # later) buf C =
    Returned (True, handed (n1 @ n2) C)"
    by (simp add: Let_def)
  moreover have "list_all2 starts_with (n1 @ n2) (concat css @ ms @ [b])"
    using list_all2_appendI [OF n1(1) n2(1)] by simp
  ultimately show ?thesis unfolding bs_def by (intro exI [of _ "n1 @ n2"]) (simp add: ReceiveThread_def)
qed

text \<open>What is handed over of a sequence of messages: those up to and including the first notification of the end.\<close>

definition closes :: "u8 list \<Rightarrow> bool" where
  "closes b \<longleftrightarrow> rd_u16 b 2 = Some (server_code MessageTypeFirewallClosing)"

fun until_closing :: "u8 list list \<Rightarrow> u8 list list" where
  "until_closing [] = []"
| "until_closing (b # bs) = b # (if closes b then [] else until_closing bs)"

lemma until_closing_open: "\<forall>b\<in>set bs. \<not> closes b \<Longrightarrow> until_closing bs = bs"
  by (induction bs) auto

lemma until_closing_first: "\<forall>b\<in>set ms. \<not> closes b \<Longrightarrow> closes b \<Longrightarrow> until_closing (ms @ b # rest) = ms @ [b]"
  by (induction ms) auto

lemma first_closing:
  assumes "list_all framed (concat css)" and "\<exists>b\<in>set (concat css). closes b"
  obtains cs1 ms b rest cs2 where "css = cs1 @ (ms @ b # rest) # cs2" "list_all news (concat cs1)" "list_all news ms" "closes b"
proof -
  from assms(2) obtain c where "c \<in> set css" "\<exists>b\<in>set c. closes b" by auto
  then obtain cs1 c cs2 where c: "css = cs1 @ c # cs2" "\<exists>b\<in>set c. closes b" "\<forall>d\<in>set cs1. \<not> (\<exists>b\<in>set d. closes b)"
    using split_list_first_prop [of css "\<lambda>c. \<exists>b\<in>set c. closes b"] by blast
  then obtain ms b rest where b: "c = ms @ b # rest" "closes b" "\<forall>d\<in>set ms. \<not> closes d"
    using split_list_first_prop [of c closes] by blast
  show thesis
  proof (rule that [of cs1 ms b rest cs2])
    show "css = cs1 @ (ms @ b # rest) # cs2" using c(1) b(1) by simp
    show "list_all news (concat cs1)" "list_all news ms"
      using assms(1) c b by (auto simp: list_all_iff news_def closes_def)
  qed (rule b(2))
qed

lemma receive_until:
  assumes "list_all framed (concat css)" and "list_all (\<lambda>ms. ms \<noteq> [] \<and> length (concat ms) \<le> buffer_size) css"
    and "receiveDelegate C" and "length buf = buffer_size" and "buffer_size < fuel"
  shows "\<exists>ns C'. ReceiveThread fuel (map (RecvData \<circ> concat) css) buf C = Returned C' \<and>
    list_all2 starts_with ns (until_closing (concat css)) \<and>
    connection_log C' = connection_log C @ map Received ns @
      (if \<exists>b\<in>set (concat css). closes b
       then (if 0 <s gSocket C then [SocketClosed (gSocket C)] else []) @ (if closedDelegate C then [ConnectionClosed] else [])
       else [])"
proof (cases "\<exists>b\<in>set (concat css). closes b")
  case False
  then have "list_all arrives css"
    using assms(1,2) by (auto simp: list_all_iff arrives_def news_def closes_def)
  from receive_in_order [OF this assms(3-5)] obtain ns C' where
    "ReceiveThread fuel (map (RecvData \<circ> concat) css) buf C = Returned C'"
    "connection_log C' = connection_log C @ map Received ns" "list_all2 starts_with ns (concat css)" by blast
  with False show ?thesis by (intro exI [of _ ns] exI [of _ C']) (simp add: until_closing_open)
next
  case True
  with assms(1) obtain cs1 ms b rest cs2 where c: "css = cs1 @ (ms @ b # rest) # cs2"
    "list_all news (concat cs1)" "list_all news ms" "closes b" using first_closing by blast
  have "list_all arrives cs1"
    using assms(2) c(1,2) by (auto simp: list_all_iff arrives_def)
  moreover have "framed b" using assms(1) c(1) by simp
  moreover have "length (concat ms @ b @ concat rest) \<le> buffer_size" using assms(2) c(1) by simp
  ultimately obtain ns where ns: "list_all2 starts_with ns (concat cs1 @ ms @ [b])"
    "ReceiveThread fuel (map (RecvData \<circ> concat) cs1 @ RecvData (concat ms @ b @ concat rest) # map (RecvData \<circ> concat) cs2) buf C =
      Returned (receive_end (handed ns C))"
    using receive_closing [OF _ c(3) _ c(4) [unfolded closes_def] _ assms(3-5)] by blast
  have "\<forall>d\<in>set (concat cs1 @ ms). \<not> closes d" using c(2,3) by (auto simp: list_all_iff news_def closes_def)
  from until_closing_first [OF this c(4), of "rest @ concat cs2"]
  have "until_closing (concat css) = concat cs1 @ ms @ [b]" by (simp add: c(1))
  moreover have "connection_log (receive_end (handed ns C)) = connection_log C @ map Received ns @
      (if 0 <s gSocket C then [SocketClosed (gSocket C)] else []) @ (if closedDelegate C then [ConnectionClosed] else [])"
    by (simp add: receive_end_def Let_def)
  ultimately show ?thesis using ns True by (intro exI [of _ ns] exI [of _ "receive_end (handed ns C)"]) (simp add: c(1))
qed

text \<open>C14. The notification that the firewall is closing ends the connection. Everything before it is handed
  over, then the notification itself, and nothing that follows it in the same answer or later; the thread closes the
  socket, clears its handle and tells the delegate that the connection is closed, once.\<close>

theorem closing_ends:
  assumes "list_all arrives css" and "list_all news ms"
    and "framed b" and "rd_u16 b 2 = Some (server_code MessageTypeFirewallClosing)"
    and "length (concat ms @ b @ rest) \<le> buffer_size"
    and "receiveDelegate C" and "closedDelegate C" and "0 <s gSocket C"
    and "length buf = buffer_size" and "buffer_size < fuel"
  shows "\<exists>ns C'. ReceiveThread fuel (map (RecvData \<circ> concat) css @ RecvData (concat ms @ b @ rest) # later) buf C = Returned C' \<and>
    list_all2 starts_with ns (concat css @ ms @ [b]) \<and>
    connection_log C' = connection_log C @ map Received ns @ [SocketClosed (gSocket C), ConnectionClosed] \<and>
    gSocket C' = -1 \<and> \<not> receiveThread C'"
proof -
  obtain ns where "list_all2 starts_with ns (concat css @ ms @ [b])"
    "ReceiveThread fuel (map (RecvData \<circ> concat) css @ RecvData (concat ms @ b @ rest) # later) buf C =
      Returned (receive_end (handed ns C))"
    using receive_closing [OF assms(1-6,9,10)] by blast
  with assms(7,8) show ?thesis
    by (intro exI [of _ ns] exI [of _ "receive_end (handed ns C)"]) (simp add: receive_end_def Let_def)
qed

lemma closing_ends_witness:
  "\<exists>ns C'. ReceiveThread 10000 [RecvData ([4, 0, 2, 32] @ [4, 0, 9, 8] @ [4, 0, 3, 32]), RecvError] (replicate buffer_size 0)
      demo_connection = Returned C' \<and> list_all2 starts_with ns [[4, 0, 2, 32], [4, 0, 9, 8]] \<and>
    connection_log C' = map Received ns @ [SocketClosed 3, ConnectionClosed]"
proof -
  have "list_all news [[4, 0, 2, 32]]" "list_all arrives []" using demo_news by simp_all
  moreover have "0 <s (3 :: s32)" by code_simp
  ultimately show ?thesis using closing_ends [OF _ _ demo_news(3,4), of "[]" "[[4, 0, 2, 32]]" "[4, 0, 3, 32]" demo_connection
      "replicate buffer_size 0" 10000 "[RecvError]"]
    by (auto simp: demo_connection buffer_size_def)
qed

end
