(* ===== verification/Console.thy ===== *)
theory Console
  imports ServerConnection Messages PortNames
begin

text \<open>
  The console client (ConsoleTest/Console.cpp): the handler that prints the messages of the extension, and the
  main loop that opens the connection and waits for its end. What the handler prints is the string that its
  calls of \<open>printf\<close> write; NUL-terminated text and the fields are read from the memory at the message.

  A parameter \<open>platform\<close> holds what the program takes from the system: \<open>inet_ntop\<close> for the two
  address families and the constant \<open>AF_MAX\<close>, which depends on the version of the system headers; the other constants
  are those of sys/socket.h. \<open>getSockIoctlRequestName\<close> has no return statement and is never called.
\<close>

section \<open>Printing\<close>

definition digit :: "nat \<Rightarrow> char" where
  "digit d = char_of (if d < 10 then 48 + d else 87 + d)"

fun based :: "nat \<Rightarrow> nat \<Rightarrow> string" where
  "based b n = (if b < 2 \<or> n < b then [digit n] else based b (n div b) @ [digit (n mod b)])"

declare based.simps [simp del]

abbreviation dec :: "nat \<Rightarrow> string" where
  "dec \<equiv> based 10"

text \<open>\<open>%-wlu\<close>, \<open>%wu\<close>, \<open>%0wx\<close>, \<open>%s\<close> and the newline.\<close>

definition left_field :: "nat \<Rightarrow> string \<Rightarrow> string" where
  "left_field w s = s @ replicate (w - length s) CHR '' ''"

definition right_field :: "nat \<Rightarrow> string \<Rightarrow> string" where
  "right_field w s = replicate (w - length s) CHR '' '' @ s"

definition hex_field :: "nat \<Rightarrow> nat \<Rightarrow> string" where
  "hex_field w n = replicate (w - length (based 16 n)) CHR ''0'' @ based 16 n"

definition chars :: "u8 list \<Rightarrow> string" where
  "chars bs = map (\<lambda>b. char_of (unat b)) bs"

abbreviation nl :: string where
  "nl \<equiv> [CHR 0x0A]"

section \<open>Names\<close>

record platform =
  ntop4 :: "u8 list \<Rightarrow> string"
  ntop6 :: "u8 list \<Rightarrow> string"
  AF_MAX :: u8

definition getSockStateName :: "u32 \<Rightarrow> string" where
  "getSockStateName state =
     (if state = 1 then ''connecting'' else if state = 2 then ''connected''
      else if state = 3 then ''disconnecting'' else if state = 4 then ''disconnected''
      else if state = 5 then ''flush_read'' else if state = 6 then ''shutdown''
      else if state = 7 then ''cantrecvmore'' else if state = 8 then ''cantsendmore''
      else if state = 9 then ''closing'' else if state = 10 then ''bound'' else [])"

definition option_names :: "(u32 \<times> string) list" where
  "option_names =
     [(0x0020, ''BROADCAST''), (0x0100, ''OOBINLINE''), (0x0001, ''DEBUG''), (0x0004, ''REUSEADDR''),
      (0x0200, ''REUSEPORT''), (0x0008, ''KEEPALIVE''), (0x0010, ''DONTROUTE''), (0x0080, ''LINGER''),
      (0x1080, ''LINGER_SEC''), (0x1001, ''SNDBUF''), (0x1002, ''RCVBUF''), (0x1003, ''SNDLOWAT''),
      (0x1004, ''RCVLOWAT''), (0x1005, ''SNDTIMEO''), (0x1006, ''RCVTIMEO''), (0x1022, ''NOSIGPIPE''),
      (0x1008, ''TYPE''), (0x1007, ''ERROR''), (0x1020, ''NREAD''), (0x1024, ''NWRITE'')]"

definition getOptionName :: "u32 \<Rightarrow> string" where
  "getOptionName opt = (case map_of option_names opt of Some s \<Rightarrow> s | None \<Rightarrow> ''UNKNOWN OPTION'')"

definition family_names :: "(u8 \<times> string) list" where
  "family_names =
     [(0, ''UNSPEC''), (1, ''UNIX/LOCAL''), (2, ''INET''), (3, ''IMPLINK''), (4, ''PUP''), (5, ''CHAOS''),
      (6, ''XEROX NS''), (7, ''ISO/OSI''), (8, ''ECMA''), (9, ''DATAKIT''), (10, ''CCITT''), (11, ''SNA''),
      (12, ''DECnet''), (13, ''DLI''), (14, ''LAT''), (15, ''HYLINK''), (16, ''APPLETALK''), (17, ''ROUTE''),
      (18, ''LINK''), (19, ''pseudo_XTP''), (20, ''COIP''), (21, ''CNT''), (22, ''pseudo_RTIP''), (23, ''IPX''),
      (24, ''SIP''), (25, ''pseudo_PIP''), (27, ''NDRV''), (28, ''ISDN/E164''), (29, ''pseudo_KEY''),
      (30, ''INET6''), (31, ''NATM''), (32, ''SYSTEM''), (33, ''NETBIOS''), (34, ''PPP''),
      (35, ''pseudo_HDRCMPLT''), (36, ''RESERVED_36'')]"

definition getSockFamilyName :: "platform \<Rightarrow> u8 \<Rightarrow> string" where
  "getSockFamilyName pf fn =
     (case map_of family_names fn of Some s \<Rightarrow> s | None \<Rightarrow> if fn = AF_MAX pf then ''MAX'' else [])"

section \<open>Addresses\<close>

definition ntohs :: "u16 \<Rightarrow> u16" where
  "ntohs w = of_nat (unat w mod 256 * 256 + unat w div 256)"

text \<open>\<open>sa\<close> is the memory at the address; the fields are read at their offsets in \<open>sockaddr_in\<close> and \<open>sockaddr_in6\<close>.\<close>

definition print_endpoint :: "string \<Rightarrow> u16 \<Rightarrow> string" where
  "print_endpoint s port = ''address: '' @ s @ ''  port: '' @ dec (unat port) @ ''('' @ getPortName port @ '')  ''"

definition printfSockaddr :: "platform \<Rightarrow> u8 list option \<Rightarrow> string option" where
  "printfSockaddr pf sa =
     (case sa of None \<Rightarrow> Some ''undefined  ''
      | Some m \<Rightarrow> do {
          family \<leftarrow> rd_u8 m 1;
          if family = 0 then Some ''undefined  '' else do {
            let start = ''family: '' @ dec (unat family) @ ''('' @ getSockFamilyName pf family @ '')  '';
            if family = 2 then do {
              a \<leftarrow> peek 4 4 m;
              port \<leftarrow> rd_u16 m 2;
              Some (start @ print_endpoint (ntop4 pf a) (ntohs port))
            } else if family = 30 then do {
              a \<leftarrow> peek 8 16 m;
              port \<leftarrow> rd_u16 m 2;
              Some (start @ print_endpoint (ntop6 pf a) (ntohs port))
            } else Some (start @ ''address unsuported  '')
          }
        })"

section \<open>The handler\<close>

definition server_types :: "ServerMessagesType list" where
  "server_types =
     [MessageTypeText, MessageTypeRequestRule, MessageTypeRuleAdded, MessageTypeRuleDeleted, MessageTypeRuleDeactivated,
      MessageTypeRuleActivated, MessageTypeSocketData, MessageTypeSocketOpen, MessageTypeSocketClosed,
      MessageTypeFirewallActivated, MessageTypeFirewallDeactivated,
      MessageTypeClientSubscribedAsaProviderOfRules, MessageTypeClientUnsubscribedAsaProviderOfRules,
      MessageTypeClientSubscribedToInfoRules, MessageTypeClientUnsubscribedFromInfoRules,
      MessageTypeClientSubscribedToInfoSockets, MessageTypeClientUnsubscribedFromInfoSockets,
      MessageTypeSfltAttach, MessageTypeSfltDetach, MessageTypeSfltNotify, MessageTypeSfltGetPeerName,
      MessageTypeSfltGetSockName, MessageTypeSfltDataIn, MessageTypeSfltDataOut, MessageTypeSfltConnectIn,
      MessageTypeSfltConnectOut, MessageTypeSfltBind, MessageTypeSfltSetOption, MessageTypeSfltGetOption,
      MessageTypeSfltListen, MessageTypeSfltIoctl, MessageTypeSfltAccept, MessageTypeFirewallClosing]"

definition server_type_of :: "u16 \<Rightarrow> ServerMessagesType option" where
  "server_type_of w = find (\<lambda>t. server_code t = w) server_types"

text \<open>\<open>pid: %-4lu  uid: %-4lu so: %-12llu\<close>, the part all lines share, and the end of a line with an address.\<close>

definition print_who :: "abi \<Rightarrow> struct \<Rightarrow> string \<Rightarrow> u8 list \<Rightarrow> string option" where
  "print_who abi S title m = do {
     pid \<leftarrow> get_field abi S F_pid m;
     uid \<leftarrow> get_field abi S F_uid m;
     so \<leftarrow> get_field abi S F_so m;
     Some (title @ ''pid: '' @ left_field 4 (dec pid) @ ''  uid: '' @ left_field 4 (dec uid) @
           '' so: '' @ left_field 12 (dec so))
   }"

definition print_address :: "platform \<Rightarrow> abi \<Rightarrow> struct \<Rightarrow> string \<Rightarrow> u8 list \<Rightarrow> string option" where
  "print_address pf abi S title m = do {
     a \<leftarrow> printfSockaddr pf (Some (drop (offsetof abi S F_sa) m));
     Some (title @ a @ nl)
   }"

definition print_proto :: "abi \<Rightarrow> struct \<Rightarrow> u8 list \<Rightarrow> string option" where
  "print_proto abi S m = do {
     proto \<leftarrow> get_field abi S F_proto m;
     Some (''  proto: '' @ right_field 4 (dec proto))
   }"

definition print_option :: "abi \<Rightarrow> struct \<Rightarrow> string \<Rightarrow> u8 list \<Rightarrow> string option" where
  "print_option abi S title m = do {
     opt \<leftarrow> get_field abi S F_optionName m;
     Some (title @ hex_field 4 opt @ ''('' @ getOptionName (of_nat opt) @ '') '' @ nl)
   }"

definition print_accept :: "platform \<Rightarrow> abi \<Rightarrow> u8 list \<Rightarrow> string option" where
  "print_accept pf abi m = do {
     soListen \<leftarrow> get_field abi RawMessageSfltAccept F_soListen m;
     let off = offsetof abi RawMessageSfltAccept F_data;
     a \<leftarrow> printfSockaddr pf (Some (drop off m));
     len \<leftarrow> rd_u8 m off;
     b \<leftarrow> printfSockaddr pf (Some (drop (off + unat len) m));
     Some (''  soListen: '' @ dec soListen @ ''  local: '' @ a @ ''remote: '' @ b @ nl)
   }"

text \<open>Two pieces of a line, one after the other.\<close>

definition both :: "string option \<Rightarrow> string option \<Rightarrow> string option" where
  "both p q = do { s \<leftarrow> p; t \<leftarrow> q; Some (s @ t) }"

definition print_message :: "platform \<Rightarrow> abi \<Rightarrow> ServerMessagesType \<Rightarrow> u8 list \<Rightarrow> string option" where
  "print_message pf abi t m = (case t of
     MessageTypeText \<Rightarrow> map_option (\<lambda>s. chars s @ '' '' @ nl) (cstring_at m 4)
   | MessageTypeClientSubscribedToInfoSockets \<Rightarrow> do {
       actionState \<leftarrow> get_field abi RawMessageClientSubscribedToInfoSockets F_actionState m;
       Some (''client registred for info rule: '' @ (if actionState \<noteq> 0 then ''success'' else ''error''))
     }
   | MessageTypeSfltAttach \<Rightarrow>
       both (print_who abi RawMessageSfltAttach ''attach       -> '' m)
         (both (print_proto abi RawMessageSfltAttach m) (Some nl))
   | MessageTypeSfltDetach \<Rightarrow> both (print_who abi RawMessageSfltDetach ''deatch       -> '' m) (Some nl)
   | MessageTypeSfltNotify \<Rightarrow>
       both (print_who abi RawMessageSfltNotify ''notify       -> '' m) (do {
         event \<leftarrow> get_field abi RawMessageSfltNotify F_event m;
         Some (''  event: '' @ dec event @ ''('' @ getSockStateName (of_nat event) @ '')'' @ nl)
       })
   | MessageTypeSfltGetPeerName \<Rightarrow>
       both (print_who abi RawMessageSfltGetPeerName ''get peer name-> '' m)
         (print_address pf abi RawMessageSfltGetPeerName ''  sa: '' m)
   | MessageTypeSfltGetSockName \<Rightarrow>
       both (print_who abi RawMessageSfltGetSockName ''get sock name-> '' m)
         (print_address pf abi RawMessageSfltGetSockName ''  sa: '' m)
   | MessageTypeSfltDataIn \<Rightarrow>
       both (print_who abi RawMessageSfltDataIn ''data in      -> '' m)
         (both (print_proto abi RawMessageSfltDataIn m) (print_address pf abi RawMessageSfltDataIn ''  from: '' m))
   | MessageTypeSfltDataOut \<Rightarrow>
       both (print_who abi RawMessageSfltDataOut ''data out     -> '' m)
         (both (print_proto abi RawMessageSfltDataOut m) (print_address pf abi RawMessageSfltDataOut ''  to  : '' m))
   | MessageTypeSfltConnectIn \<Rightarrow>
       both (print_who abi RawMessageSfltConnectIn ''connect in   -> '' m)
         (print_address pf abi RawMessageSfltConnectIn ''  from: '' m)
   | MessageTypeSfltConnectOut \<Rightarrow>
       both (print_who abi RawMessageSfltConnectOut ''connect out  -> '' m)
         (print_address pf abi RawMessageSfltConnectOut ''  to: '' m)
   | MessageTypeSfltBind \<Rightarrow>
       both (print_who abi RawMessageSfltBind ''bind         -> '' m)
         (print_address pf abi RawMessageSfltBind ''  to: '' m)
   | MessageTypeSfltSetOption \<Rightarrow>
       both (print_who abi RawMessageSfltSetOption ''set option   -> '' m)
         (print_option abi RawMessageSfltSetOption ''  opt: Ox'' m)
   | MessageTypeSfltGetOption \<Rightarrow>
       both (print_who abi RawMessageSfltGetOption ''get option   -> '' m)
         (print_option abi RawMessageSfltGetOption ''  opt: 0x'' m)
   | MessageTypeSfltListen \<Rightarrow> both (print_who abi RawMessageSfltListen ''listen       -> '' m) (Some ('' '' @ nl))
   | MessageTypeSfltIoctl \<Rightarrow> both (print_who abi RawMessageSfltIoctl ''ioctl        -> '' m) (Some ('' '' @ nl))
   | MessageTypeSfltAccept \<Rightarrow>
       both (print_who abi RawMessageSfltAccept ''accept       -> '' m) (print_accept pf abi m)
   | MessageTypeFirewallClosing \<Rightarrow> Some (''Connection Closing '' @ nl)
   | _ \<Rightarrow> Some [])"

definition ReciveMessageHandler :: "platform \<Rightarrow> abi \<Rightarrow> u8 list option \<Rightarrow> string option" where
  "ReciveMessageHandler pf abi message =
     (case message of None \<Rightarrow> Some []
      | Some m \<Rightarrow> do {
          ty \<leftarrow> rd_u16 m 2;
          case server_type_of ty of None \<Rightarrow> Some [] | Some t \<Rightarrow> print_message pf abi t m
        })"

section \<open>The main loop\<close>

text \<open>
  The main thread as a program counter: before \<open>Open\<close>, connected, waiting on the condition variable, woken,
  before \<open>sleep(1)\<close>, done. \<open>pthread_cond_wait\<close> returns after a broadcast (\<open>CloseHandle\<close>), and it may return
  without one, after a signal handler has run for instance (\<open>spurious_return\<close>, a step of its own).
\<close>

datatype main_pc = Opening | Opened | Waiting | Woken | Pausing | Finished

record console =
  con_pc :: main_pc
  userClosed :: bool
  connection :: ServerConnection

text \<open>\<open>CloseHandle\<close>: the broadcast wakes the main thread if it waits, and is lost otherwise.\<close>

definition CloseHandle :: "console \<Rightarrow> console" where
  "CloseHandle S = S\<lparr>con_pc := (if con_pc S = Waiting then Woken else con_pc S)\<rparr>"

definition SignalHandler :: "s32 \<Rightarrow> console \<Rightarrow> console" where
  "SignalHandler closed S = S\<lparr>userClosed := True, connection := snd (Close closed (connection S))\<rparr>"

definition main_step :: "connection_attempt \<Rightarrow> console \<Rightarrow> console" where
  "main_step e S = (case con_pc S of
     Opening \<Rightarrow> (case Open e True True (connection S) of
        (ok, C) \<Rightarrow> S\<lparr>con_pc := (if ok then Opened else Pausing), connection := C\<rparr>)
   | Opened \<Rightarrow> S\<lparr>con_pc := Waiting\<rparr>
   | Waiting \<Rightarrow> S
   | Woken \<Rightarrow> S\<lparr>con_pc := (if userClosed S then Finished else Pausing)\<rparr>
   | Pausing \<Rightarrow> S\<lparr>con_pc := Opening\<rparr>
   | Finished \<Rightarrow> S)"

definition spurious_return :: "console \<Rightarrow> console" where
  "spurious_return S = S\<lparr>con_pc := (if con_pc S = Waiting then Woken else con_pc S)\<rparr>"

text \<open>The receiving thread runs until it is blocked or ends; when it ends it calls the delegate, \<open>CloseHandle\<close>.\<close>

definition receive_event :: "ServerConnection \<Rightarrow> console \<Rightarrow> console" where
  "receive_event C S =
     (if receiveThread C \<or> \<not> closedDelegate C then S\<lparr>connection := C\<rparr> else CloseHandle (S\<lparr>connection := C\<rparr>))"

text \<open>
  One step of the whole. A spurious return is a step when there is no receiving thread: with one, the main
  loop would go on to a second \<open>Open\<close> and a second receiving thread, of which the model has one.
\<close>

inductive console_step :: "console \<Rightarrow> console \<Rightarrow> bool" where
  Main: "console_step S (main_step e S)"
| Receive: "receiveThread (connection S) \<Longrightarrow> ReceiveThread fuel rs buf (connection S) = Returned C \<Longrightarrow>
    console_step S (receive_event C S)"
| Signal: "console_step S (SignalHandler closed S)"
| Spurious: "\<not> receiveThread (connection S) \<Longrightarrow> console_step S (spurious_return S)"


inductive_cases console_stepE: "console_step S T"


section \<open>Facts\<close>

text \<open>The \<open>switch\<close> has a case for every type but one.\<close>

lemma server_type_of_code: "t \<noteq> MessageTypeSfltUnregistered \<Longrightarrow> server_type_of (server_code t) = Some t"
  by (cases t) (simp_all add: server_type_of_def server_types_def)

text \<open>Nothing is read behind the first 320 bytes of a message: the pieces of a line exist when there are that many.\<close>

definition printed_structs :: "struct list" where
  "printed_structs =
     [RawMessageClientSubscribedToInfoSockets, RawMessageSfltAttach, RawMessageSfltDetach, RawMessageSfltNotify,
      RawMessageSfltGetPeerName, RawMessageSfltGetSockName, RawMessageSfltDataIn, RawMessageSfltDataOut,
      RawMessageSfltConnectIn, RawMessageSfltConnectOut, RawMessageSfltBind, RawMessageSfltSetOption,
      RawMessageSfltGetOption, RawMessageSfltListen, RawMessageSfltIoctl, RawMessageSfltAccept]"

lemma printed_small:
  assumes "S \<in> set printed_structs"
  shows "sizeof abi S \<le> 40"
proof -
  have "\<forall>S\<in>set printed_structs. sizeof I386 S \<le> 40" "\<forall>S\<in>set printed_structs. sizeof X86_64 S \<le> 40"
    by code_simp+
  then show ?thesis using assms by (cases abi) auto
qed

lemma printed_field:
  assumes "S \<in> set printed_structs" and "f \<in> fst ` set S" and "320 \<le> length m"
  shows "get_field abi S f m \<noteq> None" and "offsetof abi S f \<le> 40"
proof -
  obtain p t where f: "field abi S f = Some (p, t)" using field_defined [OF assms(2)] by blast
  have "p + csize t \<le> 40" using field_bound [OF f] printed_small [OF assms(1), of abi] by simp
  with f assms(3) show "get_field abi S f m \<noteq> None" "offsetof abi S f \<le> 40"
    by (simp_all add: get_field_def peek_def offsetof_def)
qed

lemma printfSockaddr_reads: "24 \<le> length m \<Longrightarrow> printfSockaddr pf (Some m) \<noteq> None"
  by (simp add: printfSockaddr_def rd_u8_def peek_def rd_u16_def Let_def)

lemma both_reads: "p \<noteq> None \<Longrightarrow> q \<noteq> None \<Longrightarrow> both p q \<noteq> None"
  by (auto simp: both_def)

lemma print_who_reads:
  assumes "S \<in> set printed_structs" and "{F_pid, F_uid, F_so} \<subseteq> fst ` set S" and "320 \<le> length m"
  shows "print_who abi S title m \<noteq> None"
proof -
  have "get_field abi S F_pid m \<noteq> None" "get_field abi S F_uid m \<noteq> None" "get_field abi S F_so m \<noteq> None"
    using printed_field(1) [OF assms(1) _ assms(3)] assms(2) by auto
  then obtain p u s where "get_field abi S F_pid m = Some p" "get_field abi S F_uid m = Some u" "get_field abi S F_so m = Some s"
    by blast
  then show ?thesis by (simp add: print_who_def)
qed

lemma print_address_reads:
  assumes "S \<in> set printed_structs" and "F_sa \<in> fst ` set S" and "320 \<le> length m"
  shows "print_address pf abi S title m \<noteq> None"
proof -
  have "printfSockaddr pf (Some (drop (offsetof abi S F_sa) m)) \<noteq> None"
    using printed_field(2) [OF assms, of abi] assms(3) by (intro printfSockaddr_reads) simp
  then obtain a where "printfSockaddr pf (Some (drop (offsetof abi S F_sa) m)) = Some a" by blast
  then show ?thesis by (simp add: print_address_def)
qed

lemma print_proto_reads:
  assumes "S \<in> set printed_structs" and "F_proto \<in> fst ` set S" and "320 \<le> length m"
  shows "print_proto abi S m \<noteq> None"
  using printed_field(1) [OF assms, of abi] by (auto simp: print_proto_def)

lemma print_option_reads:
  assumes "S \<in> set printed_structs" and "F_optionName \<in> fst ` set S" and "320 \<le> length m"
  shows "print_option abi S title m \<noteq> None"
  using printed_field(1) [OF assms, of abi] by (auto simp: print_option_def)

lemma print_accept_reads:
  assumes "320 \<le> length m"
  shows "print_accept pf abi m \<noteq> None"
proof -
  have S: "RawMessageSfltAccept \<in> set printed_structs" by (simp add: printed_structs_def)
  let ?off = "offsetof abi RawMessageSfltAccept F_data"
  have off: "?off \<le> 40" "get_field abi RawMessageSfltAccept F_soListen m \<noteq> None"
    using printed_field [OF S _ assms, of _ abi] by (simp_all add: struct_defs)
  have rd: "printfSockaddr pf (Some (drop (?off + n) m)) \<noteq> None" if "n < 256" for n
    using off(1) that assms by (intro printfSockaddr_reads) simp
  have "unat (m ! ?off) < 256" using unsigned_less [of "m ! ?off"] by simp
  with rd [of 0] rd [of "unat (m ! ?off)"] obtain a b where "printfSockaddr pf (Some (drop ?off m)) = Some a"
    "printfSockaddr pf (Some (drop (?off + unat (m ! ?off)) m)) = Some b" by auto
  moreover obtain l where "get_field abi RawMessageSfltAccept F_soListen m = Some l" using off(2) by blast
  moreover have "rd_u8 m ?off = Some (m ! ?off)" using off(1) assms by (simp add: rd_u8_def)
  ultimately show ?thesis by (simp add: print_accept_def)
qed

lemmas print_reads = both_reads print_who_reads print_address_reads print_proto_reads print_option_reads
  print_accept_reads printed_field(1)

lemma print_message_reads:
  assumes m: "320 \<le> length m" and nul: "t = MessageTypeText \<Longrightarrow> 0 \<in> set (drop 4 m)"
  shows "print_message pf abi t m \<noteq> None"
proof (cases "t = MessageTypeText")
  case True
  have "until_nul bs \<noteq> None" if "0 \<in> set bs" for bs using that by (induction bs) auto
  with nul True show ?thesis by (auto simp: print_message_def cstring_at_def)
next
  case False
  have "get_field abi RawMessageSfltNotify F_event m \<noteq> None"
    "get_field abi RawMessageClientSubscribedToInfoSockets F_actionState m \<noteq> None"
    by (rule printed_field(1) [OF _ _ m]; simp add: printed_structs_def struct_defs)+
  with False show ?thesis
    by (cases t; simp add: print_message_def del: not_None_eq)
      (rule both_reads print_who_reads print_address_reads print_proto_reads print_option_reads print_accept_reads m |
       simp add: printed_structs_def struct_defs | fastforce)+
qed

text \<open>What is found in a message is found in memory that starts with it.\<close>

lemma get_field_append: "get_field abi S f b = Some v \<Longrightarrow> get_field abi S f (b @ rest) = Some v"
  by (auto simp: get_field_def peek_def split: option.splits if_splits)

lemma read_sockaddr_drop:
  "read_sockaddr off b = Some sa \<Longrightarrow> \<exists>tail. drop off (b @ rest) = sa @ tail"
proof -
  assume "read_sockaddr off b = Some sa"
  then obtain len :: u8 where l: "off + unat len \<le> length b" "sa = take (unat len) (drop off b)"
    by (auto simp: read_sockaddr_def peek_def bind_eq_Some_conv split: if_splits)
  then have "drop off (b @ rest) = sa @ (drop (unat len) (drop off b) @ rest)"
    by (simp del: drop_drop add: append_assoc [symmetric])
  then show ?thesis ..
qed

lemma ntohs_bytes: "ntohs (of_nat (le_nat [a, b])) = of_nat (256 * unat a + unat b)"
proof -
  have "unat a < 256" "unat b < 256" using unsigned_less [of a] unsigned_less [of b] by simp_all
  then have "unat (of_nat (unat a + 256 * unat b) :: u16) = unat a + 256 * unat b" by (simp only: unat_of_nat) simp
  with \<open>unat a < 256\<close> show ?thesis by (simp add: ntohs_def del: of_nat_add of_nat_mult) (simp add: mult.commute)
qed




section \<open>Properties\<close>

definition demo_platform :: platform where
  "demo_platform = \<lparr>ntop4 = (\<lambda>bs. if bs = [10, 0, 0, 1] then ''10.0.0.1'' else ''?''), ntop6 = (\<lambda>_. ''::''), AF_MAX = 38\<rparr>"

text \<open>C20. The handler prints every message without leaving it far behind. Whatever the bytes of a
  message are, its type, its addresses and their lengths included, the handler reads nothing behind the first 320 bytes
  of the memory it is given, so it does not fault when there are as many; a text is read up to its NUL, which must be
  there. A NULL message prints nothing.\<close>

theorem handler_total:
  assumes "320 \<le> length m" and "rd_u16 m 2 = Some (server_code MessageTypeText) \<Longrightarrow> 0 \<in> set (drop 4 m)"
  shows "ReciveMessageHandler pf abi (Some m) \<noteq> None \<and> ReciveMessageHandler pf abi None = Some []"
proof -
  obtain ty where ty: "rd_u16 m 2 = Some ty" using assms(1) by (auto simp: rd_u16_def peek_def)
  show ?thesis
  proof (cases "server_type_of ty")
    case None
    with ty show ?thesis by (simp add: ReciveMessageHandler_def)
  next
    case (Some t)
    then have "server_code t = ty" by (auto simp: server_type_of_def find_Some_iff)
    with assms ty have "print_message pf abi t m \<noteq> None" by (intro print_message_reads) auto
    with Some ty show ?thesis by (simp add: ReciveMessageHandler_def)
  qed
qed

lemma handler_total_witness:
  "ReciveMessageHandler demo_platform X86_64 (Some ([16, 0, 17, 32] @ replicate 320 255)) \<noteq> None"
proof -
  have "rd_u16 ([16, 0, 17, 32] @ replicate 320 255) 2 = Some 8209" by (simp add: rd_u16_def peek_def)
  then show ?thesis using handler_total [of "[16, 0, 17, 32] @ replicate 320 255" demo_platform X86_64] by simp
qed

text \<open>C19. From the kernel to the screen: a data-out event on an IPv4 socket. The message that
  \<open>CreateSfltDataOut\<close> makes for an address of 16 bytes with port bytes \<open>p1 p2\<close> and address bytes \<open>as\<close> declares all its
  bytes, and the handler, given memory that starts with them, prints one line with exactly the process, the user,
  the socket, the protocol, the address and the port in host order, on both architectures.\<close>

theorem data_out_shown:
  assumes "grants k NewMessage n" and "length as = 4" and "length zs = 8"
  shows "\<exists>x. CreateSfltDataOut k abi n pid uid so proto (Some (16 # 2 # p1 # p2 # as @ zs)) = Some (Some x) \<and>
    map_option unat (raw_size x) = Some (length (raw x)) \<and>
    ReciveMessageHandler pf abi (Some (raw x @ rest)) =
      Some (''data out     -> pid: '' @ left_field 4 (dec (unat pid)) @ ''  uid: '' @ left_field 4 (dec (unat uid)) @
            '' so: '' @ left_field 12 (dec (unat so)) @ ''  proto: '' @ right_field 4 (dec (unat (ucast proto :: u16))) @
            ''  to  : family: 2(INET)  '' @ print_endpoint (ntop4 pf as) (of_nat (256 * unat p1 + unat p2)) @ nl)"
proof -
  let ?sa = "16 # 2 # p1 # p2 # as @ zs" and ?S = RawMessageSfltDataOut
  have ok: "sockaddr_ok (Some ?sa)" using assms(2,3) by (simp add: sockaddr_ok_def)
  obtain x where x: "CreateSfltDataOut k abi n pid uid so proto (Some ?sa) = Some (Some x)"
    "raw_type x = Some (server_code MessageTypeSfltDataOut)" "map_option unat (raw_size x) = Some (length (raw x))"
    "get_field abi ?S F_pid (raw x) = Some (unat pid)" "get_field abi ?S F_uid (raw x) = Some (unat uid)"
    "get_field abi ?S F_so (raw x) = Some (unat so)"
    "get_field abi ?S F_proto (raw x) = Some (unat (ucast proto :: u16))"
    "read_sockaddr (offsetof abi ?S F_sa) (raw x) = Some (sockaddr_bytes (Some ?sa))"
    using data_out_fields [OF assms(1) ok] by blast
  let ?m = "raw x @ rest"
  have ty: "rd_u16 ?m 2 = Some (server_code MessageTypeSfltDataOut)"
    using x(2) by (auto simp: raw_type_def rd_u16_def peek_def split: if_splits)
  have who: "print_who abi ?S t ?m = Some (t @ ''pid: '' @ left_field 4 (dec (unat pid)) @ ''  uid: '' @
      left_field 4 (dec (unat uid)) @ '' so: '' @ left_field 12 (dec (unat so)))" for t
    using get_field_append [OF x(4)] get_field_append [OF x(5)] get_field_append [OF x(6)] by (simp add: print_who_def)
  have proto: "print_proto abi ?S ?m = Some (''  proto: '' @ right_field 4 (dec (unat (ucast proto :: u16))))"
    using get_field_append [OF x(7)] by (simp add: print_proto_def)
  have sb: "sockaddr_bytes (Some ?sa) = ?sa" using assms(2,3) by (simp add: sockaddr_bytes_def)
  obtain tail where tail: "drop (offsetof abi ?S F_sa) ?m = ?sa @ tail"
    using read_sockaddr_drop [OF x(8), of rest] unfolding sb by blast
  have dec2: "dec 2 = ''2''" by code_simp
  have "printfSockaddr pf (Some (?sa @ tail)) = Some (''family: 2(INET)  '' @
      print_endpoint (ntop4 pf as) (of_nat (256 * unat p1 + unat p2)))"
    using assms(2) ntohs_bytes [of p1 p2] dec2
    by (simp add: printfSockaddr_def rd_u8_def peek_def rd_u16_def getSockFamilyName_def family_names_def)
  then have "print_address pf abi ?S t ?m = Some (t @ ''family: 2(INET)  '' @
      print_endpoint (ntop4 pf as) (of_nat (256 * unat p1 + unat p2)) @ nl)" for t
    unfolding print_address_def tail by simp
  with who proto have "print_message pf abi MessageTypeSfltDataOut ?m =
      Some (''data out     -> pid: '' @ left_field 4 (dec (unat pid)) @ ''  uid: '' @ left_field 4 (dec (unat uid)) @
            '' so: '' @ left_field 12 (dec (unat so)) @ ''  proto: '' @ right_field 4 (dec (unat (ucast proto :: u16))) @
            ''  to  : family: 2(INET)  '' @ print_endpoint (ntop4 pf as) (of_nat (256 * unat p1 + unat p2)) @ nl)"
    by (simp add: print_message_def both_def)
  moreover have "server_type_of (server_code MessageTypeSfltDataOut) = Some MessageTypeSfltDataOut"
    by (rule server_type_of_code) simp
  ultimately show ?thesis using x(1,3) ty by (intro exI [of _ x]) (simp add: ReciveMessageHandler_def del: server_code.simps)
qed

lemma data_out_shown_witness:
  "\<exists>x. CreateSfltDataOut plain_kernel X86_64 0 7 501 9 6 (Some [16, 2, 0, 80, 10, 0, 0, 1, 0, 0, 0, 0, 0, 0, 0, 0]) = Some (Some x) \<and>
    ReciveMessageHandler demo_platform X86_64 (Some (raw x)) =
      Some (''data out     -> pid: 7     uid: 501  so: 9             proto:    6  to  : family: 2(INET)  address: 10.0.0.1  port: 80(HTTP, HyperText Transfer Protocol.)  '' @ nl)"
proof -
  have "getPortName 80 = ''HTTP, HyperText Transfer Protocol.''"
    by (rule getPortName_known) (simp add: port_names_def port_names_1_def)
  moreover have "left_field 4 (dec 7) = ''7   ''" "left_field 4 (dec 501) = ''501 ''" "left_field 12 (dec 9) = ''9           ''"
    "right_field 4 (dec 6) = ''   6''" "dec 80 = ''80''"
    by code_simp+
  moreover have "replicate 8 (0 :: u8) = [0, 0, 0, 0, 0, 0, 0, 0]" by (simp add: numeral_eq_Suc)
  ultimately show ?thesis
    using data_out_shown [of plain_kernel 0 "[10, 0, 0, 1]" "replicate 8 0" X86_64 7 501 9 6 0 80 demo_platform "[]"]
    by (auto simp: demo_platform_def print_endpoint_def)
qed

text \<open>C38. Interrupting a console that waits ends it. The signal handler closes the socket, the
  blocked \<open>recv\<close> fails, the receiving thread clears up and reports the end, and the main thread is woken and
  finishes. On the way the descriptor is closed a second time, because \<open>Close\<close> does not reset \<open>gSocket\<close>; by then the number
  may belong to another file.\<close>

theorem interrupt_ends_console:
  assumes "con_pc S = Waiting" and "closedDelegate (connection S)" and "0 <s gSocket (connection S)"
  shows "\<exists>C. ReceiveThread fuel (RecvError # rs) buf (connection (SignalHandler closed S)) = Returned C \<and>
    con_pc (main_step e (receive_event C (SignalHandler closed S))) = Finished \<and>
    connection_log C = connection_log (connection S) @
      [SocketClosed (gSocket (connection S)), SocketClosed (gSocket (connection S)), ConnectionClosed]"
  using assms
  by (simp add: ReceiveThread_def receive_end_def SignalHandler_def Close_def receive_event_def CloseHandle_def
      main_step_def Let_def)

definition demo_console :: console where
  "demo_console = \<lparr>con_pc = Waiting, userClosed = False, connection = \<lparr>gSocket = 3, receiveThread = True,
     receiveDelegate = True, closedDelegate = True, connection_log = []\<rparr>\<rparr>"

lemma demo_console: "con_pc demo_console = Waiting" "closedDelegate (connection demo_console)"
    "gSocket (connection demo_console) = 3" "receiveThread (connection demo_console)" "connection_log (connection demo_console) = []"
    "0 <s (3 :: s32)" "receiveDelegate (connection demo_console)"
  by (simp_all add: demo_console_def word_sless_alt)

lemma interrupt_ends_console_witness:
  "\<exists>C. ReceiveThread 1 [RecvError] [] (connection (SignalHandler 0 demo_console)) = Returned C \<and>
    connection_log C = [SocketClosed 3, SocketClosed 3, ConnectionClosed]"
  using interrupt_ends_console [OF demo_console(1,2)] demo_console(3,5,6) by fastforce





end
