(* ===== verification/Spec2Isabelle.thy ===== *)
theory Spec2Isabelle
  imports KcSend SendThread Console
begin

text \<open>
  A verification library for \<open>watch\<close>, a socket firewall for Mac OS X: a kernel extension (src/Kext)
  that registers a filter for every TCP, UDP and ICMP socket, keeps a list of rules, and tells its
  clients, over a kernel control socket, what the sockets do; the clients are user processes (src/Shared,
  src/ConsoleTest) that send it commands. The development models the extension and the client side of the
  connection: every operation of their components that changes state is a definition, translated from the C++ source.

  The parts of the program and the theories that model them, in the order of their dependencies:

  \<^item> \<open>Prelude\<close>: machine integers, addresses, pointers and heaps (a heap maps an address to an object, a freed
    or never allocated address to None, so that a use after free is the value None of an operation); the
    kernel as a parameter (which allocations succeed, what fresh memory holds, the clock, the three atomics of
    libkern/OSAtomic.h); bytes and C strings; sequences of operations with the locales \<open>total_ops\<close> (every
    admissible operation succeeds and keeps an invariant) and \<open>simulation\<close> (every operation refines an
    operation on abstract values).
  \<^item> \<open>Chain\<close>: the pointer manipulations the sources repeat (unlink, push to the front, insert before, append,
    search, queues with head and last pointer), with the locales \<open>link_field\<close> and \<open>two_links\<close> for objects
    with one or two link fields; they are interpreted for rules, applications, cookies, deferred packets,
    clients and message nodes.
  \<^item> \<open>SimpleBase\<close> (Kext/simpleBase.h): reference counts in 32 bits; \<open>counted_heap\<close> relates them to the number of
    owners. It also has the states of a pointer to a lock (\<open>lock_ptr\<close>: NULL, a lock, a lock that was freed).
  \<^item> \<open>MessageType\<close>, \<open>Layout\<close>, \<open>RawMessages\<close> (Shared/messageType.h): classes and types of messages; the layout of
    a C struct on i386 and x86_64 (offsets, padding, size), fields read and written at their offsets; the structs
    of the protocol with their \<open>Init\<close>, size and access functions.
  \<^item> \<open>Messages\<close> (Kext/messages.cpp): the constructors \<open>Message::Create...\<close>, giving the bytes of a message.
  \<^item> \<open>Rule\<close>, \<open>Rules\<close> (Kext/rule.h, rule.cpp): a rule made from a message, the comparison of rules, and the sorted,
    doubly linked rule base with look-up, insertion, deletion, activation and release.
  \<^item> \<open>Client\<close>, \<open>SendThread\<close> (Kext/client.h, client.cpp): a client's subscriptions, message queue and life cycle; its
    delivery thread as a state machine (\<open>pc\<close>, one step between two points where others can act), interleaved in
    \<open>mailbox_step\<close> with posted messages, the disconnect and the wake-ups meant for other clients (\<open>Wakeup\<close>: every
    client sleeps on event 0, so a wake-up for one of them wakes all that sleep).
  \<^item> \<open>Application\<close> (Kext/application.h, application.cpp): the records of processes, their list, and one turn of the
    thread that removes the records of ended processes.
  \<^item> \<open>Cookie\<close> (Kext/cookie.h, cookie.cpp): what the filter attaches to a socket, with its queue of deferred packets.
  \<^item> \<open>Clients\<close>, \<open>Firewall\<close> (Kext/firewall.h, firewall.cpp, watch.cpp): the list of clients and the broadcast; the
    callbacks of the socket filter, connecting and disconnecting clients, loading and unloading the extension.
  \<^item> \<open>KcSend\<close> (Kext/firewall.cpp): the commands of a client, one definition per case of the switch, and the loop over
    a buffer of commands.
  \<^item> \<open>ServerConnection\<close> (Shared/ServerConnection.h, ServerConnection.cpp): the client side of the control socket; the
    receiving thread walks over what \<open>recv\<close> gives and hands every message to a delegate.
  \<^item> \<open>Console\<close>, \<open>PortNames\<close> (ConsoleTest/Console.cpp, portNames.cpp): the console program; the text its handler
    prints for a message, and its main loop as a state machine together with the receiving thread and the signal
    handler. \<open>console_step\<close> also has the return of \<open>pthread_cond_wait\<close> without a signal, which the standard permits
    (\<open>spurious_return\<close>).

  How the state corresponds to the code. A class is a record with the names of its fields; an object lives in a heap
  of its class, at an address that counts the allocations (\<open>rules_made\<close>, \<open>nodes_made\<close>, ...), so that no address is
  given out twice. NULL is None. An operation returns None exactly when the code would dereference a pointer that does
  not point to a live object, read or write outside a buffer, or lock a lock that is not allocated; errors that the
  code reports are values. The code between lock and unlock is one step. A lock whose pointer is reset
  to NULL whenever it is freed is there or not (\<open>rules_lock\<close>, \<open>lockClientsQueue\<close>); where a failing initialisation frees
  a lock and keeps the pointer, the field is a \<open>lock_ptr\<close>, and freeing that lock again, or freeing NULL, is a fault.
  Memory that the code does not write is whatever the allocator returned: the bytes of a message come from the kernel
  parameter, and a new cookie and a new deferred packet start from an argument \<open>fresh\<close>; that the kernel's
  \<open>operator new\<close> clears memory is a hypothesis of the two theorems that rest on it. Loops over pointers are
  \<open>partial_function (option)\<close>, where not returning is None, so that every theorem that gives a result proves termination.
  \<open>KcSend\<close> has fuel, one unit per message; \<open>batch_served\<close> shows that one more than the number of messages is enough, and
  \<open>zero_size_hangs\<close> that no fuel is enough for a message of size zero. The receiving thread of a client has fuel for each
  inner loop; more than the size of its buffer (8192) is enough for whole messages. The waiting loop of the unloading counts from 2
  down, as in the code.

  What is shown. \<open>Rules\<close>: insertion, deletion and activation refine functions on sorted lists as long as the back links
  are intact (\<open>exact\<close>), any sequence of operations succeeds and keeps the weaker invariant \<open>rules_wf\<close>, and the back
  link that an appended rule misses makes a deletion empty the rule base. \<open>Messages\<close>: every message that is created
  has the header it should have, and addresses and fields can be read back. \<open>Client\<close> and \<open>SendThread\<close>: counts are
  exact, nothing is freed too early or too late under any interleaving that starts with the thread, what is delivered is a
  subsequence of what was posted, a round delivers everything; and the orders of events the code does not survive: a
  disconnect while the thread starts (a use after free) and a wake-up that comes before the thread sleeps (the client
  stays allocated until a wake-up meant for another client arrives).
  \<open>Application\<close>, \<open>Cookie\<close>: the lists and counts stay consistent, deferred packets leave in order.
  \<open>Firewall\<close> and \<open>KcSend\<close>: the callbacks never refuse anything, broadcasts reach exactly the subscribed clients,
  clients and sockets come and go without disturbing the others, starting either succeeds or undoes what it
  had done (but for the addresses of freed locks it leaves behind), stopping releases everything or is refused, a
  batch of commands is served completely. \<open>ServerConnection\<close> and \<open>Console\<close>: whole messages are handed over one by one,
  the notification of the closing ends the connection, the handler stays within 320 bytes of a message and prints
  what the extension put into it; and the ways in which the console waits for an end nobody reports or closes a
  descriptor twice. The properties of
  this theory put both sides together: what is posted for a client is what its delegate gets, up to and including the
  announcement that the firewall closes (\<open>until_closing\<close>), which ends the connection.

  Assumptions. \<open>atomics_documented\<close> states the documented behaviour of the atomics; bounds of the form \<open>_ < 2 ^ 32\<close> keep
  32-bit reference counts from wrapping (4 billion message nodes). Interrupt masking, the priority of threads and
  the memory order of the processor are not modelled.

  Not modelled: writing to the log of the kernel; \<open>Message::CreateTextFromCookie\<close>, \<open>testOpenFile\<close> and
  \<open>vn_rdwr_64FromKernelCode\<close>, which nothing calls; the mbuf tags of \<open>SocketCookies\<close> (\<open>PrependMbufHeader\<close>, \<open>CheckTag\<close>,
  \<open>SetTag\<close>), which nothing calls and which only pass on to the kernel; the statements of \<open>DataIn\<close> and
  \<open>ConnectIn\<close> behind their first \<open>return\<close>, which are never reached; \<open>getSockIoctlRequestName\<close> of the console, which has no
  return statement and is never called; the installation of the console's signal handlers.
\<close>

section \<open>Properties\<close>

text \<open>What a connected client has been sent consists of framed messages, a subsequence of those posted.\<close>

lemma sent_framed:
  assumes "atomics_documented k" and "InitWithClient k n False ref u new_client = (True, c)"
    and reach: "mailbox_reach k a (connected_state a c) T"
  shows "subseq (st_sent T) (st_posted T)" and "list_all framed (st_posted T)" and "list_all framed (st_sent T)"
proof -
  obtain as bs where "fifo T as bs" using connected_reach [OF assms(1-3)] .
  then show s: "subseq (st_sent T) (st_posted T)" by (auto simp: fifo_def intro: subseq_prefix)
  have "\<forall>b\<in>set (st_posted T). framed b"
    by (rule posted_framed [OF reach]) (simp add: connected_state_def)
  then show p: "list_all framed (st_posted T)" by (simp add: list_all_iff)
  have "set (st_sent T) \<subseteq> set (st_posted T)" using list_emb_set [OF s] by blast
  with p show "list_all framed (st_sent T)" by (auto simp: list_all_iff)
qed

lemma until_closing_subseq: "subseq bs cs \<Longrightarrow> subseq (until_closing bs) cs"
proof -
  have "subseq (until_closing bs) bs" by (induction bs) auto
  then show "subseq bs cs \<Longrightarrow> subseq (until_closing bs) cs" by (rule subseq_order.trans)
qed

text \<open>C5. From the kernel to the client's delegate. When a connected client's thread is past its delay
  and no send has failed so far, it runs to the end of its round (with room in the client's queue) and then, however
  the bytes are divided over the answers of \<open>recv\<close> (whole messages, no more than the buffer holds), the client's
  receiving thread hands over every message posted up to and including the first that announces the closing of the
  firewall (all of them when none does), once and in order, each as memory that starts with the message. Nothing
  but that announcement makes it end the connection.\<close>

theorem posted_is_received:
  assumes "atomics_documented k" and "InitWithClient k n False ref u new_client = (True, c)"
    and "mailbox_reach k a (connected_state a c) T" and "st_pc T = Delayed" and "st_connected T" and "st_perfect T"
    and "receiveDelegate C" and "length buf = buffer_size" and "buffer_size < fuel"
  shows "\<exists>steps T'. runs k a steps T = Some T' \<and> st_pc T' = Draining None \<and> st_posted T' = st_posted T \<and>
    (\<forall>css. concat css = st_sent T' \<longrightarrow> list_all (\<lambda>ms. ms \<noteq> [] \<and> length (concat ms) \<le> buffer_size) css \<longrightarrow>
      (\<exists>ms C'. ReceiveThread fuel (map (RecvData \<circ> concat) css) buf C = Returned C' \<and>
        list_all2 starts_with ms (until_closing (st_posted T)) \<and>
        connection_log C' = connection_log C @ map Received ms @
          (if \<exists>b\<in>set (st_posted T). rd_u16 b 2 = Some (server_code MessageTypeFirewallClosing)
           then (if 0 <s gSocket C then [SocketClosed (gSocket C)] else []) @ (if closedDelegate C then [ConnectionClosed] else [])
           else [])))"
proof -
  obtain steps T' where T': "runs k a steps T = Some T'" "st_sent T' = st_posted T" "st_pc T' = Draining None"
    "st_posted T' = st_posted T"
    using round_delivers_queue [OF assms(1-6)] by metis
  show ?thesis
  proof (rule exI [of _ steps], rule exI [of _ T'], intro conjI allI impI)
    fix css assume "concat css = st_sent T'" and small: "list_all (\<lambda>ms. ms \<noteq> [] \<and> length (concat ms) \<le> buffer_size) css"
    then have e: "concat css = st_posted T" using T'(2) by simp
    with sent_framed(2) [OF assms(1-3)] have "list_all framed (concat css)" by simp
    from receive_until [OF this small assms(7-9)]
    show "\<exists>ms C'. ReceiveThread fuel (map (RecvData \<circ> concat) css) buf C = Returned C' \<and>
        list_all2 starts_with ms (until_closing (st_posted T)) \<and>
        connection_log C' = connection_log C @ map Received ms @
          (if \<exists>b\<in>set (st_posted T). rd_u16 b 2 = Some (server_code MessageTypeFirewallClosing)
           then (if 0 <s gSocket C then [SocketClosed (gSocket C)] else []) @ (if closedDelegate C then [ConnectionClosed] else [])
           else [])"
      unfolding e closes_def .
  qed (rule T'(1), rule T'(3), rule T'(4))
qed

lemma posted_is_received_witness:
  "\<exists>steps T'. runs plain_kernel 0 steps demo_3 = Some T' \<and> st_pc T' = Draining None \<and>
    (\<forall>css. concat css = st_sent T' \<longrightarrow> list_all (\<lambda>ms. ms \<noteq> [] \<and> length (concat ms) \<le> buffer_size) css \<longrightarrow>
      (\<exists>ms C'. ReceiveThread 10000 (map (RecvData \<circ> concat) css) (replicate buffer_size 0) demo_connection = Returned C' \<and>
        list_all2 starts_with ms [[4, 0, 2, 32]] \<and> connection_log C' = map Received ms))"
proof -
  have p: "st_posted demo_3 = [[4, 0, 2, 32]]" by (simp add: demo_defs)
  have n: "rd_u16 [4, 0, 2, 32] 2 \<noteq> Some (server_code MessageTypeFirewallClosing)" by code_simp
  then have u: "until_closing (st_posted demo_3) = [[4, 0, 2, 32]]" by (simp add: p closes_def)
  have d: "receiveDelegate demo_connection" "connection_log demo_connection = []" by (simp_all add: demo_connection)
  have b: "length (replicate buffer_size (0 :: u8)) = buffer_size" "buffer_size < 10000" by (simp_all add: buffer_size_def)
  have e: "(\<exists>b\<in>set (st_posted demo_3). rd_u16 b 2 = Some (server_code MessageTypeFirewallClosing)) = False"
    using n by (simp add: p)
  show ?thesis
    using posted_is_received [OF plain_kernel_documented demo_client_init(1) demo_reach(1) [unfolded demo_0_def]
        demo_states(3-5) d(1) b] unfolding u e d(2) append_Nil if_False append_Nil2
    by (elim exE conjE, intro exI conjI) assumption+
qed

text \<open>C6. What the client's delegate sees at any time. Under every interleaving of the thread with posted
  messages, the wake-ups of other clients and the disconnect, and with every message the client had no room for left
  out, the receiving thread hands over messages that were posted, in the order in which they were posted and none
  twice. They are exactly those the extension has put on the socket, up to and including the first that announces
  the closing of the firewall if there is one; it never reads outside its buffer.\<close>

theorem received_in_order:
  assumes "atomics_documented k" and "InitWithClient k n False ref u new_client = (True, c)"
    and "mailbox_reach k a (connected_state a c) T"
    and "concat css = st_sent T" and "list_all (\<lambda>ms. ms \<noteq> [] \<and> length (concat ms) \<le> buffer_size) css"
    and "receiveDelegate C" and "length buf = buffer_size" and "buffer_size < fuel"
  shows "\<exists>ms bs C'. ReceiveThread fuel (map (RecvData \<circ> concat) css) buf C = Returned C' \<and>
    list_all2 starts_with ms bs \<and> bs = until_closing (st_sent T) \<and> subseq bs (st_posted T) \<and>
    connection_log C' = connection_log C @ map Received ms @
      (if \<exists>b\<in>set (st_sent T). rd_u16 b 2 = Some (server_code MessageTypeFirewallClosing)
       then (if 0 <s gSocket C then [SocketClosed (gSocket C)] else []) @ (if closedDelegate C then [ConnectionClosed] else [])
       else [])"
proof -
  note f = sent_framed [OF assms(1-3)]
  have "list_all framed (concat css)" using f(3) assms(4) by simp
  from receive_until [OF this assms(5-8)] until_closing_subseq [OF f(1)] show ?thesis
    unfolding assms(4) closes_def by blast
qed

lemma received_in_order_witness:
  "\<exists>ms C'. ReceiveThread 10000 [RecvData [4, 0, 2, 32]] (replicate buffer_size 0) demo_connection = Returned C' \<and>
    connection_log C' = map Received ms \<and> list_all2 starts_with ms (st_sent demo_6) \<and> subseq (st_sent demo_6) (st_posted demo_6)"
proof -
  have s: "st_sent demo_6 = [[4, 0, 2, 32]]" by (simp add: demo_defs)
  have n: "rd_u16 [4, 0, 2, 32] 2 \<noteq> Some (server_code MessageTypeFirewallClosing)" by code_simp
  then have "\<not> closes [4, 0, 2, 32]" by (simp add: closes_def)
  moreover have "(\<exists>b\<in>set (st_sent demo_6). rd_u16 b 2 = Some (server_code MessageTypeFirewallClosing)) = False"
    using n by (simp add: s)
  ultimately show ?thesis
    using received_in_order [OF plain_kernel_documented demo_client_init(1), of 0 demo_6 "[[[4, 0, 2, 32]]]" demo_connection
        "replicate buffer_size 0" 10000] demo_reach(2) s
    unfolding demo_0_def by (auto simp: demo_connection buffer_size_def)
qed

end
